(* ===== verification/Prelude.thy ===== *)
theory Prelude
  imports Main "HOL-Library.Word" "HOL-Library.Signed_Division" "HOL-Library.AList"
begin

text \<open>
  Shared vocabulary of the development: Go's 64-bit and 8-bit integers as \<^typ>\<open>int\<close> with the
  wrap-around written out, the parts of Go's standard library that several components call
  (\<^verbatim>\<open>strconv.FormatInt\<close>, \<^verbatim>\<open>fmt.Sprintf("%d")\<close>, \<^verbatim>\<open>sort.Search\<close>, maps), and the lemmas about
  them that the components use.  The collection \<open>go_int\<close> holds the facts that eliminate a
  wrap-around when the value is in range.
\<close>

unbundle bit_operations_syntax

named_theorems go_int \<open>wrap-around is the identity on values in range\<close>

section \<open>Fixed-width integers\<close>

text \<open>
  A Go \<^verbatim>\<open>int64\<close> is an \<^typ>\<open>int\<close> in \<open>[-2^63, 2^63)\<close>; every operation that can leave that range
  is followed by \<open>wrap64\<close>.  A \<^verbatim>\<open>uint8\<close> is an \<^typ>\<open>int\<close> in \<open>[0, 256)\<close>.
\<close>

definition wrap64 :: "int \<Rightarrow> int" where
  "wrap64 x = signed_take_bit 63 x"

definition wrap32 :: "int \<Rightarrow> int" where
  "wrap32 x = signed_take_bit 31 x"

definition wrap_u8 :: "int \<Rightarrow> int" where
  "wrap_u8 x = x mod 256"

definition shl64 :: "int \<Rightarrow> int \<Rightarrow> int" where
  "shl64 x s = wrap64 (push_bit (nat s) x)"

definition shr64 :: "int \<Rightarrow> int \<Rightarrow> int" where
  "shr64 x s = drop_bit (nat s) x"

definition int64_range :: "int \<Rightarrow> bool" where
  "int64_range x \<longleftrightarrow> - (2 ^ 63) \<le> x \<and> x < 2 ^ 63"

definition u8_range :: "int \<Rightarrow> bool" where
  "u8_range x \<longleftrightarrow> 0 \<le> x \<and> x < 256"

lemma wrap64_id [go_int]: "- (2 ^ 63) \<le> x \<Longrightarrow> x < 2 ^ 63 \<Longrightarrow> wrap64 x = x"
  unfolding wrap64_def by (rule signed_take_bit_int_eq_self) simp_all

lemma wrap64_range: "int64_range (wrap64 x)"
  unfolding int64_range_def wrap64_def
  using signed_take_bit_int_less_exp [of 63 x] signed_take_bit_int_greater_eq_minus_exp [of 63 x]
  by simp

lemma wrap_u8_id [go_int]: "0 \<le> x \<Longrightarrow> x < 256 \<Longrightarrow> wrap_u8 x = x"
  by (simp add: wrap_u8_def)

lemma shl64_eq_mult [go_int]:
  assumes "0 \<le> x" and "x * 2 ^ nat s < 2 ^ 63"
  shows "shl64 x s = x * 2 ^ nat s"
proof -
  have "0 \<le> x * 2 ^ nat s" using assms(1) by simp
  with assms(2) show ?thesis
    unfolding shl64_def push_bit_eq_mult by (intro wrap64_id) linarith+
qed

lemma shr64_eq_div: "shr64 x s = x div 2 ^ nat s"
  by (simp add: shr64_def drop_bit_eq_div)

lemma mask_and_eq_mod: "x AND (2 ^ n - 1) = x mod (2 ^ n :: int)"
  by (simp add: take_bit_eq_mask [symmetric] mask_eq_exp_minus_1 [symmetric] take_bit_eq_mod)

text \<open>Putting a value into the zero low bits of another one is an addition.\<close>

lemma or_low_bits:
  assumes "0 \<le> b" and "b < 2 ^ n"
  shows "(a * 2 ^ n) OR b = a * 2 ^ n + (b :: int)"
proof -
  have "(push_bit n a) AND b = 0"
  proof (rule bit_eqI)
    fix k
    have "take_bit n b = b" using assms by (simp add: take_bit_int_eq_self)
    then have "bit b k \<Longrightarrow> k < n" by (metis bit_take_bit_iff)
    then show "bit (push_bit n a AND b) k \<longleftrightarrow> bit 0 k"
      by (auto simp: bit_and_iff bit_push_bit_iff)
  qed
  then show ?thesis
    by (simp add: push_bit_eq_mult disjunctive_add_eq_or)
qed

section \<open>Panics and maps\<close>

text \<open>A Go call that can panic.\<close>

datatype 'a outcome = Returns 'a | Panics

text \<open>A Go map is an association list with distinct keys; \<^verbatim>\<open>m[k]\<close> on a missing key gives the value
  type's zero value.  Iteration order is never used by a statement.\<close>

definition map_get :: "'v \<Rightarrow> ('k \<times> 'v) list \<Rightarrow> 'k \<Rightarrow> 'v" where
  "map_get zero m k = (case map_of m k of None \<Rightarrow> zero | Some v \<Rightarrow> v)"

lemma map_get_Some [simp]: "map_of m k = Some v \<Longrightarrow> map_get z m k = v"
  by (simp add: map_get_def)

lemma map_get_None [simp]: "map_of m k = None \<Longrightarrow> map_get z m k = z"
  by (simp add: map_get_def)

lemma keys_eq_dom: "set (map fst m) = dom (map_of m)"
  by (simp add: dom_map_of_conv_image_fst)

section \<open>Decimal printing\<close>

text \<open>\<^verbatim>\<open>fmt.Sprintf("%d", n)\<close> and \<^verbatim>\<open>strconv.FormatInt(n, 10)\<close>.\<close>

definition digit_char :: "nat \<Rightarrow> char" where
  "digit_char d = char_of (48 + d)"

fun dec :: "nat \<Rightarrow> string" where
  "dec n = (if n < 10 then [digit_char n] else dec (n div 10) @ [digit_char (n mod 10)])"

declare dec.simps [simp del]

definition undec :: "string \<Rightarrow> nat" where
  "undec s = foldl (\<lambda>a c. 10 * a + (of_char c - 48)) 0 s"

definition FormatInt :: "int \<Rightarrow> string" where
  "FormatInt i = (if i < 0 then CHR ''-'' # dec (nat (- i)) else dec (nat i))"

lemma of_char_digit_char: "d < 10 \<Longrightarrow> of_char (digit_char d) = 48 + d"
  by (simp add: digit_char_def)

lemma undec_snoc: "undec (s @ [c]) = 10 * undec s + (of_char c - 48)"
  by (simp add: undec_def)

lemma undec_dec: "undec (dec n) = n"
proof (induction n rule: dec.induct)
  case (1 n)
  show ?case
  proof (cases "n < 10")
    case True
    then show ?thesis by (simp add: dec.simps [of n] undec_def of_char_digit_char)
  next
    case False
    with 1 show ?thesis
      by (simp add: dec.simps [of n] undec_snoc of_char_digit_char)
  qed
qed

lemma dec_inj: "dec a = dec b \<Longrightarrow> a = b"
  by (metis undec_dec)

lemma dec_no_separator:
  assumes "\<And>d. d < 10 \<Longrightarrow> c \<noteq> digit_char d"
  shows "c \<notin> set (dec n)"
proof (induction n rule: dec.induct)
  case (1 n)
  then show ?case
    using assms by (cases "n < 10") (auto simp: dec.simps [of n])
qed

lemma digit_char_neq: "of_char c < (48::nat) \<Longrightarrow> d < 10 \<Longrightarrow> c \<noteq> digit_char d"
  by (auto simp: of_char_digit_char)

lemma dec_no_hash: "CHR ''#'' \<notin> set (dec n)"
  by (rule dec_no_separator) (simp add: digit_char_neq)

lemma dec_no_minus: "CHR ''-'' \<notin> set (dec n)"
  by (rule dec_no_separator) (simp add: digit_char_neq)

lemma FormatInt_inj: "FormatInt a = FormatInt b \<Longrightarrow> a = b"
proof -
  assume eq: "FormatInt a = FormatInt b"
  have minus: "CHR ''-'' # s \<noteq> dec n" for s n
    using dec_no_minus [of n] by (metis list.set_intros(1))
  show "a = b"
    using eq minus minus [symmetric]
    by (auto simp: FormatInt_def dest: dec_inj split: if_splits)
qed

lemma FormatInt_eq_iff [simp]: "FormatInt a = FormatInt b \<longleftrightarrow> a = b"
  using FormatInt_inj by blast

text \<open>Reading a canonical decimal integer back.\<close>

definition ParseInt :: "string \<Rightarrow> int option" where
  "ParseInt s =
     (let n = (case s of [] \<Rightarrow> 0 | c # r \<Rightarrow> if c = CHR ''-'' then - int (undec r) else int (undec s))
      in if FormatInt n = s then Some n else None)"

lemma dec_not_Nil: "dec n \<noteq> []"
  by (simp add: dec.simps [of n])

lemma ParseInt_FormatInt [simp]: "ParseInt (FormatInt n) = Some n"
proof (cases "n < 0")
  case True
  then show ?thesis by (simp add: ParseInt_def FormatInt_def undec_dec)
next
  case False
  obtain c r where cr: "dec (nat n) = c # r" by (meson dec_not_Nil list.exhaust)
  then have "c \<noteq> CHR ''-''" using dec_no_minus [of "nat n"] by auto
  moreover have "int (undec (c # r)) = n" using False undec_dec [of "nat n"] cr by simp
  ultimately show ?thesis using False cr by (simp add: ParseInt_def FormatInt_def)
qed

section \<open>Errors\<close>

text \<open>A Go error value: a sentinel or message, possibly wrapped by \<^verbatim>\<open>fmt.Errorf("...: %w", err)\<close>.
  \<open>errors_Is\<close> walks the chain as \<^verbatim>\<open>errors.Is\<close> does.\<close>

datatype go_error = Err string | Wrap string go_error

fun errors_Is :: "go_error \<Rightarrow> go_error \<Rightarrow> bool" where
  "errors_Is (Err m) target = (Err m = target)"
| "errors_Is (Wrap m e) target = (Wrap m e = target \<or> errors_Is e target)"

type_synonym 'a result = "go_error + 'a"

text \<open>\<^verbatim>\<open>err.Error()\<close>\<close>

fun error_text :: "go_error \<Rightarrow> string" where
  "error_text (Err m) = m"
| "error_text (Wrap m e) = m @ '': '' @ error_text e"

section \<open>Splitting at the last separator\<close>

lemma append_sep_eq:
  assumes "xs @ c # ys = xs' @ c # ys'" and "c \<notin> set ys" and "c \<notin> set ys'"
  shows "xs = xs' \<and> ys = ys'"
  using assms by (auto simp: append_eq_append_conv2 Cons_eq_append_conv append_eq_Cons_conv)

section \<open>Rotation\<close>

lemma mod_shift_surj:
  fixes k L :: nat
  assumes "k < L"
  shows "\<exists>j < L. (idx + j) mod L = k"
proof -
  define j where "j = (k + (L - idx mod L)) mod L"
  have "(idx + j) mod L = (idx mod L + (k + (L - idx mod L))) mod L"
    unfolding j_def by (metis mod_add_eq mod_mod_trivial)
  also have "idx mod L + (k + (L - idx mod L)) = k + L"
    using mod_less_divisor [of L idx] assms by linarith
  also have "(k + L) mod L = k" using assms by simp
  finally have "(idx + j) mod L = k" .
  moreover have "j < L" using assms by (simp add: j_def)
  ultimately show ?thesis by blast
qed

section \<open>Binary search\<close>

text \<open>Go's \<^verbatim>\<open>sort.Search(n, f)\<close>: its loop, and that it finds the first index that satisfies a
  monotone predicate.\<close>

function search_loop :: "(nat \<Rightarrow> bool) \<Rightarrow> nat \<Rightarrow> nat \<Rightarrow> nat" where
  "search_loop f i j =
     (if i < j then
        (let h = (i + j) div 2 in if \<not> f h then search_loop f (h + 1) j else search_loop f i h)
      else i)"
  by pat_completeness auto
termination
  by (relation "measure (\<lambda>(f, i, j). j - i)") auto

declare search_loop.simps [simp del]

definition Search :: "nat \<Rightarrow> (nat \<Rightarrow> bool) \<Rightarrow> nat" where
  "Search n f = search_loop f 0 n"

lemma search_loop_spec:
  assumes "i \<le> j"
    and "\<And>k l. k \<le> l \<Longrightarrow> l < n \<Longrightarrow> f k \<Longrightarrow> f l"
    and "j \<le> n"
    and "\<And>k. k < i \<Longrightarrow> \<not> f k"
    and "\<And>k. j \<le> k \<Longrightarrow> k < n \<Longrightarrow> f k"
  shows "search_loop f i j \<le> n \<and> (\<forall>k < search_loop f i j. \<not> f k) \<and>
    (\<forall>k. search_loop f i j \<le> k \<longrightarrow> k < n \<longrightarrow> f k)"
  using assms
proof (induction f i j rule: search_loop.induct)
  case (1 f i j)
  show ?case
  proof (cases "i < j")
    case False
    then have "search_loop f i j = i" by (simp add: search_loop.simps)
    with False "1.prems" show ?thesis by auto
  next
    case True
    define h where "h = (i + j) div 2"
    have h: "i \<le> h" "h < j" using True by (auto simp: h_def)
    show ?thesis
    proof (cases "f h")
      case True
      have step: "search_loop f i j = search_loop f i h"
        using \<open>i < j\<close> True by (simp add: search_loop.simps [of f i j] h_def Let_def)
      have above: "\<And>k. h \<le> k \<Longrightarrow> k < n \<Longrightarrow> f k" using True "1.prems"(2) by blast
      show ?thesis
        unfolding step
        by (rule "1.IH"(2) [OF \<open>i < j\<close> h_def _ h(1) "1.prems"(2) _ "1.prems"(4) above])
          (use True h "1.prems"(3) in auto)
    next
      case False
      have step: "search_loop f i j = search_loop f (h + 1) j"
        using \<open>i < j\<close> False by (simp add: search_loop.simps [of f i j] h_def Let_def)
      have below: "\<not> f k" if "k < h + 1" for k
        using False "1.prems"(2) [of k h] h "1.prems"(3) that by auto
      show ?thesis
        unfolding step
        by (rule "1.IH"(1) [OF \<open>i < j\<close> h_def False _ "1.prems"(2) "1.prems"(3) below "1.prems"(5)])
          (use h in auto)
    qed
  qed
qed

lemma Search_spec:
  assumes "\<And>k l. k \<le> l \<Longrightarrow> l < n \<Longrightarrow> f k \<Longrightarrow> f l"
  shows Search_le: "Search n f \<le> n"
    and Search_before: "\<And>k. k < Search n f \<Longrightarrow> \<not> f k"
    and Search_after: "\<And>k. Search n f \<le> k \<Longrightarrow> k < n \<Longrightarrow> f k"
  using search_loop_spec [of 0 n n f] assms unfolding Search_def by auto

section \<open>A field codec for examples\<close>

text \<open>Fields one after the other, each character marked: the concrete codecs that show the contracts of
  the encoding libraries satisfiable are built from it.\<close>

fun enc_field :: "string \<Rightarrow> string" where
  "enc_field [] = ''.''"
| "enc_field (c # cs) = CHR ''+'' # c # enc_field cs"

fun dec_field :: "string \<Rightarrow> (string \<times> string) option" where
  "dec_field (m # cs) =
     (if m = CHR ''.'' then Some ([], cs)
      else case cs of [] \<Rightarrow> None | c # cs' \<Rightarrow> map_option (\<lambda>(f, r). (c # f, r)) (dec_field cs'))"
| "dec_field [] = None"

fun dec_fields :: "nat \<Rightarrow> string \<Rightarrow> string list option" where
  "dec_fields 0 cs = Some []"
| "dec_fields (Suc n) cs =
     (case dec_field cs of None \<Rightarrow> None | Some (f, r) \<Rightarrow> map_option (Cons f) (dec_fields n r))"

lemma dec_enc_field [simp]: "dec_field (enc_field s @ r) = Some (s, r)"
  by (induction s) auto

lemma dec_enc_fields: "dec_fields (length fs) (concat (map enc_field fs)) = Some fs"
  by (induction fs) auto

text \<open>Truncated division agrees with \<open>div\<close> on non-negative operands.\<close>
lemma sdiv_nonneg: "0 \<le> a \<Longrightarrow> 0 < b \<Longrightarrow> a sdiv b = a div (b :: int)"
  by (cases "a = 0") (simp_all add: signed_divide_int_def)

end
