(* ===== verification/Snowflake.thy ===== *)
theory Snowflake
  imports Prelude
begin

text \<open>
  The ID generator of \<^verbatim>\<open>utils/snowflake/snowflake.go\<close>: its configuration and state as records,
  \<^verbatim>\<open>NewGenerator\<close>, \<^verbatim>\<open>NextID\<close> with its busy-wait, and \<^verbatim>\<open>Parse\<close> with the four getters.
  Integers are Go's \<^verbatim>\<open>int64\<close> and \<^verbatim>\<open>uint8\<close> with their wrap-around.  The wall clock is a sequence
  \<open>clock\<close> of \<^verbatim>\<open>UnixNano\<close> readings and the index of the next reading; each call of
  \<^verbatim>\<open>currentTimestamp\<close> takes one reading.  The mutex makes every \<^verbatim>\<open>NextID\<close> one atomic step.
\<close>

unbundle bit_operations_syntax

section \<open>State and operations\<close>

datatype sf_error =
    ErrInvalidWorkerID
  | ErrInvalidDatacenterID
  | ErrClockMovedBackwards
  | ErrInvalidBitAllocation

fun sf_message :: "sf_error \<Rightarrow> string" where
  "sf_message ErrInvalidWorkerID = ''worker ID exceeds maximum value''"
| "sf_message ErrInvalidDatacenterID = ''datacenter ID exceeds maximum value''"
| "sf_message ErrClockMovedBackwards = ''clock moved backwards''"
| "sf_message ErrInvalidBitAllocation = ''invalid bit allocation: total bits must not exceed 22''"

definition Epoch :: int where
  "Epoch = 1704067200000"

definition DefaultWorkerIDBits :: int where
  "DefaultWorkerIDBits = 10"

definition DefaultSequenceBits :: int where
  "DefaultSequenceBits = 12"

record sf_config =
  cfg_Epoch :: int
  cfg_DatacenterID :: int
  cfg_WorkerID :: int
  cfg_WorkerIDBits :: int
  cfg_SequenceBits :: int
  cfg_DatacenterBits :: int

record generator =
  epoch :: int
  datacenterID :: int
  workerID :: int
  workerIDBits :: int
  sequenceBits :: int
  datacenterBits :: int
  workerIDShift :: int
  datacenterIDShift :: int
  timestampShift :: int
  sequenceMask :: int
  workerIDMask :: int
  datacenterIDMask :: int
  sequence :: int
  lastTimestamp :: int

definition bit_mask :: "int \<Rightarrow> int" where
  "bit_mask bits = (- 1) XOR shl64 (- 1) bits"

definition with_defaults :: "sf_config \<Rightarrow> sf_config" where
  "with_defaults c =
     c\<lparr>cfg_WorkerIDBits := (if cfg_WorkerIDBits c = 0 then DefaultWorkerIDBits else cfg_WorkerIDBits c),
       cfg_SequenceBits := (if cfg_SequenceBits c = 0 then DefaultSequenceBits else cfg_SequenceBits c),
       cfg_Epoch := (if cfg_Epoch c = 0 then Epoch else cfg_Epoch c)\<rparr>"

definition NewGenerator :: "sf_config \<Rightarrow> sf_error + generator" where
  "NewGenerator config0 =
    (let config = with_defaults config0;
         totalBits = wrap_u8 (wrap_u8 (cfg_DatacenterBits config + cfg_WorkerIDBits config)
                              + cfg_SequenceBits config)
     in if totalBits > 22 then Inl ErrInvalidBitAllocation
        else
          let sb = cfg_SequenceBits config; wb = cfg_WorkerIDBits config; db = cfg_DatacenterBits config;
              g = \<lparr>epoch = cfg_Epoch config,
                   datacenterID = cfg_DatacenterID config,
                   workerID = cfg_WorkerID config,
                   workerIDBits = wb, sequenceBits = sb, datacenterBits = db,
                   workerIDShift = sb,
                   datacenterIDShift = wrap_u8 (sb + wb),
                   timestampShift = wrap_u8 (wrap_u8 (sb + wb) + db),
                   sequenceMask = bit_mask sb,
                   workerIDMask = bit_mask wb,
                   datacenterIDMask = bit_mask db,
                   sequence = 0, lastTimestamp = 0\<rparr>
          in if workerID g > workerIDMask g \<or> workerID g < 0 then Inl ErrInvalidWorkerID
             else if datacenterBits g > 0 then
               (if datacenterID g > datacenterIDMask g \<or> datacenterID g < 0
                then Inl ErrInvalidDatacenterID else Inr g)
             else Inr (g\<lparr>datacenterID := 0\<rparr>))"

definition currentTimestamp :: "(nat \<Rightarrow> int) \<Rightarrow> nat \<Rightarrow> int" where
  "currentTimestamp clock k = clock k sdiv 1000000"

partial_function (option) waitNextMillis :: "(nat \<Rightarrow> int) \<Rightarrow> nat \<Rightarrow> int \<Rightarrow> (int \<times> nat) option" where
  "waitNextMillis clock k lastT =
     (if currentTimestamp clock k \<le> lastT then waitNextMillis clock (Suc k) lastT
      else Some (currentTimestamp clock k, Suc k))"

definition makeID :: "generator \<Rightarrow> int \<Rightarrow> int" where
  "makeID g timestamp =
     ((shl64 (wrap64 (timestamp - epoch g)) (timestampShift g)
       OR shl64 (datacenterID g) (datacenterIDShift g))
      OR shl64 (workerID g) (workerIDShift g))
     OR sequence g"

definition issue :: "generator \<Rightarrow> int \<Rightarrow> nat \<Rightarrow> (sf_error + int) \<times> generator \<times> nat" where
  "issue g timestamp k =
     (let g' = g\<lparr>lastTimestamp := timestamp\<rparr> in (Inr (makeID g' timestamp), g', k))"

definition NextID ::
  "(nat \<Rightarrow> int) \<Rightarrow> nat \<Rightarrow> generator \<Rightarrow> ((sf_error + int) \<times> generator \<times> nat) option" where
  "NextID clock k g =
    (let timestamp = currentTimestamp clock k
     in if timestamp < lastTimestamp g then Some (Inl ErrClockMovedBackwards, g, Suc k)
        else if timestamp = lastTimestamp g then
          (let g1 = g\<lparr>sequence := wrap64 (sequence g + 1) AND sequenceMask g\<rparr>
           in if sequence g1 = 0
              then map_option (\<lambda>(t, k'). issue g1 t k') (waitNextMillis clock (Suc k) (lastTimestamp g1))
              else Some (issue g1 timestamp (Suc k)))
        else Some (issue (g\<lparr>sequence := 0\<rparr>) timestamp (Suc k)))"

definition GetTimestamp :: "generator \<Rightarrow> int \<Rightarrow> int" where
  "GetTimestamp g ident = wrap64 (shr64 ident (timestampShift g) + epoch g)"

definition GetWorkerID :: "generator \<Rightarrow> int \<Rightarrow> int" where
  "GetWorkerID g ident = shr64 ident (workerIDShift g) AND workerIDMask g"

definition GetDatacenterID :: "generator \<Rightarrow> int \<Rightarrow> int" where
  "GetDatacenterID g ident = shr64 ident (datacenterIDShift g) AND datacenterIDMask g"

definition GetSequence :: "generator \<Rightarrow> int \<Rightarrow> int" where
  "GetSequence g ident = ident AND sequenceMask g"

definition Parse :: "generator \<Rightarrow> int \<Rightarrow> int \<times> int \<times> int \<times> int" where
  "Parse g ident =
     (wrap64 (shr64 ident (timestampShift g) + epoch g),
      shr64 ident (datacenterIDShift g) AND datacenterIDMask g,
      shr64 ident (workerIDShift g) AND workerIDMask g,
      ident AND sequenceMask g)"

text \<open>Successive calls, each one under the mutex: the results in order.\<close>

fun NextIDs ::
  "(nat \<Rightarrow> int) \<Rightarrow> nat \<Rightarrow> nat \<Rightarrow> generator \<Rightarrow> ((sf_error + int) list \<times> generator \<times> nat) option" where
  "NextIDs clock 0 k g = Some ([], g, k)"
| "NextIDs clock (Suc n) k g =
     (case NextID clock k g of
        None \<Rightarrow> None
      | Some (r, g', k') \<Rightarrow>
          map_option (\<lambda>(rs, g'', k''). (r # rs, g'', k'')) (NextIDs clock n k' g'))"

fun issued :: "(sf_error + int) list \<Rightarrow> int list" where
  "issued [] = []"
| "issued (Inl e # rs) = issued rs"
| "issued (Inr i # rs) = i # issued rs"

section \<open>The generator's invariant and the value of an ID\<close>

text \<open>What \<^verbatim>\<open>NewGenerator\<close> establishes: at most 22 bits are given to the three fields, masks and
  shifts agree with the bit counts, and each field fits its bits.\<close>

definition sf_inv :: "generator \<Rightarrow> bool" where
  "sf_inv g \<longleftrightarrow>
     0 < sequenceBits g \<and> 0 < workerIDBits g \<and> 0 \<le> datacenterBits g \<and>
     sequenceBits g + workerIDBits g + datacenterBits g \<le> 22 \<and>
     workerIDShift g = sequenceBits g \<and>
     datacenterIDShift g = sequenceBits g + workerIDBits g \<and>
     timestampShift g = sequenceBits g + workerIDBits g + datacenterBits g \<and>
     sequenceMask g = 2 ^ nat (sequenceBits g) - 1 \<and>
     workerIDMask g = 2 ^ nat (workerIDBits g) - 1 \<and>
     datacenterIDMask g = 2 ^ nat (datacenterBits g) - 1 \<and>
     0 \<le> workerID g \<and> workerID g < 2 ^ nat (workerIDBits g) \<and>
     0 \<le> datacenterID g \<and> datacenterID g < 2 ^ nat (datacenterBits g) \<and>
     0 \<le> sequence g \<and> sequence g < 2 ^ nat (sequenceBits g)"

definition same_config :: "generator \<Rightarrow> generator \<Rightarrow> bool" where
  "same_config g h \<longleftrightarrow> h = g\<lparr>sequence := sequence h, lastTimestamp := lastTimestamp h\<rparr>"

lemma same_configE:
  assumes "same_config g g'"
  obtains q l where "g' = g\<lparr>sequence := q, lastTimestamp := l\<rparr>"
  using assms unfolding same_config_def by blast

text \<open>The instants the timestamp bits can represent: 63 bits less the three fields.\<close>

definition ts_range :: "generator \<Rightarrow> int \<Rightarrow> bool" where
  "ts_range g t \<longleftrightarrow> epoch g \<le> t \<and> t - epoch g < 2 ^ (63 - nat (timestampShift g)) \<and>
     int64_range (epoch g) \<and> int64_range t"

text \<open>The layout of an ID as arithmetic.\<close>

definition pack :: "generator \<Rightarrow> int \<Rightarrow> int" where
  "pack g t =
     (((t - epoch g) * 2 ^ nat (datacenterBits g) + datacenterID g) * 2 ^ nat (workerIDBits g)
       + workerID g) * 2 ^ nat (sequenceBits g) + sequence g"

lemma bit_mask_eq: "0 \<le> b \<Longrightarrow> b < 63 \<Longrightarrow> bit_mask b = 2 ^ nat b - 1"
proof -
  assume b: "0 \<le> b" "b < 63"
  have "(2::int) ^ nat b \<le> 2 ^ 63" using b by (intro power_increasing) auto
  moreover have "(0::int) < 2 ^ nat b" by simp
  ultimately have "wrap64 (push_bit (nat b) (- 1)) = push_bit (nat b) (- 1)"
    unfolding push_bit_eq_mult by (intro wrap64_id) linarith+
  then have "bit_mask b = (- 1) XOR push_bit (nat b) (- 1)"
    by (simp add: bit_mask_def shl64_def)
  also have "\<dots> = NOT (NOT (mask (nat b)))"
    by (simp add: push_bit_minus_one_eq_not_mask)
  finally show ?thesis by (simp add: mask_eq_exp_minus_1)
qed

lemma sf_inv_shifts:
  assumes "sf_inv g"
  shows "nat (workerIDShift g) = nat (sequenceBits g)"
    and "nat (datacenterIDShift g) = nat (sequenceBits g) + nat (workerIDBits g)"
    and "nat (timestampShift g) =
      nat (sequenceBits g) + nat (workerIDBits g) + nat (datacenterBits g)"
    and "nat (sequenceBits g) + nat (workerIDBits g) + nat (datacenterBits g) \<le> 22"
  using assms by (auto simp: sf_inv_def nat_add_distrib)

text \<open>Within the representable instants the shifts lose nothing and the \<^verbatim>\<open>|\<close> of the four parts is
  their sum.\<close>

lemma makeID_eq_pack:
  assumes inv: "sf_inv g" and rng: "ts_range g t"
  shows "makeID g t = pack g t"
proof -
  define s w d where "s = nat (sequenceBits g)" and "w = nat (workerIDBits g)"
    and "d = nat (datacenterBits g)"
  have sh: "nat (workerIDShift g) = s" "nat (datacenterIDShift g) = s + w"
    "nat (timestampShift g) = s + w + d" and swd: "s + w + d \<le> 22"
    using sf_inv_shifts [OF inv] by (auto simp: s_def w_def d_def)
  define a where "a = t - epoch g"
  have a: "0 \<le> a" "a < 2 ^ (63 - (s + w + d))"
    using rng by (auto simp: ts_range_def a_def sh)
  have fld: "0 \<le> datacenterID g" "datacenterID g < 2 ^ d" "0 \<le> workerID g" "workerID g < 2 ^ w"
    "0 \<le> sequence g" "sequence g < 2 ^ s"
    using inv by (auto simp: sf_inv_def s_def w_def d_def)
  have lt_mult: "x * 2 ^ n < 2 ^ (m + n)" if "x < 2 ^ m" for x :: int and m n
    using that by (simp add: power_add)
  have a63: "a * 2 ^ (s + w + d) < 2 ^ 63"
    using lt_mult [OF a(2), of "s + w + d"] swd by simp
  have dc: "datacenterID g * 2 ^ (s + w) < 2 ^ (s + w + d)"
    using lt_mult [OF fld(2), of "s + w"] by (simp add: ac_simps)
  have wk: "workerID g * 2 ^ s < 2 ^ (s + w)"
    using lt_mult [OF fld(4), of s] by (simp add: ac_simps)
  have pow: "(2::int) ^ (s + w + d) \<le> 2 ^ 63" "(2::int) ^ (s + w) \<le> 2 ^ 63"
    using swd by (intro power_increasing; simp)+
  have "a < 2 ^ 63"
    using a(2) power_increasing [of "63 - (s + w + d)" 63 "2::int"] by simp
  then have wa: "wrap64 a = a" using a(1) by (intro wrap64_id) auto
  have sa: "shl64 (wrap64 a) (timestampShift g) = a * 2 ^ (s + w + d)"
    using shl64_eq_mult [of a "timestampShift g"] a(1) a63 by (simp add: sh wa)
  have sdc: "shl64 (datacenterID g) (datacenterIDShift g) = datacenterID g * 2 ^ (s + w)"
    using shl64_eq_mult [of "datacenterID g" "datacenterIDShift g"] fld dc pow(1) by (simp add: sh)
  have swk: "shl64 (workerID g) (workerIDShift g) = workerID g * 2 ^ s"
    using shl64_eq_mult [of "workerID g" "workerIDShift g"] fld wk pow(2) by (simp add: sh)
  have 1: "(a * 2 ^ (s + w + d)) OR (datacenterID g * 2 ^ (s + w))
      = (a * 2 ^ d + datacenterID g) * 2 ^ (s + w)"
    using or_low_bits [of "datacenterID g * 2 ^ (s + w)" "s + w + d" a] fld dc
    by (simp add: power_add algebra_simps)
  have 2: "((a * 2 ^ d + datacenterID g) * 2 ^ (s + w)) OR (workerID g * 2 ^ s)
      = ((a * 2 ^ d + datacenterID g) * 2 ^ w + workerID g) * 2 ^ s"
    using or_low_bits [of "workerID g * 2 ^ s" "s + w" "a * 2 ^ d + datacenterID g"] fld wk
    by (simp add: power_add algebra_simps)
  have 3: "(((a * 2 ^ d + datacenterID g) * 2 ^ w + workerID g) * 2 ^ s) OR sequence g
      = ((a * 2 ^ d + datacenterID g) * 2 ^ w + workerID g) * 2 ^ s + sequence g"
    by (rule or_low_bits) (use fld in auto)
  show ?thesis
    unfolding makeID_def a_def [symmetric] sa sdc swk 1 2 3
    by (simp add: pack_def a_def s_def w_def d_def)
qed

lemma horner_div_mod:
  assumes "0 \<le> y" and "y < (2::int) ^ n"
  shows "(x * 2 ^ n + y) div 2 ^ n = x" and "(x * 2 ^ n + y) mod 2 ^ n = y"
  using assms by (auto simp: div_add1_eq)

lemma Parse_pack:
  assumes inv: "sf_inv g" and rng: "ts_range g t"
  shows "Parse g (pack g t) = (t, datacenterID g, workerID g, sequence g)"
proof -
  define s w d where "s = nat (sequenceBits g)" and "w = nat (workerIDBits g)"
    and "d = nat (datacenterBits g)"
  have sh: "nat (workerIDShift g) = s" "nat (datacenterIDShift g) = s + w"
    "nat (timestampShift g) = s + w + d"
    using sf_inv_shifts [OF inv] by (auto simp: s_def w_def d_def)
  have mk: "sequenceMask g = 2 ^ s - 1" "workerIDMask g = 2 ^ w - 1" "datacenterIDMask g = 2 ^ d - 1"
    using inv by (auto simp: sf_inv_def s_def w_def d_def)
  have fld: "0 \<le> datacenterID g" "datacenterID g < 2 ^ d" "0 \<le> workerID g" "workerID g < 2 ^ w"
    "0 \<le> sequence g" "sequence g < 2 ^ s"
    using inv by (auto simp: sf_inv_def s_def w_def d_def)
  define A where "A = (t - epoch g) * 2 ^ d + datacenterID g"
  define B where "B = A * 2 ^ w + workerID g"
  have P: "pack g t = B * 2 ^ s + sequence g"
    by (simp add: pack_def A_def B_def s_def w_def d_def)
  have PB: "pack g t div 2 ^ s = B" "pack g t mod 2 ^ s = sequence g"
    unfolding P using fld by (rule_tac [!] horner_div_mod) auto
  have BA: "B div 2 ^ w = A" "B mod 2 ^ w = workerID g"
    unfolding B_def using fld by (rule_tac [!] horner_div_mod) auto
  have At: "A div 2 ^ d = t - epoch g" "A mod 2 ^ d = datacenterID g"
    unfolding A_def using fld by (rule_tac [!] horner_div_mod) auto
  have "pack g t div 2 ^ (s + w) = A" "pack g t div 2 ^ (s + w + d) = t - epoch g"
    by (simp_all add: power_add div_mult2_eq' zdiv_zmult2_eq PB BA At)
  moreover have "wrap64 t = t"
    using rng by (intro wrap64_id) (auto simp: ts_range_def int64_range_def)
  ultimately show ?thesis
    by (simp add: Parse_def shr64_eq_div sh mk mask_and_eq_mod PB BA At)
qed

section \<open>Reading the clock until it advances\<close>

lemma waitNextMillis_gt:
  assumes "waitNextMillis clock k l = Some (t, k')"
  shows "l < t \<and> (\<exists>j. t = currentTimestamp clock j)"
proof (rule waitNextMillis.raw_induct
    [where P = "\<lambda>clock k l r. l < fst r \<and> (\<exists>j. fst r = currentTimestamp clock j)",
      OF _ assms, unfolded fst_conv])
  fix f clock k l and r :: "int \<times> nat"
  assume "\<And>clock k l r. f clock k l = Some r \<Longrightarrow> l < fst r \<and> (\<exists>j. fst r = currentTimestamp clock j)"
    and "(if currentTimestamp clock k \<le> l then f clock (Suc k) l
      else Some (currentTimestamp clock k, Suc k)) = Some r"
  then show "l < fst r \<and> (\<exists>j. fst r = currentTimestamp clock j)"
    by (cases "currentTimestamp clock k \<le> l") auto
qed

lemma waitNextMillis_returns:
  assumes "k \<le> m" and "l < currentTimestamp clock m"
  shows "\<exists>t k'. waitNextMillis clock k l = Some (t, k')"
  using assms(1)
proof (induction k rule: inc_induct)
  case base
  with assms(2) show ?case by (simp add: waitNextMillis.simps [of clock m])
next
  case (step n)
  then show ?case by (simp add: waitNextMillis.simps [of clock n])
qed

lemma NextID_progress:
  assumes "\<And>k l. \<exists>m > k. l < currentTimestamp clock m"
  shows "NextID clock k g \<noteq> None"
proof -
  obtain m where m: "k < m" "lastTimestamp g < currentTimestamp clock m" using assms by blast
  then show ?thesis
    using waitNextMillis_returns [of "Suc k" m "lastTimestamp g" clock] by (auto simp: NextID_def issue_def Let_def)
qed

section \<open>One call of NextID\<close>

definition progress :: "generator \<Rightarrow> generator \<Rightarrow> bool" where
  "progress g g' \<longleftrightarrow>
     lastTimestamp g < lastTimestamp g' \<or>
     (lastTimestamp g = lastTimestamp g' \<and> sequence g < sequence g')"

lemma next_sequence:
  assumes "sf_inv g"
  shows "wrap64 (sequence g + 1) AND sequenceMask g =
    (if sequence g + 1 < 2 ^ nat (sequenceBits g) then sequence g + 1 else 0)"
proof -
  have sb: "nat (sequenceBits g) \<le> 22" and seq: "0 \<le> sequence g" "sequence g < 2 ^ nat (sequenceBits g)"
    using assms by (auto simp: sf_inv_def)
  have "(2::int) ^ nat (sequenceBits g) \<le> 2 ^ 22" using sb by (intro power_increasing) auto
  with seq have "wrap64 (sequence g + 1) = sequence g + 1" by (intro wrap64_id) auto
  moreover have "sequenceMask g = 2 ^ nat (sequenceBits g) - 1" using assms by (simp add: sf_inv_def)
  ultimately have *: "wrap64 (sequence g + 1) AND sequenceMask g =
      (sequence g + 1) mod 2 ^ nat (sequenceBits g)"
    by (simp add: mask_and_eq_mod)
  show ?thesis
  proof (cases "sequence g + 1 < 2 ^ nat (sequenceBits g)")
    case True
    with * seq show ?thesis by simp
  next
    case False
    with seq have full: "sequence g + 1 = 2 ^ nat (sequenceBits g)" by linarith
    show ?thesis unfolding * unfolding full by simp
  qed
qed

lemma issue_step:
  assumes "sf_inv g" and "0 \<le> q" and "q < 2 ^ nat (sequenceBits g)"
    and "issue (g\<lparr>sequence := q\<rparr>) t k = (r, g', k')"
  shows "r = Inr (makeID g' (lastTimestamp g')) \<and> sf_inv g' \<and> same_config g g' \<and>
    lastTimestamp g' = t \<and> sequence g' = q"
  using assms by (auto simp: issue_def Let_def sf_inv_def same_config_def)

lemma NextID_cases:
  assumes inv: "sf_inv g" and run: "NextID clock k g = Some (r, g', k')"
  obtains (backwards) "r = Inl ErrClockMovedBackwards" "g' = g"
      "currentTimestamp clock k < lastTimestamp g"
  | (issued) "r = Inr (makeID g' (lastTimestamp g'))" "sf_inv g'" "same_config g g'"
      "progress g g'" "\<exists>j. lastTimestamp g' = currentTimestamp clock j"
proof -
  define t where "t = currentTimestamp clock k"
  have pos: "(0::int) < 2 ^ nat (sequenceBits g)" by simp
  have seq0: "0 \<le> sequence g" using inv by (simp add: sf_inv_def)
  consider "t < lastTimestamp g" | "lastTimestamp g < t"
    | "t = lastTimestamp g" "sequence g + 1 < 2 ^ nat (sequenceBits g)"
    | "t = lastTimestamp g" "\<not> sequence g + 1 < 2 ^ nat (sequenceBits g)"
    by linarith
  then show ?thesis
  proof cases
    case 1
    with run show ?thesis by (auto simp: NextID_def t_def intro: backwards)
  next
    case 2
    with run have "issue (g\<lparr>sequence := 0\<rparr>) t (Suc k) = (r, g', k')"
      by (simp add: NextID_def t_def)
    from issue_step [OF inv _ pos this] 2 show ?thesis
      by (auto simp: progress_def t_def intro!: issued)
  next
    case 3
    with run seq0 have "issue (g\<lparr>sequence := sequence g + 1\<rparr>) t (Suc k) = (r, g', k')"
      by (auto simp: NextID_def t_def [symmetric] next_sequence [OF inv] Let_def)
    from issue_step [OF inv _ _ this] 3 seq0 show ?thesis
      by (intro issued) (auto simp: progress_def t_def intro: sym)
  next
    case 4
    with run obtain t' k2 where w: "waitNextMillis clock (Suc k) (lastTimestamp g) = Some (t', k2)"
      and i: "issue (g\<lparr>sequence := 0\<rparr>) t' k2 = (r, g', k')"
      by (auto simp: NextID_def t_def [symmetric] next_sequence [OF inv] Let_def)
    from issue_step [OF inv _ pos i] waitNextMillis_gt [OF w] show ?thesis
      by (auto simp: progress_def intro!: issued)
  qed
qed

lemma pack_mono:
  assumes inv: "sf_inv g" "sf_inv g'" and cfg: "same_config g g'" and p: "progress g g'"
  shows "pack g (lastTimestamp g) < pack g' (lastTimestamp g')"
proof -
  obtain q l where g': "g' = g\<lparr>sequence := q, lastTimestamp := l\<rparr>"
    using cfg by (rule same_configE)
  define n where "n = (2::int) ^ nat (sequenceBits g)"
  define X where "X t = ((t - epoch g) * 2 ^ nat (datacenterBits g) + datacenterID g)
      * 2 ^ nat (workerIDBits g) + workerID g" for t
  have P: "pack g (lastTimestamp g) = X (lastTimestamp g) * n + sequence g"
    "pack g' (lastTimestamp g') = X l * n + q"
    by (simp_all add: pack_def X_def n_def g')
  have sq: "sequence g < n" "0 \<le> q" "0 < n"
    using inv by (simp_all add: sf_inv_def n_def g')
  have Xmono: "X t < X t'" if "t < t'" for t t'
    using that by (simp add: X_def mult_strict_right_mono)
  show ?thesis
  proof (cases "lastTimestamp g < l")
    case True
    then have "X (lastTimestamp g) + 1 \<le> X l" using Xmono by fastforce
    then have "(X (lastTimestamp g) + 1) * n \<le> X l * n" using sq(3) by (intro mult_right_mono) auto
    then show ?thesis using sq unfolding P by (simp add: algebra_simps)
  next
    case False
    with p show ?thesis unfolding P by (auto simp: progress_def g')
  qed
qed

lemma same_config_range:
  assumes "same_config g g'"
  shows "ts_range g' t = ts_range g t"
proof -
  obtain q l where "g' = g\<lparr>sequence := q, lastTimestamp := l\<rparr>"
    using assms by (rule same_configE)
  then show ?thesis by (simp add: ts_range_def)
qed

lemma pack_bounds:
  assumes inv: "sf_inv g" and rng: "ts_range g t"
  shows "0 \<le> pack g t \<and> pack g t < 2 ^ 63"
proof -
  define s w d where "s = nat (sequenceBits g)" and "w = nat (workerIDBits g)"
    and "d = nat (datacenterBits g)"
  have ts: "nat (timestampShift g) = s + w + d" and swd: "s + w + d \<le> 22"
    using sf_inv_shifts [OF inv] by (auto simp: s_def w_def d_def)
  have fld: "0 \<le> datacenterID g" "datacenterID g < 2 ^ d" "0 \<le> workerID g" "workerID g < 2 ^ w"
    "0 \<le> sequence g" "sequence g < 2 ^ s"
    using inv by (auto simp: sf_inv_def s_def w_def d_def)
  have cons: "0 \<le> x * 2 ^ n + y \<and> x * 2 ^ n + y < 2 ^ (m + n)"
    if "0 \<le> x" "x < 2 ^ m" "0 \<le> y" "y < 2 ^ n" for x y :: int and m n
  proof -
    have "(x + 1) * 2 ^ n \<le> 2 ^ m * 2 ^ n" using that by (intro mult_right_mono) auto
    then show ?thesis using that by (simp add: algebra_simps power_add)
  qed
  have "0 \<le> t - epoch g" "t - epoch g < 2 ^ (63 - (s + w + d))"
    using rng by (auto simp: ts_range_def ts)
  from cons [OF this fld(1,2)] have A: "0 \<le> (t - epoch g) * 2 ^ d + datacenterID g"
    "(t - epoch g) * 2 ^ d + datacenterID g < 2 ^ (63 - (s + w + d) + d)" by auto
  from cons [OF A fld(3,4)] have B: "0 \<le> ((t - epoch g) * 2 ^ d + datacenterID g) * 2 ^ w + workerID g"
    "((t - epoch g) * 2 ^ d + datacenterID g) * 2 ^ w + workerID g
      < 2 ^ (63 - (s + w + d) + d + w)" by auto
  have e: "63 - (s + w + d) + d + w + s = 63" using swd by simp
  show ?thesis
    using cons [OF B fld(5,6)] unfolding e
    by (simp add: pack_def s_def w_def d_def)
qed

lemma NextID_issued_value:
  assumes inv: "sf_inv g" and rng: "\<And>j. ts_range g (currentTimestamp clock j)"
    and run: "NextID clock k g = Some (Inr i, g', k')"
  shows "sf_inv g'" and "same_config g g'" and "progress g g'"
    and "ts_range g' (lastTimestamp g')" and "i = pack g' (lastTimestamp g')"
  using inv run
  by (cases rule: NextID_cases; auto simp: rng same_config_range makeID_eq_pack)+

lemma NextIDs_increasing_from:
  assumes "sf_inv g" and "\<And>j. ts_range g (currentTimestamp clock j)"
    and "NextIDs clock n k g = Some (rs, g', k')"
  shows "sorted_wrt (<) (pack g (lastTimestamp g) # issued rs) \<and>
    (\<forall>i \<in> set (issued rs). 0 \<le> i \<and> i < 2 ^ 63)"
  using assms
proof (induction n arbitrary: k g rs)
  case 0
  then show ?case by simp
next
  case (Suc n)
  then obtain r g1 k1 rs1 where one: "NextID clock k g = Some (r, g1, k1)"
    and rest: "NextIDs clock n k1 g1 = Some (rs1, g', k')" and rs: "rs = r # rs1"
    by (auto split: option.splits)
  show ?case
  proof (cases r)
    case (Inl e)
    have "g1 = g" using Suc.prems(1) one by (cases rule: NextID_cases) (use Inl in auto)
    with Suc.IH [of g1] Suc.prems rest rs Inl show ?thesis by simp
  next
    case (Inr i)
    note v = NextID_issued_value [OF Suc.prems(1,2) one [unfolded Inr]]
    have "pack g (lastTimestamp g) < i" unfolding v(5)
      by (rule pack_mono) (use v Suc.prems(1) in auto)
    moreover have "0 \<le> i \<and> i < 2 ^ 63" unfolding v(5) by (rule pack_bounds) (use v in auto)
    moreover have "sorted_wrt (<) (i # issued rs1) \<and> (\<forall>i \<in> set (issued rs1). 0 \<le> i \<and> i < 2 ^ 63)"
      using Suc.IH [OF v(1) _ rest] Suc.prems(2) same_config_range [OF v(2)] v(5) by simp
    ultimately show ?thesis by (auto simp: rs Inr)
  qed
qed





section \<open>A concrete generator\<close>

text \<open>The generator \<^verbatim>\<open>cmd/main.go\<close> builds (worker 1, default bits), on a clock that stands still.\<close>

declare waitNextMillis.simps [code]

definition demo_config :: sf_config where
  "demo_config = \<lparr>cfg_Epoch = 0, cfg_DatacenterID = 1, cfg_WorkerID = 1, cfg_WorkerIDBits = 0,
     cfg_SequenceBits = 0, cfg_DatacenterBits = 0\<rparr>"

definition demo_clock :: "nat \<Rightarrow> int" where
  "demo_clock j = 1704067202000000000"

definition demo_gen :: "int \<Rightarrow> int \<Rightarrow> int \<Rightarrow> generator" where
  "demo_gen worker sq t = \<lparr>epoch = Epoch, datacenterID = 0, workerID = worker, workerIDBits = 10,
     sequenceBits = 12, datacenterBits = 0, workerIDShift = 12, datacenterIDShift = 22,
     timestampShift = 22, sequenceMask = 4095, workerIDMask = 1023, datacenterIDMask = 0,
     sequence = sq, lastTimestamp = t\<rparr>"

definition overflow_config :: sf_config where
  "overflow_config = \<lparr>cfg_Epoch = 0, cfg_DatacenterID = 0, cfg_WorkerID = 1, cfg_WorkerIDBits = 0,
     cfg_SequenceBits = 250, cfg_DatacenterBits = 0\<rparr>"

definition overflow_clock :: "nat \<Rightarrow> int" where
  "overflow_clock j = (if j < 17 then 1704067202000000000 else 1704067202001000000)"

lemma demo_new: "NewGenerator demo_config = Inr (demo_gen 1 0 0)"
  by code_simp

lemma demo_inv: "0 \<le> w \<Longrightarrow> w < 1024 \<Longrightarrow> 0 \<le> sq \<Longrightarrow> sq < 4096 \<Longrightarrow> sf_inv (demo_gen w sq t)"
  by (simp add: sf_inv_def demo_gen_def)

lemma demo_range: "ts_range (demo_gen w sq t) (currentTimestamp demo_clock j)"
  by (simp add: ts_range_def demo_gen_def currentTimestamp_def demo_clock_def Epoch_def
      int64_range_def signed_divide_int_def)

lemma demo_run:
  "NextIDs demo_clock 3 0 (demo_gen 1 0 0) =
     Some ([Inr 8388612096, Inr 8388612097, Inr 8388612098], demo_gen 1 2 1704067202000, 3)"
  by code_simp

lemma demo_next:
  "NextID demo_clock 0 (demo_gen 1 0 0) = Some (Inr 8388612096, demo_gen 1 0 1704067202000, 1)"
  "NextID demo_clock 0 (demo_gen 2 0 0) = Some (Inr 8388616192, demo_gen 2 0 1704067202000, 1)"
  by code_simp+

section \<open>Properties\<close>

text \<open>C8. Every ID that a generator issues, over any number of calls and with clock readings that
  may stand still or jump back, is greater than all IDs it issued before, and fits the 63 value bits
  of an \<^verbatim>\<open>int64\<close>: IDs of one generator are unique and increasing.  The clock readings are required to
  lie in the range that the timestamp bits can represent.\<close>

theorem NextIDs_increasing:
  assumes "sf_inv g" and "\<And>j. ts_range g (currentTimestamp clock j)"
    and "NextIDs clock n k g = Some (rs, g', k')"
  shows "sorted_wrt (<) (issued rs) \<and> distinct (issued rs) \<and>
    (\<forall>i \<in> set (issued rs). 0 \<le> i \<and> i < 2 ^ 63)"
proof -
  have "sorted_wrt (<) (issued rs)" and "\<forall>i \<in> set (issued rs). 0 \<le> i \<and> i < 2 ^ 63"
    using NextIDs_increasing_from [OF assms] by simp_all
  then show ?thesis by (simp add: strict_sorted_iff)
qed

theorem NextIDs_increasing_witness:
  "\<exists>rs g' k'. NextIDs demo_clock 3 0 (demo_gen 1 0 0) = Some (rs, g', k') \<and>
     length (issued rs) = 3 \<and> sorted_wrt (<) (issued rs) \<and> distinct (issued rs)"
proof -
  have "sf_inv (demo_gen 1 0 0)" by (simp add: demo_inv)
  from NextIDs_increasing [OF this demo_range demo_run] show ?thesis
    by (simp add: demo_run)
qed

text \<open>C18. \<^verbatim>\<open>Parse\<close> (and so each getter) recovers from an issued ID exactly the timestamp, datacenter,
  worker and sequence number it was built from.\<close>

theorem NextID_Parse:
  assumes "sf_inv g" and "\<And>j. ts_range g (currentTimestamp clock j)"
    and "NextID clock k g = Some (Inr i, g', k')"
  shows "Parse g' i = (lastTimestamp g', datacenterID g, workerID g, sequence g') \<and>
    Parse g' i = (GetTimestamp g' i, GetDatacenterID g' i, GetWorkerID g' i, GetSequence g' i)"
proof -
  note v = NextID_issued_value [OF assms]
  have "datacenterID g' = datacenterID g" "workerID g' = workerID g"
    using v(2) by (auto elim: same_configE)
  then show ?thesis
    using Parse_pack [OF v(1,4)]
    by (simp add: v(5) Parse_def GetTimestamp_def GetDatacenterID_def GetWorkerID_def GetSequence_def)
qed


theorem NextID_Parse_witness:
  "Parse (demo_gen 1 0 1704067202000) 8388612096 = (1704067202000, 0, 1, 0)"
proof -
  have "sf_inv (demo_gen 1 0 0)" by (simp add: demo_inv)
  from NextID_Parse [OF this demo_range demo_next(1)] show ?thesis
    by (simp add: demo_gen_def)
qed

text \<open>C19. Two generators with the same epoch and bit layout but different worker or datacenter numbers
  never issue the same ID.\<close>

theorem NextID_workers_disjoint:
  assumes "sf_inv g" and "sf_inv h"
    and "\<And>j. ts_range g (currentTimestamp clock j)" and "\<And>j. ts_range h (currentTimestamp clock' j)"
    and "epoch g = epoch h" "sequenceBits g = sequenceBits h" "workerIDBits g = workerIDBits h"
      "datacenterBits g = datacenterBits h"
    and "(datacenterID g, workerID g) \<noteq> (datacenterID h, workerID h)"
    and "NextID clock k g = Some (Inr i, g', k')" and "NextID clock' m h = Some (Inr j, h', m')"
  shows "i \<noteq> j"
proof
  assume "i = j"
  note vg = NextID_issued_value [OF assms(1,3,10)] and vh = NextID_issued_value [OF assms(2,4,11)]
  have layout: "Parse h' = Parse g'"
  proof -
    obtain q l q' l' where "g' = g\<lparr>sequence := q, lastTimestamp := l\<rparr>"
      and "h' = h\<lparr>sequence := q', lastTimestamp := l'\<rparr>"
      using vg(2) vh(2) by (elim same_configE)
    moreover have "workerIDShift h = workerIDShift g" "datacenterIDShift h = datacenterIDShift g"
      "timestampShift h = timestampShift g" "sequenceMask h = sequenceMask g"
      "workerIDMask h = workerIDMask g" "datacenterIDMask h = datacenterIDMask g"
      using assms(1,2,5-8) by (auto simp: sf_inv_def)
    ultimately show ?thesis using assms(5) by (simp add: Parse_def fun_eq_iff)
  qed
  have "(datacenterID g', workerID g') = (datacenterID h', workerID h')"
    using Parse_pack [OF vg(1,4)] Parse_pack [OF vh(1,4)] vg(5) vh(5) layout \<open>i = j\<close> by simp
  then show False using assms(9) vg(2) vh(2) by (auto elim!: same_configE)
qed

theorem NextID_workers_disjoint_witness:
  "\<exists>i j. map_option fst (NextID demo_clock 0 (demo_gen 1 0 0)) = Some (Inr i) \<and>
     map_option fst (NextID demo_clock 0 (demo_gen 2 0 0)) = Some (Inr j) \<and> i \<noteq> j"
proof -
  have "(8388612096 :: int) \<noteq> 8388616192"
    by (rule NextID_workers_disjoint [OF _ _ demo_range demo_range _ _ _ _ _ demo_next(1) demo_next(2)])
      (simp_all add: demo_inv, simp_all add: demo_gen_def)
  then show ?thesis by (simp add: demo_next)
qed

text \<open>C20. \<^verbatim>\<open>NextID\<close> terminates: if the clock at some later reading has passed the generator's last
  timestamp, the call returns, the busy-wait of an exhausted sequence included.  A clock behind the
  last timestamp gives \<^verbatim>\<open>ErrClockMovedBackwards\<close> and leaves the generator unchanged; otherwise an ID is
  issued.\<close>

theorem NextID_returns:
  assumes "k < m" and "lastTimestamp g < currentTimestamp clock m"
  shows "\<exists>r g' k'. NextID clock k g = Some (r, g', k') \<and>
    (currentTimestamp clock k < lastTimestamp g \<longleftrightarrow> r = Inl ErrClockMovedBackwards) \<and>
    (r = Inl ErrClockMovedBackwards \<longrightarrow> g' = g) \<and>
    (\<not> currentTimestamp clock k < lastTimestamp g \<longrightarrow> (\<exists>i. r = Inr i))"
proof -
  have "\<exists>t k'. waitNextMillis clock (Suc k) (lastTimestamp g) = Some (t, k')"
    by (rule waitNextMillis_returns [of _ m]) (use assms in auto)
  then show ?thesis
    by (auto simp: NextID_def issue_def Let_def)
qed

theorem NextID_returns_witness:
  "\<exists>r g' k'. NextID demo_clock 0 (demo_gen 1 4095 1704067201999) = Some (r, g', k')"
proof -
  have "lastTimestamp (demo_gen 1 4095 1704067201999) < currentTimestamp demo_clock 1"
    by (simp add: demo_gen_def currentTimestamp_def demo_clock_def signed_divide_int_def)
  from NextID_returns [OF _ this, of 0] show ?thesis by auto
qed

lemma NewGenerator_outcome:
  fixes c :: sf_config
  defines "wb \<equiv> cfg_WorkerIDBits (with_defaults c)" and "sb \<equiv> cfg_SequenceBits (with_defaults c)"
    and "db \<equiv> cfg_DatacenterBits c"
  assumes "u8_range (cfg_WorkerIDBits c)" "u8_range (cfg_SequenceBits c)" "u8_range db"
    and "db + wb + sb < 256"
  shows "case NewGenerator c of
      Inl ErrInvalidBitAllocation \<Rightarrow> db + wb + sb > 22
    | Inl ErrInvalidWorkerID \<Rightarrow> db + wb + sb \<le> 22 \<and> cfg_WorkerID c \<notin> {0..<2 ^ nat wb}
    | Inl ErrInvalidDatacenterID \<Rightarrow> db + wb + sb \<le> 22 \<and> cfg_WorkerID c \<in> {0..<2 ^ nat wb} \<and>
        db > 0 \<and> cfg_DatacenterID c \<notin> {0..<2 ^ nat db}
    | Inl ErrClockMovedBackwards \<Rightarrow> False
    | Inr g \<Rightarrow> db + wb + sb \<le> 22 \<and> cfg_WorkerID c \<in> {0..<2 ^ nat wb} \<and>
        (db = 0 \<or> cfg_DatacenterID c \<in> {0..<2 ^ nat db}) \<and>
        sf_inv g \<and> workerID g = cfg_WorkerID c \<and>
        datacenterID g = (if db > 0 then cfg_DatacenterID c else 0) \<and>
        epoch g = (if cfg_Epoch c = 0 then Epoch else cfg_Epoch c) \<and>
        sequenceBits g = sb \<and> workerIDBits g = wb \<and> datacenterBits g = db \<and>
        sequence g = 0 \<and> lastTimestamp g = 0"
proof -
  have db': "cfg_DatacenterBits (with_defaults c) = db"
    "cfg_WorkerID (with_defaults c) = cfg_WorkerID c"
    "cfg_DatacenterID (with_defaults c) = cfg_DatacenterID c"
    "cfg_Epoch (with_defaults c) = (if cfg_Epoch c = 0 then Epoch else cfg_Epoch c)"
    by (simp_all add: db_def with_defaults_def)
  have rng: "0 < wb" "0 < sb" "0 \<le> db" "wb < 256" "sb < 256" "db < 256"
    using assms(4-6) by (auto simp: u8_range_def wb_def sb_def with_defaults_def
        DefaultWorkerIDBits_def DefaultSequenceBits_def)
  have tot: "wrap_u8 (wrap_u8 (db + wb) + sb) = db + wb + sb"
    "wrap_u8 (sb + wb) = sb + wb" "wrap_u8 (sb + wb + db) = sb + wb + db"
    using rng assms(7) by (simp_all add: wrap_u8_id)
  show ?thesis
  proof (cases "db + wb + sb > 22")
    case True
    then show ?thesis
      by (simp add: NewGenerator_def Let_def db' tot wb_def [symmetric] sb_def [symmetric])
  next
    case False
    then have "wb < 63" "sb < 63" "db < 63" using rng by linarith+
    note mk = bit_mask_eq [OF less_imp_le [OF rng(1)] this(1)]
      bit_mask_eq [OF less_imp_le [OF rng(2)] this(2)] bit_mask_eq [OF rng(3) this(3)]
    have zero: "bit_mask 0 = 0" by (simp add: bit_mask_eq)
    from False rng show ?thesis
      by (auto simp: NewGenerator_def Let_def db' tot wb_def [symmetric] sb_def [symmetric] mk zero
          sf_inv_def)
  qed
qed

text \<open>C21. \<^verbatim>\<open>NewGenerator\<close> on every branch, for bit counts whose sum does not overflow the \<^verbatim>\<open>uint8\<close>
  in which it is computed: more than 22 bits, a worker number outside its bits and a datacenter number
  outside its bits are each refused with their error; any other configuration gives a generator that
  satisfies the invariant, with the configured numbers (the datacenter number is 0 when it has no bits).\<close>

theorem NewGenerator_spec:
  fixes c :: sf_config
  defines "wb \<equiv> cfg_WorkerIDBits (with_defaults c)" and "sb \<equiv> cfg_SequenceBits (with_defaults c)"
    and "db \<equiv> cfg_DatacenterBits c"
  assumes "u8_range (cfg_WorkerIDBits c)" "u8_range (cfg_SequenceBits c)" "u8_range db"
    and "db + wb + sb < 256"
  shows "case NewGenerator c of
      Inl ErrInvalidBitAllocation \<Rightarrow> db + wb + sb > 22
    | Inl ErrInvalidWorkerID \<Rightarrow> db + wb + sb \<le> 22 \<and> cfg_WorkerID c \<notin> {0..<2 ^ nat wb}
    | Inl ErrInvalidDatacenterID \<Rightarrow> db + wb + sb \<le> 22 \<and> cfg_WorkerID c \<in> {0..<2 ^ nat wb} \<and>
        db > 0 \<and> cfg_DatacenterID c \<notin> {0..<2 ^ nat db}
    | Inl ErrClockMovedBackwards \<Rightarrow> False
    | Inr g \<Rightarrow> db + wb + sb \<le> 22 \<and> cfg_WorkerID c \<in> {0..<2 ^ nat wb} \<and>
        (db = 0 \<or> cfg_DatacenterID c \<in> {0..<2 ^ nat db}) \<and>
        sf_inv g \<and> workerID g = cfg_WorkerID c \<and>
        datacenterID g = (if db > 0 then cfg_DatacenterID c else 0) \<and>
        epoch g = (if cfg_Epoch c = 0 then Epoch else cfg_Epoch c) \<and>
        sequenceBits g = sb \<and> workerIDBits g = wb \<and> datacenterBits g = db \<and>
        sequence g = 0 \<and> lastTimestamp g = 0"
  unfolding wb_def sb_def db_def by (rule NewGenerator_outcome) (use assms in simp_all)

theorem NewGenerator_spec_witness:
  "case NewGenerator demo_config of Inl e \<Rightarrow> False | Inr g \<Rightarrow> sf_inv g \<and> datacenterID g = 0"
  using NewGenerator_spec [of demo_config]
  unfolding demo_new
  by (simp add: demo_config_def u8_range_def with_defaults_def DefaultWorkerIDBits_def
      DefaultSequenceBits_def)



text \<open>The sum of the bit counts is computed in \<^verbatim>\<open>uint8\<close>, so the check \<^verbatim>\<open>totalBits > 22\<close> can be passed
  by a configuration with far too many bits: 250 sequence bits are accepted, and the resulting generator
  issues the same ID twice within 18 calls.\<close>

lemma NewGenerator_uint8_overflow:
  "case NewGenerator overflow_config of
     Inl e \<Rightarrow> False
   | Inr g \<Rightarrow>
       (case NextIDs overflow_clock 18 0 g of
          None \<Rightarrow> False
        | Some (rs, _, _) \<Rightarrow> length (issued rs) = 18 \<and> \<not> distinct (issued rs))"
  by code_simp

end
