(* ===== verification/ConsistentHash.thy ===== *)
theory ConsistentHash
  imports Prelude
begin

text \<open>
  The consistent-hash ring of \<^verbatim>\<open>utils/consistenthash/consistenthash.go\<close>.  Strings are byte lists, the
  hash function of the ring is a field of its record as in the code, and \<^verbatim>\<open>crypto/sha256\<close>, which only
  the default hash uses, is an argument of \<open>New\<close>.  The read-write mutex makes every operation atomic.
  The abstract view of a ring is the set of its nodes: \<open>points\<close> gives each node its positions, and
  \<open>clockwise\<close> the first position at or after a hash.
\<close>

section \<open>State and operations\<close>

record ring =
  r_hash :: "string \<Rightarrow> 32 word"
  replicas :: int
  ring_keys :: "32 word list"
  hashMap :: "(32 word \<times> string) list"
  ring_nodes :: "(string \<times> bool) list"

definition be_uint32 :: "8 word list \<Rightarrow> 32 word" where
  "be_uint32 bs = foldl (\<lambda>a b. push_bit 8 a OR ucast b) 0 bs"

definition defaultHash :: "(string \<Rightarrow> 8 word list) \<Rightarrow> string \<Rightarrow> 32 word" where
  "defaultHash sha256 data = be_uint32 (take 4 (sha256 data))"

definition New :: "(string \<Rightarrow> 8 word list) \<Rightarrow> int \<Rightarrow> (string \<Rightarrow> 32 word) option \<Rightarrow> ring" where
  "New sha256 reps fn =
     \<lparr>r_hash = (case fn of None \<Rightarrow> defaultHash sha256 | Some f \<Rightarrow> f),
      replicas = (if reps \<le> 0 then 50 else reps),
      ring_keys = [], hashMap = [], ring_nodes = []\<rparr>"

definition virtualKey :: "string \<Rightarrow> nat \<Rightarrow> string" where
  "virtualKey node i = node @ ''#'' @ dec i"

definition add_virtual :: "string \<Rightarrow> ring \<Rightarrow> nat \<Rightarrow> ring" where
  "add_virtual node r i =
     (let hash = r_hash r (virtualKey node i)
      in r\<lparr>ring_keys := ring_keys r @ [hash], hashMap := AList.update hash node (hashMap r)\<rparr>)"

definition add_one :: "ring \<Rightarrow> string \<Rightarrow> ring" where
  "add_one r node =
     (if node = '''' then r
      else if map_get False (ring_nodes r) node then r
      else foldl (add_virtual node) (r\<lparr>ring_nodes := AList.update node True (ring_nodes r)\<rparr>)
             [0..<nat (replicas r)])"

definition Add :: "ring \<Rightarrow> string list \<Rightarrow> ring" where
  "Add r ns = (let r' = foldl add_one r ns in r'\<lparr>ring_keys := sort (ring_keys r')\<rparr>)"

definition rebuildKeys :: "ring \<Rightarrow> ring" where
  "rebuildKeys r = r\<lparr>ring_keys := sort (map fst (hashMap r))\<rparr>"

definition remove_virtual :: "string \<Rightarrow> ring \<Rightarrow> nat \<Rightarrow> ring" where
  "remove_virtual node r i =
     r\<lparr>hashMap := AList.delete (r_hash r (virtualKey node i)) (hashMap r)\<rparr>"

definition remove_one :: "ring \<Rightarrow> string \<Rightarrow> ring" where
  "remove_one r node =
     (if node = '''' then r
      else if \<not> map_get False (ring_nodes r) node then r
      else foldl (remove_virtual node) (r\<lparr>ring_nodes := AList.delete node (ring_nodes r)\<rparr>)
             [0..<nat (replicas r)])"

definition Remove :: "ring \<Rightarrow> string list \<Rightarrow> ring" where
  "Remove r ns = rebuildKeys (foldl remove_one r ns)"

definition Get :: "ring \<Rightarrow> string \<Rightarrow> string" where
  "Get r key =
     (if ring_keys r = [] then ''''
      else
        let hash = r_hash r key;
            idx = Search (length (ring_keys r)) (\<lambda>i. hash \<le> ring_keys r ! i);
            idx = (if idx = length (ring_keys r) then 0 else idx)
        in map_get '''' (hashMap r) (ring_keys r ! idx))"

function getN_loop :: "ring \<Rightarrow> nat \<Rightarrow> nat \<Rightarrow> nat \<Rightarrow> string list \<Rightarrow> (string \<times> bool) list \<Rightarrow> string list" where
  "getN_loop r idx n i result seen =
     (if i < length (ring_keys r) \<and> length result < n then
        let pos = (idx + i) mod length (ring_keys r);
            node = map_get '''' (hashMap r) (ring_keys r ! pos)
        in if \<not> map_get False seen node
           then getN_loop r idx n (i + 1) (result @ [node]) (AList.update node True seen)
           else getN_loop r idx n (i + 1) result seen
      else result)"
  by pat_completeness auto
termination
  by (relation "measure (\<lambda>(r, idx, n, i, result, seen). length (ring_keys r) - i)") auto

declare getN_loop.simps [simp del]

definition GetN :: "ring \<Rightarrow> string \<Rightarrow> int \<Rightarrow> string list outcome" where
  "GetN r key n0 =
     (if length (ring_nodes r) = 0 then Returns []
      else
        let n = (if n0 > int (length (ring_nodes r)) then int (length (ring_nodes r)) else n0);
            hash = r_hash r key;
            idx = Search (length (ring_keys r)) (\<lambda>i. hash \<le> ring_keys r ! i)
        in if n < 0 then Panics \<comment> \<open>\<^verbatim>\<open>make([]string, 0, n)\<close> with a negative capacity\<close>
           else Returns (getN_loop r idx (nat n) 0 [] []))"

definition Nodes :: "ring \<Rightarrow> string list" where
  "Nodes r = map fst (ring_nodes r)"

definition IsEmpty :: "ring \<Rightarrow> bool" where
  "IsEmpty r \<longleftrightarrow> length (ring_nodes r) = 0"

definition Size :: "ring \<Rightarrow> nat" where
  "Size r = length (ring_nodes r)"

section \<open>The abstract ring\<close>

definition points :: "(string \<Rightarrow> 32 word) \<Rightarrow> int \<Rightarrow> string set \<Rightarrow> (32 word \<times> string) set" where
  "points h reps N = {(h (virtualKey n i), n) | n i. n \<in> N \<and> i < nat reps}"

text \<open>Two different nodes never share a position.\<close>

definition collision_free :: "(string \<Rightarrow> 32 word) \<Rightarrow> int \<Rightarrow> string set \<Rightarrow> bool" where
  "collision_free h reps N \<longleftrightarrow> (\<forall>x n m. (x, n) \<in> points h reps N \<longrightarrow> (x, m) \<in> points h reps N \<longrightarrow> n = m)"

definition clockwise :: "'a::linorder \<Rightarrow> 'a set \<Rightarrow> 'a" where
  "clockwise h S = (if {x \<in> S. h \<le> x} = {} then Min S else Min {x \<in> S. h \<le> x})"

definition covers :: "ring \<Rightarrow> string set \<Rightarrow> bool" where
  "covers r N \<longleftrightarrow>
     0 < replicas r \<and> '''' \<notin> N \<and>
     map_of (ring_nodes r) = (\<lambda>n. if n \<in> N then Some True else None) \<and>
     distinct (map fst (ring_nodes r)) \<and>
     (\<forall>x n. map_of (hashMap r) x = Some n \<longleftrightarrow> (x, n) \<in> points (r_hash r) (replicas r) N)"

definition represents :: "ring \<Rightarrow> string set \<Rightarrow> bool" where
  "represents r N \<longleftrightarrow> covers r N \<and> sorted (ring_keys r) \<and>
     set (ring_keys r) = fst ` points (r_hash r) (replicas r) N"

lemma virtualKey_inj: "virtualKey n i = virtualKey m j \<longleftrightarrow> n = m \<and> i = j"
  using append_sep_eq [of n "CHR ''#''" "dec i" m "dec j"] dec_no_hash dec_inj
  by (auto simp: virtualKey_def)

lemma points_insert: "points h R (insert n N) = points h R N \<union> {(h (virtualKey n i), n) | i. i < nat R}"
  by (auto simp: points_def)

lemma points_Un: "points h R (N \<union> M) = points h R N \<union> points h R M"
  by (auto simp: points_def)

lemma points_mono: "N \<subseteq> M \<Longrightarrow> points h R N \<subseteq> points h R M"
  by (auto simp: points_def)

lemma collision_free_mono: "collision_free h R M \<Longrightarrow> N \<subseteq> M \<Longrightarrow> collision_free h R N"
  unfolding collision_free_def using points_mono by blast

section \<open>Adding and removing nodes\<close>

lemma foldl_add_virtual:
  "ring_keys (foldl (add_virtual n) r is) = ring_keys r @ map (\<lambda>i. r_hash r (virtualKey n i)) is \<and>
   ring_nodes (foldl (add_virtual n) r is) = ring_nodes r \<and>
   r_hash (foldl (add_virtual n) r is) = r_hash r \<and>
   replicas (foldl (add_virtual n) r is) = replicas r \<and>
   map_of (hashMap (foldl (add_virtual n) r is)) =
     (\<lambda>x. if x \<in> (\<lambda>i. r_hash r (virtualKey n i)) ` set is then Some n else map_of (hashMap r) x)"
proof (induction "is" arbitrary: r)
  case Nil
  then show ?case by simp
next
  case (Cons i "is")
  show ?case
    using Cons.IH [of "add_virtual n r i"] by (auto simp: add_virtual_def Let_def update_conv fun_eq_iff)
qed

lemma foldl_remove_virtual:
  "ring_keys (foldl (remove_virtual n) r is) = ring_keys r \<and>
   ring_nodes (foldl (remove_virtual n) r is) = ring_nodes r \<and>
   r_hash (foldl (remove_virtual n) r is) = r_hash r \<and>
   replicas (foldl (remove_virtual n) r is) = replicas r \<and>
   map_of (hashMap (foldl (remove_virtual n) r is)) =
     (\<lambda>x. if x \<in> (\<lambda>i. r_hash r (virtualKey n i)) ` set is then None else map_of (hashMap r) x)"
proof (induction "is" arbitrary: r)
  case Nil
  then show ?case by simp
next
  case (Cons i "is")
  show ?case
    using Cons.IH [of "remove_virtual n r i"] by (auto simp: remove_virtual_def delete_conv fun_eq_iff)
qed

lemma present_iff:
  "covers r N \<Longrightarrow> map_get False (ring_nodes r) n \<longleftrightarrow> n \<in> N"
  by (auto simp: covers_def map_get_def)

lemma add_one_covers:
  assumes cov: "covers r N" and free: "collision_free (r_hash r) (replicas r) (insert n N)"
    and ne: "n \<noteq> ''''"
  shows "covers (add_one r n) (insert n N)"
proof (cases "n \<in> N")
  case True
  with cov ne show ?thesis by (simp add: add_one_def present_iff [OF cov] insert_absorb)
next
  case False
  define r' where "r' = add_one r n"
  have r': "r' = foldl (add_virtual n) (r\<lparr>ring_nodes := AList.update n True (ring_nodes r)\<rparr>)
      [0..<nat (replicas r)]"
    using ne False by (simp add: r'_def add_one_def present_iff [OF cov])
  note f = foldl_add_virtual [of n "r\<lparr>ring_nodes := AList.update n True (ring_nodes r)\<rparr>"
      "[0..<nat (replicas r)]", folded r', simplified]
  have nodes: "map_of (ring_nodes r') = (\<lambda>m. if m \<in> insert n N then Some True else None)"
    using f cov by (auto simp: covers_def update_conv fun_eq_iff)
  have dist: "distinct (map fst (ring_nodes r'))"
    using f cov by (simp add: covers_def distinct_update)
  have "map_of (hashMap r') x = Some m \<longleftrightarrow> (x, m) \<in> points (r_hash r') (replicas r') (insert n N)"
    for x m
  proof -
    have old: "map_of (hashMap r) x = Some m \<longleftrightarrow> (x, m) \<in> points (r_hash r) (replicas r) N"
      using cov by (simp add: covers_def)
    show ?thesis
    proof (cases "x \<in> (\<lambda>i. r_hash r (virtualKey n i)) ` {0..<nat (replicas r)}")
      case True
      then have "(x, n) \<in> points (r_hash r) (replicas r) (insert n N)"
        by (auto simp: points_insert)
      with free have "(x, m) \<in> points (r_hash r) (replicas r) (insert n N) \<longleftrightarrow> m = n"
        by (auto simp: collision_free_def)
      with True f show ?thesis by auto
    next
      case False
      then have "(x, m) \<in> points (r_hash r) (replicas r) (insert n N) \<longleftrightarrow>
          (x, m) \<in> points (r_hash r) (replicas r) N"
        by (auto simp: points_insert)
      with False f old show ?thesis by simp
    qed
  qed
  with nodes dist f cov ne show ?thesis by (simp add: covers_def r'_def [symmetric])
qed

lemma remove_one_covers:
  assumes cov: "covers r N" and free: "collision_free (r_hash r) (replicas r) N"
  shows "covers (remove_one r n) (N - {n})"
proof (cases "n \<in> N")
  case False
  with cov show ?thesis by (simp add: remove_one_def present_iff [OF cov])
next
  case True
  then have ne: "n \<noteq> ''''" using cov by (auto simp: covers_def)
  define r' where "r' = remove_one r n"
  have r': "r' = foldl (remove_virtual n) (r\<lparr>ring_nodes := AList.delete n (ring_nodes r)\<rparr>)
      [0..<nat (replicas r)]"
    using ne True by (simp add: r'_def remove_one_def present_iff [OF cov])
  note f = foldl_remove_virtual [of n "r\<lparr>ring_nodes := AList.delete n (ring_nodes r)\<rparr>"
      "[0..<nat (replicas r)]", folded r', simplified]
  have nodes: "map_of (ring_nodes r') = (\<lambda>m. if m \<in> N - {n} then Some True else None)"
    using f cov by (auto simp: covers_def delete_conv fun_eq_iff)
  have dist: "distinct (map fst (ring_nodes r'))"
    using f cov by (simp add: covers_def distinct_delete)
  have "map_of (hashMap r') x = Some m \<longleftrightarrow> (x, m) \<in> points (r_hash r') (replicas r') (N - {n})"
    for x m
  proof (cases "x \<in> (\<lambda>i. r_hash r (virtualKey n i)) ` {0..<nat (replicas r)}")
    case xin: True
    then have "(x, n) \<in> points (r_hash r) (replicas r) N"
      using True by (auto simp: points_def)
    then have "(x, m) \<notin> points (r_hash r) (replicas r) (N - {n})"
      using free by (auto simp: collision_free_def points_def)
    with xin f show ?thesis by auto
  next
    case False
    then have "(x, m) \<in> points (r_hash r) (replicas r) (N - {n}) \<longleftrightarrow>
        (x, m) \<in> points (r_hash r) (replicas r) N"
      by (auto simp: points_def)
    with False f cov show ?thesis by (simp add: covers_def)
  qed
  with nodes dist f cov show ?thesis by (simp add: covers_def r'_def [symmetric])
qed

lemma one_frame [simp]:
  "r_hash (add_one r n) = r_hash r" "replicas (add_one r n) = replicas r"
  "r_hash (remove_one r n) = r_hash r" "replicas (remove_one r n) = replicas r"
  by (simp_all add: add_one_def remove_one_def foldl_add_virtual foldl_remove_virtual)

lemma add_one_keys:
  assumes "covers r N" and "set (ring_keys r) = fst ` points (r_hash r) (replicas r) N"
    and "n \<noteq> ''''"
  shows "set (ring_keys (add_one r n)) = fst ` points (r_hash r) (replicas r) (insert n N)"
proof (cases "n \<in> N")
  case True
  with assms show ?thesis by (simp add: add_one_def present_iff [OF assms(1)] insert_absorb)
next
  case False
  with assms show ?thesis
    by (auto simp: add_one_def present_iff [OF assms(1)] foldl_add_virtual points_insert image_Un
        image_iff)
qed

lemma foldl_add_one:
  assumes "covers r N" and "set (ring_keys r) = fst ` points (r_hash r) (replicas r) N"
    and "collision_free (r_hash r) (replicas r) (N \<union> (set ns - {''''}))"
  shows "covers (foldl add_one r ns) (N \<union> (set ns - {''''})) \<and>
    set (ring_keys (foldl add_one r ns)) =
      fst ` points (r_hash r) (replicas r) (N \<union> (set ns - {''''})) \<and>
    r_hash (foldl add_one r ns) = r_hash r \<and> replicas (foldl add_one r ns) = replicas r"
  using assms
proof (induction ns arbitrary: r N)
  case Nil
  then show ?case by simp
next
  case (Cons n ns)
  show ?case
  proof (cases "n = ''''")
    case True
    then have "N \<union> (set (n # ns) - {''''}) = N \<union> (set ns - {''''})" by auto
    with True Cons show ?thesis by (simp add: add_one_def)
  next
    case False
    have N: "N \<union> (set (n # ns) - {''''}) = insert n N \<union> (set ns - {''''})" using False by auto
    have "collision_free (r_hash r) (replicas r) (insert n N)"
      by (rule collision_free_mono [OF Cons.prems(3)]) (auto simp: False)
    with Cons.IH [of "add_one r n" "insert n N"] Cons.prems False
    show ?thesis unfolding N by (simp add: add_one_covers add_one_keys)
  qed
qed

lemma foldl_remove_one:
  assumes "covers r N" and "collision_free (r_hash r) (replicas r) N"
  shows "covers (foldl remove_one r ns) (N - set ns) \<and>
    r_hash (foldl remove_one r ns) = r_hash r \<and> replicas (foldl remove_one r ns) = replicas r"
  using assms
proof (induction ns arbitrary: r N)
  case Nil
  then show ?case by simp
next
  case (Cons n ns)
  have "collision_free (r_hash r) (replicas r) (N - {n})"
    by (rule collision_free_mono [OF Cons.prems(2)]) auto
  moreover have "N - set (n # ns) = N - {n} - set ns" by auto
  ultimately show ?case
    using Cons.IH [of "remove_one r n" "N - {n}"] Cons.prems by (simp add: remove_one_covers)
qed

lemma covers_dom: "covers r N \<Longrightarrow> dom (map_of (hashMap r)) = fst ` points (r_hash r) (replicas r) N"
  unfolding covers_def dom_def by (force simp: image_iff)

lemma covers_keys_irrelevant: "covers (r\<lparr>ring_keys := ks\<rparr>) N = covers r N"
  by (simp add: covers_def)

lemma Add_represents:
  assumes "represents r N" and "collision_free (r_hash r) (replicas r) (N \<union> (set ns - {''''}))"
  shows "represents (Add r ns) (N \<union> (set ns - {''''}))"
    and "r_hash (Add r ns) = r_hash r" and "replicas (Add r ns) = replicas r"
  using foldl_add_one [of r N ns] assms
  by (simp_all add: represents_def Add_def Let_def covers_keys_irrelevant)

lemma Remove_represents:
  assumes "represents r N" and "collision_free (r_hash r) (replicas r) N"
  shows "represents (Remove r ns) (N - set ns)"
    and "r_hash (Remove r ns) = r_hash r" and "replicas (Remove r ns) = replicas r"
  using foldl_remove_one [of r N ns] assms keys_eq_dom [of "hashMap (foldl remove_one r ns)"]
    covers_dom [of "foldl remove_one r ns" "N - set ns"]
  by (simp_all add: represents_def Remove_def rebuildKeys_def covers_keys_irrelevant)

lemma New_represents: "represents (New sha reps fn) {}"
  by (simp add: represents_def covers_def New_def points_def)

section \<open>Looking a key up\<close>

lemma Search_sorted:
  fixes xs :: "'a::linorder list" and h :: 'a
  assumes "sorted xs"
  defines "idx \<equiv> Search (length xs) (\<lambda>i. h \<le> xs ! i)"
  shows "idx \<le> length xs" and "k < idx \<Longrightarrow> xs ! k < h"
    and "idx \<le> k \<Longrightarrow> k < length xs \<Longrightarrow> h \<le> xs ! k"
proof -
  have mono: "k \<le> l \<Longrightarrow> l < length xs \<Longrightarrow> h \<le> xs ! k \<Longrightarrow> h \<le> xs ! l" for k l
    using sorted_nth_mono [OF assms(1)] by (meson order_trans)
  show "idx \<le> length xs" unfolding idx_def by (rule Search_le) (rule mono)
  show "k < idx \<Longrightarrow> xs ! k < h"
    unfolding idx_def using Search_before [of "length xs" "\<lambda>i. h \<le> xs ! i"] mono by (meson not_le)
  show "idx \<le> k \<Longrightarrow> k < length xs \<Longrightarrow> h \<le> xs ! k"
    unfolding idx_def by (rule Search_after [of "length xs" "\<lambda>i. h \<le> xs ! i"]) (auto intro: mono)
qed

lemma Search_clockwise:
  fixes xs :: "'a::linorder list" and h :: 'a
  assumes s: "sorted xs" and ne: "xs \<noteq> []"
  defines "idx \<equiv> Search (length xs) (\<lambda>i. h \<le> xs ! i)"
  shows "xs ! (if idx = length xs then 0 else idx) = clockwise h (set xs)"
proof (cases "idx = length xs")
  case True
  then have "{x \<in> set xs. h \<le> x} = {}"
    using Search_sorted(2) [OF s, of _ h, folded idx_def] by (fastforce simp: in_set_conv_nth)
  moreover have "Min (set xs) = xs ! 0"
    using s ne by (metis List.finite_set Min_eqI in_set_conv_nth le0 length_greater_0_conv nth_mem
        sorted_nth_mono)
  ultimately show ?thesis using True by (simp add: clockwise_def)
next
  case False
  then have lt: "idx < length xs" using Search_sorted(1) [OF s, of h] by (simp add: idx_def)
  have mem: "xs ! idx \<in> {x \<in> set xs. h \<le> x}"
    using Search_sorted(3) [OF s, of h idx] lt by (simp add: idx_def)
  have "Min {x \<in> set xs. h \<le> x} = xs ! idx"
  proof (rule Min_eqI)
    fix y assume "y \<in> {x \<in> set xs. h \<le> x}"
    then obtain k where k: "k < length xs" "y = xs ! k" "h \<le> xs ! k" by (auto simp: in_set_conv_nth)
    then have "idx \<le> k" using Search_sorted(2) [OF s, of k h, folded idx_def] by (meson not_le)
    then show "xs ! idx \<le> y" using sorted_nth_mono [OF s] k by simp
  qed (use mem in auto)
  with mem False show ?thesis by (auto simp: clockwise_def)
qed

lemma clockwise_in:
  assumes "finite S" and "S \<noteq> {}"
  shows "clockwise h S \<in> S"
  using assms Min_in [of "{x \<in> S. h \<le> x}"] Min_in [of S] by (auto simp: clockwise_def)

text \<open>Points added elsewhere do not change where a hash lands.\<close>

lemma clockwise_union:
  assumes "finite S" "finite T" and "clockwise h (S \<union> T) \<in> S"
  shows "clockwise h (S \<union> T) = clockwise h S"
proof -
  define c where "c = clockwise h (S \<union> T)"
  have ne: "S \<noteq> {}" "S \<union> T \<noteq> {}" using assms(3) by auto
  show ?thesis
  proof (cases "{x \<in> S \<union> T. h \<le> x} = {}")
    case True
    then have c: "c = Min (S \<union> T)" "{x \<in> S. h \<le> x} = {}" by (auto simp: c_def clockwise_def)
    have "Min S = c"
      by (rule Min_eqI) (use assms c ne in \<open>auto simp: c_def [symmetric]\<close>)
    then have "clockwise h S = c" using c(2) by (simp add: clockwise_def)
    then show ?thesis by (simp add: c_def)
  next
    case False
    then have c: "c = Min {x \<in> S \<union> T. h \<le> x}" by (auto simp: c_def clockwise_def)
    then have "c \<in> {x \<in> S \<union> T. h \<le> x}" using False assms Min_in [of "{x \<in> S \<union> T. h \<le> x}"] by auto
    then have mem: "c \<in> {x \<in> S. h \<le> x}" using assms(3) by (simp add: c_def)
    have "Min {x \<in> S. h \<le> x} = c"
      by (rule Min_eqI) (use mem c assms in auto)
    then have "clockwise h S = c" using mem by (auto simp: clockwise_def)
    then show ?thesis by (simp add: c_def)
  qed
qed

lemma covers_finite: "covers r N \<Longrightarrow> finite N"
proof -
  assume "covers r N"
  then have "dom (map_of (ring_nodes r)) = N" by (auto simp: covers_def dom_def)
  then show ?thesis using finite_dom_map_of by metis
qed

lemma points_finite: "finite N \<Longrightarrow> finite (points h R N)"
proof -
  assume "finite N"
  have "points h R N = (\<lambda>(n, i). (h (virtualKey n i), n)) ` (N \<times> {0..<nat R})"
    by (auto simp: points_def)
  with \<open>finite N\<close> show ?thesis by simp
qed

lemma points_nonempty: "0 < R \<Longrightarrow> N \<noteq> {} \<Longrightarrow> points h R N \<noteq> {}"
  by (auto simp: points_def) (metis zero_less_nat_eq)

lemma Get_at:
  assumes rep: "represents r N" and "N \<noteq> {}"
  shows "(clockwise (r_hash r key) (set (ring_keys r)), Get r key) \<in> points (r_hash r) (replicas r) N"
proof -
  have cov: "covers r N" and s: "sorted (ring_keys r)"
    and K: "set (ring_keys r) = fst ` points (r_hash r) (replicas r) N"
    using rep by (auto simp: represents_def)
  have "points (r_hash r) (replicas r) N \<noteq> {}"
    using cov assms(2) by (intro points_nonempty) (auto simp: covers_def)
  then have ne: "ring_keys r \<noteq> []" using K by auto
  define c where "c = clockwise (r_hash r key) (set (ring_keys r))"
  have "c \<in> set (ring_keys r)" unfolding c_def using ne by (intro clockwise_in) auto
  then obtain n where n: "(c, n) \<in> points (r_hash r) (replicas r) N" using K by auto
  then have "map_of (hashMap r) c = Some n" using cov by (simp add: covers_def)
  moreover have "Get r key = map_get '''' (hashMap r) c"
    using ne Search_clockwise [OF s ne, of "r_hash r key"] by (simp add: Get_def Let_def c_def)
  ultimately show ?thesis using n by (simp add: c_def)
qed

lemma Get_stable:
  assumes r: "represents r N" and r': "represents r' M"
    and same: "r_hash r' = r_hash r" "replicas r' = replicas r"
    and free: "collision_free (r_hash r) (replicas r) M" and sub: "N \<subseteq> M" "N \<noteq> {}"
    and own: "Get r' key \<in> N"
  shows "Get r' key = Get r key"
proof -
  let ?h = "r_hash r key" and ?P = "points (r_hash r) (replicas r)"
  have K: "set (ring_keys r) = fst ` ?P N" "set (ring_keys r') = fst ` ?P M"
    using r r' same by (simp_all add: represents_def)
  have at': "(clockwise ?h (fst ` ?P M), Get r' key) \<in> ?P M"
    using Get_at [OF r', of key] sub same K by auto
  then have "(clockwise ?h (fst ` ?P M), Get r' key) \<in> ?P N" using own by (auto simp: points_def)
  then have mem: "clockwise ?h (fst ` ?P M) \<in> fst ` ?P N" by force
  have "finite N" "finite M" using r r' covers_finite by (auto simp: represents_def)
  then have fin: "finite (fst ` ?P N)" "finite (fst ` ?P (M - N))" by (simp_all add: points_finite)
  have "?P M = ?P N \<union> ?P (M - N)" using sub(1) by (simp add: points_Un [symmetric] Un_absorb1)
  then have "fst ` ?P M = fst ` ?P N \<union> fst ` ?P (M - N)" by (simp add: image_Un)
  then have "clockwise ?h (fst ` ?P M) = clockwise ?h (fst ` ?P N)"
    using clockwise_union [of "fst ` ?P N" "fst ` ?P (M - N)" ?h] mem fin by simp
  moreover have "(clockwise ?h (fst ` ?P N), Get r key) \<in> ?P M"
    using Get_at [OF r sub(2), of key] points_mono [OF sub(1)] unfolding K(1) by auto
  ultimately show ?thesis using at' free by (simp add: collision_free_def)
qed

section \<open>Looking several nodes up\<close>

definition node_at :: "ring \<Rightarrow> nat \<Rightarrow> nat \<Rightarrow> string" where
  "node_at r idx j = map_get '''' (hashMap r) (ring_keys r ! ((idx + j) mod length (ring_keys r)))"

lemma lessThan_Suc_image: "f ` {..<Suc i} = insert (f i) (f ` {..<i})"
  by (auto simp: lessThan_Suc)

lemma take_prefix: "take (Suc (length xs)) zs = xs @ [y] \<Longrightarrow> take (length xs) zs = xs"
  by (metis append_eq_conv_conj le_SucI le_refl min.absorb1 take_take)

lemma getN_loop_spec:
  assumes "distinct result" and "\<And>n. map_get False seen n \<longleftrightarrow> n \<in> set result"
    and "set result = node_at r idx ` {..<i}" and "length result \<le> n" and "i \<le> length (ring_keys r)"
  shows "distinct (getN_loop r idx n i result seen) \<and>
    length (getN_loop r idx n i result seen) \<le> n \<and>
    set (getN_loop r idx n i result seen) \<subseteq> node_at r idx ` {..<length (ring_keys r)} \<and>
    (length (getN_loop r idx n i result seen) = n \<or>
     set (getN_loop r idx n i result seen) = node_at r idx ` {..<length (ring_keys r)}) \<and>
    take (length result) (getN_loop r idx n i result seen) = result"
  using assms
proof (induction r idx n i result seen rule: getN_loop.induct)
  case (1 r idx n i result seen)
  show ?case
  proof (cases "i < length (ring_keys r) \<and> length result < n")
    case False
    then have "getN_loop r idx n i result seen = result" by (subst getN_loop.simps) auto
    with False "1.prems" show ?thesis by (auto simp: le_neq_implies_less)
  next
    case True
    let ?node = "node_at r idx i"
    have seen: "map_get False (AList.update ?node True seen) m \<longleftrightarrow> m \<in> set (result @ [?node])" for m
      using "1.prems"(2) [of m] by (auto simp: map_get_def update_conv)
    show ?thesis
    proof (cases "map_get False seen ?node")
      case known: True
      then have "getN_loop r idx n i result seen = getN_loop r idx n (i + 1) result seen"
        using True by (simp add: getN_loop.simps [of r idx n i] node_at_def Let_def)
      moreover have "set result = node_at r idx ` {..<i + 1}"
        using known "1.prems"(2,3) by (simp add: lessThan_Suc_image insert_absorb)
      ultimately show ?thesis
        using "1.IH"(2) [OF True refl refl] known True "1.prems" by (simp add: node_at_def)
    next
      case new: False
      then have eq: "getN_loop r idx n i result seen =
          getN_loop r idx n (i + 1) (result @ [?node]) (AList.update ?node True seen)"
        using True by (simp add: getN_loop.simps [of r idx n i] node_at_def Let_def)
      have "set (result @ [?node]) = node_at r idx ` {..<i + 1}"
        using "1.prems"(3) by (simp add: lessThan_Suc_image)
      have "distinct (result @ [?node])" using new "1.prems"(1,2) by simp
      show ?thesis
        unfolding eq
        using "1.IH"(1) [OF True refl refl] new True "1.prems" seen
          \<open>set (result @ [?node]) = node_at r idx ` {..<i + 1}\<close> \<open>distinct (result @ [?node])\<close>
        by (auto simp: node_at_def [symmetric] dest: take_prefix)
    qed
  qed
qed

lemma node_at_range:
  assumes rep: "represents r N" and ne: "N \<noteq> {}"
  shows "node_at r idx ` {..<length (ring_keys r)} = N"
proof -
  let ?L = "length (ring_keys r)"
  have cov: "covers r N" and K: "set (ring_keys r) = fst ` points (r_hash r) (replicas r) N"
    using rep by (auto simp: represents_def)
  have "points (r_hash r) (replicas r) N \<noteq> {}"
    using cov ne by (intro points_nonempty) (auto simp: covers_def)
  then have L: "0 < ?L" using K by auto
  have val: "map_get '''' (hashMap r) x = n" if "(x, n) \<in> points (r_hash r) (replicas r) N" for x n
    using cov that by (simp add: covers_def)
  show ?thesis
  proof
    show "node_at r idx ` {..<?L} \<subseteq> N"
    proof
      fix n assume "n \<in> node_at r idx ` {..<?L}"
      then obtain j where j: "n = map_get '''' (hashMap r) (ring_keys r ! ((idx + j) mod ?L))"
        by (auto simp: node_at_def)
      define x where "x = ring_keys r ! ((idx + j) mod ?L)"
      have "x \<in> set (ring_keys r)" "n = map_get '''' (hashMap r) x"
        using L j by (simp_all add: x_def)
      then show "n \<in> N" using K val by (force simp: points_def)
    qed
    show "N \<subseteq> node_at r idx ` {..<?L}"
    proof
      fix n assume "n \<in> N"
      moreover have "0 < nat (replicas r)" using cov by (simp add: covers_def)
      ultimately have pt: "(r_hash r (virtualKey n 0), n) \<in> points (r_hash r) (replicas r) N"
        by (auto simp: points_def)
      then have "r_hash r (virtualKey n 0) \<in> set (ring_keys r)" unfolding K by force
      then obtain k where k: "k < ?L" "ring_keys r ! k = r_hash r (virtualKey n 0)"
        by (auto simp: in_set_conv_nth)
      obtain j where j: "j < ?L" "(idx + j) mod ?L = k" using mod_shift_surj [OF k(1)] by blast
      then have "node_at r idx j = n" using k val [OF pt] by (simp add: node_at_def)
      with j(1) show "n \<in> node_at r idx ` {..<?L}" by force
    qed
  qed
qed

lemma getN_first:
  fixes key :: string
  assumes rep: "represents r N" and ne: "N \<noteq> {}" and m: "0 < m"
  defines "idx \<equiv> Search (length (ring_keys r)) (\<lambda>i. r_hash r key \<le> ring_keys r ! i)"
  shows "hd (getN_loop r idx m 0 [] []) = Get r key"
proof -
  let ?res = "getN_loop r idx m 0 [] []"
  have ks: "ring_keys r \<noteq> []" using node_at_range [OF rep ne, of idx] ne by auto
  then have "?res = getN_loop r idx m 1 [node_at r idx 0] [(node_at r idx 0, True)]"
    using m by (simp add: getN_loop.simps [of r idx m 0] node_at_def map_get_def Let_def)
  then have "take 1 ?res = [node_at r idx 0]"
    using getN_loop_spec [of "[node_at r idx 0]" "[(node_at r idx 0, True)]" r idx 1 m] ks m
    by (simp add: map_get_def Suc_leI lessThan_Suc)
  moreover have "idx \<le> length (ring_keys r)"
    unfolding idx_def by (rule Search_sorted) (use rep in \<open>simp add: represents_def\<close>)
  then have "idx mod length (ring_keys r) = (if idx = length (ring_keys r) then 0 else idx)" by simp
  then have "node_at r idx 0 = Get r key"
    using ks by (simp add: node_at_def Get_def Let_def idx_def)
  ultimately show ?thesis by (cases ?res) auto
qed

lemma represents_size:
  assumes "represents r N"
  shows "length (ring_nodes r) = card N" and "set (map fst (ring_nodes r)) = N"
proof -
  show N: "set (map fst (ring_nodes r)) = N"
    using assms unfolding keys_eq_dom by (auto simp: represents_def covers_def dom_def)
  have "distinct (map fst (ring_nodes r))" using assms by (simp add: represents_def covers_def)
  from distinct_card [OF this] N show "length (ring_nodes r) = card N" by simp
qed

section \<open>A concrete ring\<close>

definition demo_hash :: "string \<Rightarrow> 32 word" where
  "demo_hash s =
     (if s = ''a#0'' then 10 else if s = ''a#1'' then 40 else if s = ''b#0'' then 20
      else if s = ''b#1'' then 50 else if s = ''c#0'' then 30 else if s = ''c#1'' then 5
      else if s = ''k'' then 25 else 45)"

definition demo_ring :: ring where
  "demo_ring = Add (New (\<lambda>_. []) 2 (Some demo_hash)) [''a'', ''b'']"

definition clash_hash :: "string \<Rightarrow> 32 word" where
  "clash_hash s = 7"

lemma collision_free_check:
  "collision_free h R (set ns) \<longleftrightarrow>
     (\<forall>n \<in> set ns. \<forall>m \<in> set ns. \<forall>i \<in> set [0..<nat R]. \<forall>j \<in> set [0..<nat R].
        h (virtualKey n i) = h (virtualKey m j) \<longrightarrow> n = m)"
  by (fastforce simp: collision_free_def points_def)

lemma demo_free: "collision_free demo_hash 2 {''a'', ''b'', ''c''}"
proof -
  have "collision_free demo_hash 2 (set [''a'', ''b'', ''c''])"
    unfolding collision_free_check by code_simp
  then show ?thesis by simp
qed

lemma demo_represents: "represents demo_ring {''a'', ''b''}"
  and demo_fields: "r_hash demo_ring = demo_hash" "replicas demo_ring = 2"
proof -
  have free: "collision_free demo_hash 2 {''a'', ''b''}"
    by (rule collision_free_mono [OF demo_free]) auto
  define r0 where "r0 = New (\<lambda>_. []) 2 (Some demo_hash)"
  have r0: "represents r0 {}" "r_hash r0 = demo_hash" "replicas r0 = 2"
    by (simp_all add: r0_def New_represents) (simp_all add: New_def)
  have N: "{} \<union> (set [''a'', ''b''] - {''''}) = {''a'', ''b''}" by auto
  note A = Add_represents [OF r0(1), of "[''a'', ''b'']", unfolded N r0, OF free]
  show "represents demo_ring {''a'', ''b''}" "r_hash demo_ring = demo_hash" "replicas demo_ring = 2"
    using A by (simp_all add: demo_ring_def r0_def)
qed

section \<open>Properties\<close>

text \<open>C22. The ring refines a set of node names: a new ring is the empty set, \<^verbatim>\<open>Add\<close> is set union
  (ignoring the empty name and names already present), \<^verbatim>\<open>Remove\<close> is set difference, and \<^verbatim>\<open>Nodes\<close>,
  \<^verbatim>\<open>Size\<close> and \<^verbatim>\<open>IsEmpty\<close> read that set, as long as no two different nodes share a ring position.
  \<open>represents\<close> includes that the position slice is sorted and has exactly the nodes' positions.\<close>

theorem ring_refines_node_set:
  assumes "represents r N" and "collision_free (r_hash r) (replicas r) (N \<union> (set ns - {''''}))"
  shows "represents (New sha reps fn) {} \<and>
    represents (Add r ns) (N \<union> (set ns - {''''})) \<and> represents (Remove r ns) (N - set ns) \<and>
    set (Nodes r) = N \<and> Size r = card N \<and> (IsEmpty r \<longleftrightarrow> N = {})"
proof -
  have "collision_free (r_hash r) (replicas r) N"
    by (rule collision_free_mono [OF assms(2)]) auto
  moreover have "finite N" using assms(1) covers_finite by (auto simp: represents_def)
  ultimately show ?thesis
    using New_represents [of sha reps fn] Add_represents(1) [OF assms]
      Remove_represents(1) [OF assms(1)] represents_size [OF assms(1)]
    by (simp add: Nodes_def Size_def IsEmpty_def)
qed

theorem ring_refines_node_set_witness:
  "represents (Add demo_ring [''c'']) {''a'', ''b'', ''c''} \<and>
   represents (Remove demo_ring [''c'']) {''a'', ''b''} \<and> Size demo_ring = 2"
proof -
  have N: "{''a'', ''b''} \<union> (set [''c''] - {''''}) = {''a'', ''b'', ''c''}" by auto
  from ring_refines_node_set [OF demo_represents, of "[''c'']" "\<lambda>_. []" 1 None, unfolded N demo_fields,
      OF demo_free]
  show ?thesis by simp
qed



text \<open>C24. Adding a node to a ring that is not empty moves keys only to that node: every other key stays where it was.  The
  condition is \<open>collision_free\<close>: no virtual node of one node, the new one included, hashes to the position of a virtual node of another
  one.\<close>

theorem Add_minimal_disruption:
  assumes "represents r N" and "N \<noteq> {}" and "n \<noteq> ''''"
    and "collision_free (r_hash r) (replicas r) (insert n N)"
  shows "Get (Add r [n]) key = n \<or> Get (Add r [n]) key = Get r key"
proof -
  have N: "N \<union> (set [n] - {''''}) = insert n N" using assms(3) by auto
  note A = Add_represents [OF assms(1), of "[n]", unfolded N, OF assms(4)]
  have "Get (Add r [n]) key \<in> insert n N"
    using Get_at [OF A(1), of key] by (auto simp: points_def)
  moreover have "Get (Add r [n]) key \<in> N \<Longrightarrow> Get (Add r [n]) key = Get r key"
    by (rule Get_stable [OF assms(1) A assms(4)]) (use assms(2) in auto)
  ultimately show ?thesis by blast
qed

theorem Add_minimal_disruption_witness:
  "Get demo_ring ''k'' = ''a'' \<and> Get (Add demo_ring [''c'']) ''k'' = ''c'' \<and>
   Get (Add demo_ring [''c'']) ''user1'' = Get demo_ring ''user1''"
proof -
  have free: "collision_free (r_hash demo_ring) (replicas demo_ring) (insert ''c'' {''a'', ''b''})"
    unfolding demo_fields by (rule collision_free_mono [OF demo_free]) auto
  have "Get (Add demo_ring [''c'']) ''user1'' \<noteq> ''c''" by code_simp
  with Add_minimal_disruption [OF demo_represents _ _ free, of "''user1''"]
  have "Get (Add demo_ring [''c'']) ''user1'' = Get demo_ring ''user1''" by simp
  moreover have "Get demo_ring ''k'' = ''a''" and "Get (Add demo_ring [''c'']) ''k'' = ''c''"
    by code_simp+
  ultimately show ?thesis by simp
qed

text \<open>C25. Removing nodes moves only the keys they held: a key held by a remaining node stays there.  The condition is
  \<open>collision_free\<close>: no two different nodes of the ring share a position.  Without it the claim fails
  (\<open>Remove_collision_loses_node\<close>): removing a node takes a shared position from the other node as well.\<close>

theorem Remove_minimal_disruption:
  assumes "represents r N" and "collision_free (r_hash r) (replicas r) N"
    and "N \<noteq> {}" and "Get r key \<notin> set ns"
  shows "Get (Remove r ns) key = Get r key"
proof -
  note R = Remove_represents [OF assms(1,2), of ns]
  have own: "Get r key \<in> N - set ns"
    using Get_at [OF assms(1,3), of key] assms(4) by (auto simp: points_def)
  then have ne: "N - set ns \<noteq> {}" by blast
  have "Get r key = Get (Remove r ns) key"
    by (rule Get_stable [OF R(1) assms(1)]) (use R assms(2) own ne in auto)
  then show ?thesis by simp
qed

theorem Remove_minimal_disruption_witness:
  "Get demo_ring ''k'' = ''a'' \<and> Get (Remove demo_ring [''b'']) ''k'' = ''a''"
proof -
  have a: "Get demo_ring ''k'' = ''a''" by code_simp
  have free: "collision_free (r_hash demo_ring) (replicas demo_ring) {''a'', ''b''}"
    unfolding demo_fields by (rule collision_free_mono [OF demo_free]) auto
  from Remove_minimal_disruption [OF demo_represents free, of "''k''" "[''b'']"] a show ?thesis by simp
qed

lemma represents_collision_free: "represents r N \<Longrightarrow> collision_free (r_hash r) (replicas r) N"
  unfolding represents_def covers_def collision_free_def by (metis option.inject)

lemma GetN_returns:
  assumes rep: "represents r N" and ne: "N \<noteq> {}"
  shows "(n < 0 \<longrightarrow> GetN r key n = Panics) \<and>
    (0 \<le> n \<longrightarrow> (\<exists>res. GetN r key n = Returns res \<and> distinct res \<and> set res \<subseteq> N \<and>
       length res = min (nat n) (card N) \<and> (0 < n \<longrightarrow> hd res = Get r key)))"
proof -
  define idx where "idx = Search (length (ring_keys r)) (\<lambda>i. r_hash r key \<le> ring_keys r ! i)"
  define m where "m = min (nat n) (card N)"
  define res where "res = getN_loop r idx m 0 [] []"
  have fin: "finite N" using rep covers_finite by (auto simp: represents_def)
  then have card: "0 < card N" using ne by (simp add: card_gt_0_iff)
  have spec: "distinct res" "length res \<le> m" "set res \<subseteq> N" "length res = m \<or> set res = N"
    using getN_loop_spec [of "[]" "[]" r idx 0 m] node_at_range [OF rep ne, of idx]
    by (simp_all add: res_def map_get_def)
  then have len: "length res = m"
    using distinct_card [OF spec(1)] by (auto simp: m_def)
  have run: "GetN r key n = Returns res" if "0 \<le> n"
    using that represents_size [OF rep] card
    by (auto simp: GetN_def Let_def idx_def [symmetric] res_def m_def min_def nat_less_iff)
  have "hd res = Get r key" if "0 < n"
    unfolding res_def idx_def by (rule getN_first [OF rep ne]) (use that card in \<open>simp add: m_def\<close>)
  then show ?thesis
    using run spec len ne represents_size [OF rep] card by (auto simp: GetN_def Let_def m_def)
qed

text \<open>C26. \<^verbatim>\<open>GetN\<close> on a ring that holds the nodes \<open>N\<close>, no two of them with a common position (\<open>represents\<close>, which
  \<^verbatim>\<open>Add\<close> and \<^verbatim>\<open>Remove\<close> keep on such node sets).  On a ring with nodes it
  returns distinct nodes of the ring, as many as asked for or all of them if there are fewer, starting with the node \<^verbatim>\<open>Get\<close>
  returns, and a negative count makes it panic; on an empty ring it returns no nodes, whatever the count.\<close>

theorem GetN_spec:
  assumes "represents r N"
  shows "collision_free (r_hash r) (replicas r) N \<and>
    (if N = {} then GetN r key n = Returns []
     else if n < 0 then GetN r key n = Panics
     else \<exists>res. GetN r key n = Returns res \<and> distinct res \<and> set res \<subseteq> N \<and>
       length res = min (nat n) (card N) \<and> (0 < n \<longrightarrow> hd res = Get r key))"
proof -
  have "GetN r key n = Returns []" if "N = {}"
    using that represents_size [OF assms] by (simp add: GetN_def)
  then show ?thesis using GetN_returns [OF assms, of n key] represents_collision_free [OF assms] by auto
qed

theorem GetN_spec_witness:
  "\<exists>res. GetN demo_ring ''k'' 2 = Returns res \<and> distinct res \<and> length res = 2 \<and>
     hd res = Get demo_ring ''k''"
  using GetN_spec [OF demo_represents, of "''k''" 2] by auto

text \<open>When two nodes do share a position, removing one of them also takes the position of the
  other: with a hash that collides, a ring that still has node \<^verbatim>\<open>a\<close> answers every lookup with the
  empty string.\<close>

lemma Remove_collision_loses_node:
  "let r = Add (New sha 1 (Some clash_hash)) [''a'', ''b'']; r' = Remove r [''b'']
   in Nodes r' = [''a''] \<and> Size r' = 1 \<and> \<not> IsEmpty r' \<and> Get r key = ''b'' \<and> Get r' key = ''''"
proof -
  define r where "r = Add (New sha 1 (Some clash_hash)) [''a'', ''b'']"
  have r: "r = \<lparr>r_hash = clash_hash, replicas = 1, ring_keys = [7, 7], hashMap = [(7, ''b'')],
      ring_nodes = [(''a'', True), (''b'', True)]\<rparr>"
    by (simp add: r_def Add_def New_def add_one_def add_virtual_def clash_hash_def map_get_def Let_def)
  have r': "Remove r [''b''] = \<lparr>r_hash = clash_hash, replicas = 1, ring_keys = [], hashMap = [],
      ring_nodes = [(''a'', True)]\<rparr>"
    by (simp add: r Remove_def remove_one_def remove_virtual_def rebuildKeys_def clash_hash_def map_get_def)
  have "Get r key = ''b''"
    by (simp add: r Get_def clash_hash_def Search_def search_loop.simps Let_def)
  then show ?thesis
    by (simp add: r_def [symmetric] r' Let_def Nodes_def Size_def IsEmpty_def Get_def)
qed

end
