(* ===== verification/LoadBalancer.thy ===== *)
theory LoadBalancer
  imports Prelude
begin

text \<open>
  The load balancer of \<^verbatim>\<open>internal/pkg/nginx/loadbalance.go\<close>.  Backends are shared by pointer in the
  code; here a balancer holds them in a list and a pointer is an index into it.  The round-robin
  counter is a 64-bit word that wraps, the request counters are \<^verbatim>\<open>int64\<close>.  The locale
  \<open>backend_picker\<close> is the contract of a selection strategy; both strategies of the code satisfy it.
\<close>

section \<open>State and operations\<close>

record backend_server =
  be_ID :: string
  RequestCount :: int
  Available :: bool

record load_balancer =
  backends :: "backend_server list"
  strategy :: string
  current :: "64 word"

definition IncrementRequests :: "backend_server \<Rightarrow> backend_server" where
  "IncrementRequests s = s\<lparr>RequestCount := wrap64 (RequestCount s + 1)\<rparr>"

definition GetRequestCount :: "backend_server \<Rightarrow> int" where
  "GetRequestCount s = RequestCount s"

definition SetAvailable :: "backend_server \<Rightarrow> bool \<Rightarrow> backend_server" where
  "SetAvailable s a = s\<lparr>Available := a\<rparr>"

definition IsAvailable :: "backend_server \<Rightarrow> bool" where
  "IsAvailable s = Available s"

definition NewLoadBalancer :: "backend_server list \<Rightarrow> string \<Rightarrow> load_balancer" where
  "NewLoadBalancer bs strat = \<lparr>backends = bs, strategy = strat, current = 0\<rparr>"

fun least_loop :: "backend_server list \<Rightarrow> nat \<Rightarrow> nat option \<Rightarrow> int \<Rightarrow> nat option" where
  "least_loop [] i selected minCount = selected"
| "least_loop (b # bs) i selected minCount =
     (if \<not> IsAvailable b then least_loop bs (i + 1) selected minCount
      else if minCount = - 1 \<or> GetRequestCount b < minCount
           then least_loop bs (i + 1) (Some i) (GetRequestCount b)
           else least_loop bs (i + 1) selected minCount)"

definition least_connections :: "load_balancer \<Rightarrow> nat option \<times> load_balancer" where
  "least_connections lb = (least_loop (backends lb) 0 None (- 1), lb)"

function rr_loop :: "load_balancer \<Rightarrow> nat \<Rightarrow> nat option \<times> load_balancer" where
  "rr_loop lb attempts =
     (if attempts < length (backends lb) then
        let lb' = lb\<lparr>current := current lb + 1\<rparr>;
            idx = unat (current lb') mod length (backends lb)
        in if IsAvailable (backends lb ! idx) then (Some idx, lb')
           else rr_loop lb' (attempts + 1)
      else (None, lb))"
  by pat_completeness auto
termination
  by (relation "measure (\<lambda>(lb, attempts). length (backends lb) - attempts)") auto

declare rr_loop.simps [simp del]

definition round_robin :: "load_balancer \<Rightarrow> nat option \<times> load_balancer" where
  "round_robin lb = rr_loop lb 0"

definition GetNextBackend :: "load_balancer \<Rightarrow> nat option \<times> load_balancer" where
  "GetNextBackend lb =
     (if length (backends lb) = 0 then (None, lb)
      else if strategy lb = ''least_connections'' then least_connections lb
      else round_robin lb)"

text \<open>A request: the selected backend's counter is incremented.\<close>

definition serve :: "(load_balancer \<Rightarrow> nat option \<times> load_balancer) \<Rightarrow> load_balancer \<Rightarrow> load_balancer" where
  "serve pick lb =
     (case pick lb of
        (None, lb') \<Rightarrow> lb'
      | (Some i, lb') \<Rightarrow> lb'\<lparr>backends := (backends lb')[i := IncrementRequests (backends lb' ! i)]\<rparr>)"

section \<open>The contract of a selection strategy\<close>

definition some_available :: "load_balancer \<Rightarrow> bool" where
  "some_available lb \<longleftrightarrow> (\<exists>b \<in> set (backends lb). Available b)"

lemma sum_list_list_update:
  "i < length xs \<Longrightarrow> sum_list (xs[i := v]) = sum_list xs - xs ! i + (v :: int)"
  by (induction xs arbitrary: i) (auto split: nat.split)

locale backend_picker =
  fixes pick :: "load_balancer \<Rightarrow> nat option \<times> load_balancer"
    and ready :: "load_balancer \<Rightarrow> bool"
  assumes pick_sound:
      "ready lb \<Longrightarrow> fst (pick lb) = Some i \<Longrightarrow> i < length (backends lb) \<and> Available (backends lb ! i)"
    and pick_complete: "ready lb \<Longrightarrow> some_available lb \<Longrightarrow> fst (pick lb) \<noteq> None"
    and pick_frame: "backends (snd (pick lb)) = backends lb"
begin

lemma pick_None_iff: "ready lb \<Longrightarrow> fst (pick lb) = None \<longleftrightarrow> \<not> some_available lb"
  using pick_complete [of lb] pick_sound [of lb]
  by (cases "fst (pick lb)") (auto simp: some_available_def)

text \<open>A request raises the sum of all counters by one if a backend is available, and changes no
  backend otherwise.\<close>

lemma serve_counts:
  assumes "ready lb" and "\<And>b. b \<in> set (backends lb) \<Longrightarrow> 0 \<le> RequestCount b \<and> RequestCount b < 2 ^ 63 - 1"
  shows "sum_list (map RequestCount (backends (serve pick lb))) =
    sum_list (map RequestCount (backends lb)) + (if some_available lb then 1 else 0)"
proof (cases "fst (pick lb)")
  case None
  then have "backends (serve pick lb) = backends lb"
    using pick_frame [of lb] by (cases "pick lb") (simp add: serve_def)
  with None pick_None_iff [OF assms(1)] show ?thesis by simp
next
  case (Some i)
  have i: "i < length (backends lb)" using pick_sound [OF assms(1) Some] by simp
  have "0 \<le> RequestCount (backends lb ! i) \<and> RequestCount (backends lb ! i) < 2 ^ 63 - 1"
    using assms(2) i nth_mem by blast
  then have "wrap64 (RequestCount (backends lb ! i) + 1) = RequestCount (backends lb ! i) + 1"
    by (intro wrap64_id) auto
  moreover have "backends (serve pick lb) =
      (backends lb)[i := IncrementRequests (backends lb ! i)]"
    using Some pick_frame [of lb] by (cases "pick lb") (simp add: serve_def)
  ultimately show ?thesis
    using Some i pick_None_iff [OF assms(1)]
    by (simp add: map_update sum_list_list_update IncrementRequests_def)
qed

end

section \<open>Round robin\<close>

text \<open>The counter does not wrap within one round, or wraps without breaking the cycle.\<close>

definition rr_ready :: "load_balancer \<Rightarrow> bool" where
  "rr_ready lb \<longleftrightarrow> unat (current lb) + length (backends lb) < 2 ^ 64 \<or> length (backends lb) dvd 2 ^ 64"

lemma unat_add_word64: "unat (c + of_nat k :: 64 word) = (unat c + k) mod 2 ^ 64"
  by (simp add: unat_word_ariths unat_of_nat mod_simps)

lemma rr_loop_spec:
  assumes "attempts \<le> length (backends lb)"
  shows "backends (snd (rr_loop lb attempts)) = backends lb \<and>
    strategy (snd (rr_loop lb attempts)) = strategy lb \<and>
    (case fst (rr_loop lb attempts) of
       None \<Rightarrow> (\<forall>k \<in> {1..length (backends lb) - attempts}.
         \<not> Available (backends lb ! (unat (current lb + of_nat k) mod length (backends lb))))
     | Some i \<Rightarrow> i < length (backends lb) \<and> Available (backends lb ! i))"
  using assms
proof (induction lb attempts rule: rr_loop.induct)
  case (1 lb attempts)
  define lb' where "lb' = lb\<lparr>current := current lb + 1\<rparr>"
  define idx where "idx = unat (current lb') mod length (backends lb)"
  show ?case
  proof (cases "attempts < length (backends lb)")
    case False
    then show ?thesis by (simp add: rr_loop.simps [of lb attempts])
  next
    case True
    show ?thesis
    proof (cases "IsAvailable (backends lb ! idx)")
      case av: True
      then have "rr_loop lb attempts = (Some idx, lb')"
        using True by (simp add: rr_loop.simps [of lb attempts] lb'_def idx_def Let_def)
      moreover have "idx < length (backends lb)" unfolding idx_def
        using True by (intro mod_less_divisor) linarith
      ultimately show ?thesis using av by (simp add: lb'_def IsAvailable_def)
    next
      case na: False
      have step: "rr_loop lb attempts = rr_loop lb' (attempts + 1)"
        using True na by (simp add: rr_loop.simps [of lb attempts] lb'_def idx_def Let_def)
      have IH: "backends (snd (rr_loop lb' (attempts + 1))) = backends lb' \<and>
          strategy (snd (rr_loop lb' (attempts + 1))) = strategy lb' \<and>
          (case fst (rr_loop lb' (attempts + 1)) of
             None \<Rightarrow> (\<forall>k \<in> {1..length (backends lb') - (attempts + 1)}.
               \<not> Available (backends lb' ! (unat (current lb' + of_nat k) mod length (backends lb'))))
           | Some i \<Rightarrow> i < length (backends lb') \<and> Available (backends lb' ! i))"
        using "1.IH" [OF True lb'_def idx_def na] True by (simp add: lb'_def)
      have tail: "\<not> Available (backends lb ! (unat (current lb + of_nat k) mod length (backends lb)))"
        if "\<forall>k \<in> {1..length (backends lb') - (attempts + 1)}.
              \<not> Available (backends lb' ! (unat (current lb' + of_nat k) mod length (backends lb')))"
          and "k \<in> {1..length (backends lb) - attempts}" for k
      proof (cases "k = 1")
        case True
        then show ?thesis using na by (simp add: idx_def lb'_def IsAvailable_def)
      next
        case False
        then have "k - 1 \<in> {1..length (backends lb') - (attempts + 1)}" using that(2) by (auto simp: lb'_def)
        with that(1) have "\<not> Available (backends lb' !
            (unat (current lb' + of_nat (k - 1)) mod length (backends lb')))" by blast
        moreover have "current lb' + of_nat (k - 1) = current lb + of_nat k"
          using that(2) by (simp add: lb'_def of_nat_diff)
        ultimately show ?thesis by (simp only:) (simp add: lb'_def)
      qed
      show ?thesis
        using IH tail unfolding step by (auto simp: lb'_def split: option.splits)
    qed
  qed
qed

text \<open>The counters \<open>c + 1, \<dots>, c + n\<close> visit every index, unless the 64-bit counter wraps in
  between and \<open>n\<close> does not divide \<open>2 ^ 64\<close>.\<close>

lemma mod_window_surj:
  assumes "i < (n :: nat)"
  shows "\<exists>k \<in> {1..n}. (c + k) mod n = i"
proof -
  define k where "k = 1 + (i + n - (c + 1) mod n) mod n"
  have n: "0 < n" and lt: "(c + 1) mod n < n" using assms by auto
  have "(c + k) mod n = ((c + 1) mod n + (i + n - (c + 1) mod n)) mod n"
    unfolding k_def add.assoc [symmetric] by (simp only: mod_add_left_eq mod_add_right_eq)
  also have "\<dots> = (i + n) mod n" using lt by simp
  also have "\<dots> = i" using assms by simp
  finally have "(c + k) mod n = i" .
  moreover have "k \<in> {1..n}" using mod_less_divisor [OF n, of "i + n - (c + 1) mod n"]
    by (simp add: k_def)
  ultimately show ?thesis by blast
qed

lemma rr_window_surj:
  assumes "rr_ready lb" and "i < length (backends lb)"
  shows "\<exists>k \<in> {1..length (backends lb)}.
    unat (current lb + of_nat k) mod length (backends lb) = i"
proof -
  obtain k where k: "k \<in> {1..length (backends lb)}"
      and eq: "(unat (current lb) + k) mod length (backends lb) = i"
    using mod_window_surj [OF assms(2)] by blast
  have "unat (current lb + of_nat k) mod length (backends lb) =
      (unat (current lb) + k) mod length (backends lb)"
    using assms(1) k unfolding rr_ready_def unat_add_word64
    by (auto simp: mod_mod_cancel)
  with k eq show ?thesis by blast
qed

interpretation rr: backend_picker round_robin rr_ready
proof unfold_locales
  fix lb i
  show "backends (snd (round_robin lb)) = backends lb"
    using rr_loop_spec [of 0 lb] by (simp add: round_robin_def)
  show "i < length (backends lb) \<and> Available (backends lb ! i)"
    if "rr_ready lb" and "fst (round_robin lb) = Some i"
    using rr_loop_spec [of 0 lb] that(2) by (simp add: round_robin_def)
  show "fst (round_robin lb) \<noteq> None" if ready: "rr_ready lb" and avail: "some_available lb"
  proof
    assume None: "fst (round_robin lb) = None"
    obtain i where i: "i < length (backends lb)" "Available (backends lb ! i)"
      using avail by (auto simp: some_available_def in_set_conv_nth)
    with rr_window_surj [OF ready] obtain k where "k \<in> {1..length (backends lb)}"
      "unat (current lb + of_nat k) mod length (backends lb) = i" by blast
    with None i(2) rr_loop_spec [of 0 lb] show False by (auto simp: round_robin_def)
  qed
qed

text \<open>With every backend available one step of the counter is one pick.\<close>

lemma round_robin_all_available:
  assumes "\<And>b. b \<in> set (backends lb) \<Longrightarrow> Available b" and "backends lb \<noteq> []"
  shows "round_robin lb = (Some (unat (current lb + 1) mod length (backends lb)),
    lb\<lparr>current := current lb + 1\<rparr>)"
proof -
  have "unat (current lb + 1) mod length (backends lb) < length (backends lb)"
    using assms(2) by simp
  then have "Available (backends lb ! (unat (current lb + 1) mod length (backends lb)))"
    using assms(1) nth_mem by blast
  then show ?thesis
    using assms(2) by (simp add: round_robin_def rr_loop.simps [of lb 0] IsAvailable_def Let_def)
qed

section \<open>Least connections\<close>

definition lc_ready :: "load_balancer \<Rightarrow> bool" where
  "lc_ready lb \<longleftrightarrow> (\<forall>b \<in> set (backends lb). 0 \<le> RequestCount b)"

text \<open>The scan of the loop: \<open>m\<close> is \<open>-1\<close> before the first candidate and then the least count, with
  \<open>sel\<close> the first candidate that has it.\<close>

definition is_least :: "backend_server list \<Rightarrow> nat \<Rightarrow> bool" where
  "is_least bs i \<longleftrightarrow> i < length bs \<and> Available (bs ! i) \<and>
     (\<forall>j < length bs. Available (bs ! j) \<longrightarrow>
        RequestCount (bs ! i) \<le> RequestCount (bs ! j) \<and>
        (j < i \<longrightarrow> RequestCount (bs ! i) < RequestCount (bs ! j)))"

definition scan_state :: "backend_server list \<Rightarrow> nat option \<Rightarrow> int \<Rightarrow> bool" where
  "scan_state bs sel m \<longleftrightarrow>
     (case sel of
        None \<Rightarrow> m = - 1 \<and> (\<forall>b \<in> set bs. \<not> Available b)
      | Some i \<Rightarrow> is_least bs i \<and> m = RequestCount (bs ! i))"

lemma is_least_snoc_old:
  assumes "is_least bs i" and "Available b \<Longrightarrow> RequestCount (bs ! i) \<le> RequestCount b"
  shows "is_least (bs @ [b]) i"
  using assms by (auto simp: is_least_def nth_append less_Suc_eq)

lemma is_least_snoc_new:
  assumes "Available b"
    and "\<And>j. j < length bs \<Longrightarrow> Available (bs ! j) \<Longrightarrow> RequestCount b < RequestCount (bs ! j)"
  shows "is_least (bs @ [b]) (length bs)"
  using assms by (auto simp: is_least_def nth_append less_Suc_eq less_imp_le)

lemma least_loop_scan:
  assumes "scan_state done sel m" and "\<And>b. b \<in> set (done @ bs) \<Longrightarrow> 0 \<le> RequestCount b"
  shows "\<exists>m'. scan_state (done @ bs) (least_loop bs (length done) sel m) m'"
  using assms
proof (induction bs arbitrary: "done" sel m)
  case Nil
  then show ?case by auto
next
  case (Cons b bs)
  let ?take = "Available b \<and> (m = - 1 \<or> RequestCount b < m)"
  have "scan_state (done @ [b]) (if ?take then Some (length done) else sel)
      (if ?take then RequestCount b else m)"
  proof (cases sel)
    case None
    then show ?thesis using Cons.prems(1) is_least_snoc_new [of b "done"]
      by (auto simp: scan_state_def nth_append)
  next
    case (Some i)
    then have least: "is_least done i" and m: "m = RequestCount (done ! i)"
      using Cons.prems(1) by (auto simp: scan_state_def)
    have i: "i < length done" using least by (simp add: is_least_def)
    then have "m \<noteq> - 1" using Cons.prems(2) [of "done ! i"] m by auto
    show ?thesis
    proof (cases ?take)
      case True
      have "RequestCount b < RequestCount (done ! j)" if "j < length done" "Available (done ! j)" for j
        using least that True m \<open>m \<noteq> - 1\<close> unfolding is_least_def by force
      with True have "is_least (done @ [b]) (length done)" by (intro is_least_snoc_new) auto
      with True show ?thesis by (simp add: scan_state_def)
    next
      case False
      with m \<open>m \<noteq> - 1\<close> have "is_least (done @ [b]) i" by (intro is_least_snoc_old [OF least]) auto
      with False Some m i show ?thesis by (auto simp: scan_state_def nth_append)
    qed
  qed
  from Cons.IH [OF this] Cons.prems(2) show ?case
    by (auto simp: IsAvailable_def GetRequestCount_def split: if_splits)
qed

lemma least_connections_spec:
  assumes "lc_ready lb"
  shows "case fst (least_connections lb) of
      None \<Rightarrow> \<not> some_available lb
    | Some i \<Rightarrow> is_least (backends lb) i"
  using least_loop_scan [of "[]" None "- 1" "backends lb"] assms
  by (auto simp: least_connections_def scan_state_def lc_ready_def some_available_def
      split: option.splits)

interpretation lc: backend_picker least_connections lc_ready
proof unfold_locales
  fix lb i
  assume ready: "lc_ready lb"
  show "i < length (backends lb) \<and> Available (backends lb ! i)"
    if "fst (least_connections lb) = Some i"
    using least_connections_spec [OF ready] that by (simp add: is_least_def)
  show "fst (least_connections lb) \<noteq> None" if "some_available lb"
    using least_connections_spec [OF ready] that by (cases "fst (least_connections lb)") auto
next
  fix lb show "backends (snd (least_connections lb)) = backends lb"
    by (simp add: least_connections_def)
qed

section \<open>Sequences of requests\<close>

text \<open>\<open>picks pick k lb\<close>: the answers of \<open>k\<close> successive selections.\<close>

fun picks :: "(load_balancer \<Rightarrow> nat option \<times> load_balancer) \<Rightarrow> nat \<Rightarrow> load_balancer \<Rightarrow> nat option list" where
  "picks pick 0 lb = []"
| "picks pick (Suc k) lb = fst (pick lb) # picks pick k (snd (pick lb))"

lemma picks_append: "picks pick (j + k) lb =
    picks pick j lb @ picks pick k (((snd \<circ> pick) ^^ j) lb)"
  by (induction j arbitrary: lb) (simp_all add: funpow_swap1)

lemma GetNextBackend_round_robin:
  assumes "strategy lb \<noteq> ''least_connections''" and "backends lb \<noteq> []"
    and "\<And>b. b \<in> set (backends lb) \<Longrightarrow> Available b"
  shows "GetNextBackend lb = (Some (unat (current lb + 1) mod length (backends lb)),
    lb\<lparr>current := current lb + 1\<rparr>)"
  using round_robin_all_available assms by (simp add: GetNextBackend_def)

lemma picks_round_robin:
  assumes "strategy lb \<noteq> ''least_connections''" and "backends lb \<noteq> []"
    and "\<And>b. b \<in> set (backends lb) \<Longrightarrow> Available b" and "unat (current lb) + k < 2 ^ 64"
  shows "picks GetNextBackend k lb =
      map (\<lambda>j. Some (j mod length (backends lb))) [Suc (unat (current lb))..<Suc (unat (current lb) + k)]"
  using assms
proof (induction k arbitrary: lb)
  case (Suc k)
  have next_current: "unat (current lb + 1) = Suc (unat (current lb))"
    using unat_add_word64 [of "current lb" 1] Suc.prems(4) by simp
  have "picks GetNextBackend (Suc k) lb = Some (Suc (unat (current lb)) mod length (backends lb)) #
      picks GetNextBackend k (lb\<lparr>current := current lb + 1\<rparr>)"
    using GetNextBackend_round_robin [OF Suc.prems(1-3)] next_current by simp
  also have "picks GetNextBackend k (lb\<lparr>current := current lb + 1\<rparr>) =
      map (\<lambda>j. Some (j mod length (backends lb)))
        [Suc (Suc (unat (current lb)))..<Suc (Suc (unat (current lb)) + k)]"
    using Suc.IH [of "lb\<lparr>current := current lb + 1\<rparr>"] Suc.prems next_current by simp
  finally show ?case
    using upt_conv_Cons [of "Suc (unat (current lb))" "Suc (unat (current lb) + Suc k)"]
    by (simp del: upt_Suc)
qed simp

lemma count_list_upt: "count_list [0..<n] i = (if i < n then 1 else 0)"
  by (induction n) auto

lemma count_list_mod_round:
  assumes "i < (n :: nat)"
  shows "count_list (map (\<lambda>j. Some (j mod n)) [c..<c + n]) (Some i) = 1"
proof (induction c)
  case 0
  have "map (\<lambda>j. Some (j mod n)) [0..<n] = map Some [0..<n]" by simp
  moreover have "count_list (map Some [0..<n]) (Some i) = 1"
    using assms by (simp add: count_list_map_conv count_list_upt)
  ultimately show ?case by (simp only: add_0)
next
  case (Suc c)
  have "[c..<c + n] = c # [Suc c..<c + n]" using assms by (simp add: upt_conv_Cons)
  with Suc show ?case using assms by (auto split: if_splits)
qed

lemma count_list_mod_rounds:
  assumes "i < (n :: nat)"
  shows "count_list (map (\<lambda>j. Some (j mod n)) [c..<c + r * n]) (Some i) = r"
proof (induction r)
  case (Suc r)
  have "[c..<c + Suc r * n] = [c..<c + r * n] @ [c + r * n..<c + r * n + n]"
    using upt_add_eq_append [of c "c + r * n" n] by (simp add: algebra_simps)
  with Suc count_list_mod_round [OF assms, of "c + r * n"] show ?case by simp
qed simp

text \<open>Least connections keeps the counters of available backends within one of each other.\<close>

definition balanced :: "load_balancer \<Rightarrow> bool" where
  "balanced lb \<longleftrightarrow> (\<forall>b \<in> set (backends lb). \<forall>b' \<in> set (backends lb).
     Available b \<longrightarrow> Available b' \<longrightarrow> RequestCount b \<le> RequestCount b' + 1)"

definition counts_below :: "int \<Rightarrow> load_balancer \<Rightarrow> bool" where
  "counts_below c lb \<longleftrightarrow> (\<forall>b \<in> set (backends lb). 0 \<le> RequestCount b \<and> RequestCount b < c)"

lemma serve_least_cases:
  assumes "lc_ready lb"
  shows "serve least_connections lb = lb \<or>
    (\<exists>i. is_least (backends lb) i \<and>
      serve least_connections lb =
        lb\<lparr>backends := (backends lb)[i := IncrementRequests (backends lb ! i)]\<rparr>)"
  using least_connections_spec [OF assms]
  by (auto simp: serve_def least_connections_def split: option.splits)

text \<open>Counting a request at a least loaded backend.\<close>

lemma increment_least_balanced:
  assumes "counts_below c lb" and "c < 2 ^ 63" and "balanced lb" and least: "is_least (backends lb) i"
    and lb': "lb' = lb\<lparr>backends := (backends lb)[i := IncrementRequests (backends lb ! i)]\<rparr>"
  shows "balanced lb'" and "counts_below (c + 1) lb'"
proof -
  define bi where "bi = backends lb ! i"
  have i: "bi \<in> set (backends lb)" using least by (simp add: is_least_def bi_def)
  have count: "RequestCount (IncrementRequests bi) = RequestCount bi + 1"
    using i assms(1,2) by (auto simp: IncrementRequests_def counts_below_def intro!: wrap64_id)
  have av: "Available (IncrementRequests bi) = Available bi" by (simp add: IncrementRequests_def)
  have sub: "set (backends lb') \<subseteq> insert (IncrementRequests bi) (set (backends lb))"
    using set_update_subset_insert lb' by (simp add: bi_def)
  have min: "RequestCount bi \<le> RequestCount b" if "b \<in> set (backends lb)" "Available b" for b
    using least that by (auto simp: is_least_def bi_def in_set_conv_nth)
  have le: "RequestCount x \<le> RequestCount y + 1"
    if "x \<in> set (backends lb)" "y \<in> set (backends lb)" "Available x" "Available y" for x y
    using assms(3) that by (simp add: balanced_def)
  have "RequestCount b \<le> RequestCount b' + 1"
    if mem: "b \<in> set (backends lb')" "b' \<in> set (backends lb')" and avs: "Available b" "Available b'" for b b'
  proof -
    consider "b \<in> set (backends lb)" "b' \<in> set (backends lb)" | "b = IncrementRequests bi" "b' \<in> set (backends lb)"
      | "b \<in> set (backends lb)" "b' = IncrementRequests bi" | "b = b'"
      using mem sub by blast
    then show ?thesis
      by cases (use le [of b b'] le [of b bi] min [of b'] avs av i count in auto)
  qed
  then show "balanced lb'" by (simp add: balanced_def)
  show "counts_below (c + 1) lb'" unfolding counts_below_def
    using subsetD [OF sub] assms(1) i count by (force simp: counts_below_def)
qed

lemma serve_least_balanced:
  assumes "counts_below c lb" and "c < 2 ^ 63" and "balanced lb"
  shows "balanced (serve least_connections lb) \<and> counts_below (c + 1) (serve least_connections lb) \<and>
    strategy (serve least_connections lb) = strategy lb"
proof -
  have ready: "lc_ready lb" using assms(1) by (simp add: counts_below_def lc_ready_def)
  have "counts_below (c + 1) lb" using assms(1) by (force simp: counts_below_def)
  then show ?thesis using serve_least_cases [OF ready] increment_least_balanced [OF assms] assms(3) by auto
qed

lemma serve_GetNextBackend_least:
  "strategy lb = ''least_connections'' \<Longrightarrow> serve GetNextBackend lb = serve least_connections lb"
  by (simp add: serve_def GetNextBackend_def least_connections_def)

lemma serves_balanced:
  assumes "strategy lb = ''least_connections''" and "counts_below c lb" and "c + int k \<le> 2 ^ 63"
    and "balanced lb"
  shows "balanced ((serve GetNextBackend ^^ k) lb)"
  using assms
proof (induction k arbitrary: lb c)
  case (Suc k)
  have "serve GetNextBackend lb = serve least_connections lb"
    using Suc.prems(1) by (rule serve_GetNextBackend_least)
  with serve_least_balanced [of c lb] Suc.IH [of "serve GetNextBackend lb" "c + 1"] Suc.prems
  show ?case by (simp add: funpow_swap1)
qed simp

section \<open>Properties\<close>

text \<open>\<^verbatim>\<open>GetNextBackend\<close> answers with an available backend, and with \<^verbatim>\<open>nil\<close> exactly when none is
  available: with the least-connections strategy whenever the counters are not negative, with
  round robin as long as the 64-bit counter does not wrap within one round (or the number of
  backends divides \<open>2 ^ 64\<close>).  The backends themselves are not changed by the choice.\<close>

theorem GetNextBackend_available:
  assumes "if strategy lb = ''least_connections'' then lc_ready lb else rr_ready lb"
  shows "(case fst (GetNextBackend lb) of
      None \<Rightarrow> \<forall>i < length (backends lb). \<not> Available (backends lb ! i)
    | Some i \<Rightarrow> i < length (backends lb) \<and> Available (backends lb ! i)) \<and>
    backends (snd (GetNextBackend lb)) = backends lb"
proof (cases "strategy lb = ''least_connections''")
  case True
  with assms have "lc_ready lb" by simp
  with True lc.pick_sound [of lb] lc.pick_None_iff [of lb] lc.pick_frame [of lb] show ?thesis
    by (auto simp: GetNextBackend_def some_available_def split: option.splits)
next
  case False
  with assms have "rr_ready lb" by simp
  with False rr.pick_sound [of lb] rr.pick_None_iff [of lb] rr.pick_frame [of lb] show ?thesis
    by (auto simp: GetNextBackend_def some_available_def split: option.splits)
qed

text \<open>C27. Round robin is fair: while every backend is available and the counter does not wrap,
  \<open>r * n\<close> successive calls of \<^verbatim>\<open>GetNextBackend\<close> on \<open>n\<close> backends pick every backend exactly \<open>r\<close> times.\<close>

theorem GetNextBackend_fair:
  assumes "strategy lb \<noteq> ''least_connections''" and "\<And>b. b \<in> set (backends lb) \<Longrightarrow> Available b"
    and "unat (current lb) + r * length (backends lb) < 2 ^ 64" and "i < length (backends lb)"
  shows "count_list (picks GetNextBackend (r * length (backends lb)) lb) (Some i) = r"
proof -
  have "backends lb \<noteq> []" using assms(4) by auto
  from picks_round_robin [OF assms(1) this assms(2,3)]
    count_list_mod_rounds [OF assms(4), of "Suc (unat (current lb))" r]
  show ?thesis by simp
qed

text \<open>With the least-connections strategy, if every request is counted by
  \<^verbatim>\<open>IncrementRequests\<close> and the counters start within one of each other, they stay so after any number
  of requests that the 64-bit counters can hold.\<close>

theorem GetNextBackend_least_balanced:
  assumes "strategy lb = ''least_connections''" and "counts_below c lb" and "c + int k \<le> 2 ^ 63"
    and "balanced lb"
  shows "balanced ((serve GetNextBackend ^^ k) lb)"
  using assms by (rule serves_balanced)

definition demo_backends :: "bool list \<Rightarrow> backend_server list" where
  "demo_backends avs = map (\<lambda>a. \<lparr>be_ID = ''gw'', RequestCount = 0, Available = a\<rparr>) avs"

theorem GetNextBackend_available_witness:
  "fst (GetNextBackend (NewLoadBalancer (demo_backends [False, True]) ''round_robin'')) = Some 1 \<and>
   rr_ready (NewLoadBalancer (demo_backends [False, True]) ''round_robin'')"
proof -
  let ?lb = "NewLoadBalancer (demo_backends [False, True]) ''round_robin''"
  have "rr_ready ?lb" by (simp add: rr_ready_def NewLoadBalancer_def demo_backends_def)
  with GetNextBackend_available [of ?lb] show ?thesis
    by (auto simp: NewLoadBalancer_def demo_backends_def less_Suc_eq nth_Cons split: option.splits nat.splits)
qed

theorem GetNextBackend_fair_witness:
  "count_list (picks GetNextBackend 6 (NewLoadBalancer (demo_backends [True, True, True]) ''round_robin'')) (Some 2) = 2"
  using GetNextBackend_fair [of "NewLoadBalancer (demo_backends [True, True, True]) ''round_robin''" 2 2]
  by (simp add: NewLoadBalancer_def demo_backends_def del: picks.simps)

theorem GetNextBackend_least_balanced_witness:
  "balanced ((serve GetNextBackend ^^ 5) (NewLoadBalancer (demo_backends [True, False, True]) ''least_connections''))"
  using GetNextBackend_least_balanced
    [of "NewLoadBalancer (demo_backends [True, False, True]) ''least_connections''" 1 5]
  by (simp add: NewLoadBalancer_def demo_backends_def counts_below_def balanced_def)

text \<open>When the round-robin counter wraps inside a round and the number of backends does not divide
  \<open>2 ^ 64\<close>, the search visits an index twice and can miss the only available backend: with three
  backends of which only the third is available and the counter at \<open>2 ^ 64 - 2\<close>, the answer
  is \<^verbatim>\<open>nil\<close>.\<close>

lemma GetNextBackend_counter_wrap:
  "let lb = (NewLoadBalancer (demo_backends [False, False, True]) ''round_robin'')\<lparr>current := - 2\<rparr>
   in fst (GetNextBackend lb) = None \<and> Available (backends lb ! 2)"
  by (simp add: NewLoadBalancer_def demo_backends_def GetNextBackend_def round_robin_def
      rr_loop.simps IsAvailable_def Let_def unsigned_minus_1_eq_mask mask_eq_exp_minus_1)

end
