(* ===== verification/Redis.thy ===== *)
theory Redis
  imports Prelude
begin

text \<open>
  The Redis client of \<^verbatim>\<open>internal/pkg/redis/client.go\<close>.  The server and the go-redis driver are not
  part of the repository: they are a parameter \<open>exec\<close> that runs a pipeline of commands at a time of
  the server's clock.  What Redis documents about the commands the program uses is the reference
  server \<open>redis_step\<close>; the locale \<open>redis_server\<close> says that a driver which reports success has had
  the effect and the replies of the reference server, and that after an error some prefix of the
  pipeline may have been executed.  Times and durations are nanoseconds.
\<close>

section \<open>The commands the program sends\<close>

datatype redis_cmd =
    PING
  | INCR string
  | INCRBY string int
  | EXPIRE string int
  | SET string string int
  | GET string
  | DEL "string list"
  | EXISTS "string list"
  | PUBLISH string string
  | SUBSCRIBE "string list"
  | PSUBSCRIBE "string list"

text \<open>\<open>Unread\<close> stands for the reply of a command whose reply the program never looks at.\<close>

datatype redis_reply = Unread | IntReply int | BulkReply string

type_synonym 's redis = "int \<Rightarrow> redis_cmd list \<Rightarrow> 's \<Rightarrow> redis_reply list result \<times> 's"

definition redis_Nil :: go_error where
  "redis_Nil = Err ''redis: nil''"

text \<open>The typed accessors of a command's reply, with the zero value of their type otherwise.\<close>

fun int_reply :: "redis_reply list \<Rightarrow> int" where
  "int_reply (IntReply i # _) = i"
| "int_reply _ = 0"

fun bulk_reply :: "redis_reply list \<Rightarrow> string" where
  "bulk_reply (BulkReply v # _) = v"
| "bulk_reply _ = []"

text \<open>Commands that only report an error.\<close>

definition run_cmd :: "'s redis \<Rightarrow> int \<Rightarrow> redis_cmd \<Rightarrow> (go_error \<Rightarrow> go_error) \<Rightarrow> 's \<Rightarrow> go_error option \<times> 's" where
  "run_cmd exec t cmd wrap s =
     (case exec t [cmd] s of (Inl e, s') \<Rightarrow> (Some (wrap e), s') | (Inr rs, s') \<Rightarrow> (None, s'))"

section \<open>The client\<close>

definition seq_key :: "string \<Rightarrow> string" where
  "seq_key guildID = ''guild:'' @ guildID @ '':seq_id''"

definition online_key :: "string \<Rightarrow> string" where
  "online_key userID = ''user:'' @ userID @ '':online''"

definition NewClient :: "'s redis \<Rightarrow> int \<Rightarrow> 's \<Rightarrow> go_error option \<times> 's" where
  "NewClient exec t = run_cmd exec t PING (Wrap ''failed to connect to redis'')"

definition Ping :: "'s redis \<Rightarrow> int \<Rightarrow> 's \<Rightarrow> go_error option \<times> 's" where
  "Ping exec t = run_cmd exec t PING (\<lambda>e. e)"

definition GenerateSeqID :: "'s redis \<Rightarrow> int \<Rightarrow> string \<Rightarrow> 's \<Rightarrow> int result \<times> 's" where
  "GenerateSeqID exec t guildID s =
     (case exec t [INCR (seq_key guildID)] s of
        (Inl e, s') \<Rightarrow> (Inl (Wrap (''failed to generate seq id for guild '' @ guildID) e), s')
      | (Inr rs, s') \<Rightarrow> (Inr (int_reply rs), s'))"

definition SetUserOnline :: "'s redis \<Rightarrow> int \<Rightarrow> string \<Rightarrow> string \<Rightarrow> int \<Rightarrow> 's \<Rightarrow> go_error option \<times> 's" where
  "SetUserOnline exec t userID gatewayID ttl =
     run_cmd exec t (SET (online_key userID) gatewayID ttl)
       (Wrap (''failed to set user '' @ userID @ '' online''))"

definition IsUserOnline :: "'s redis \<Rightarrow> int \<Rightarrow> string \<Rightarrow> 's \<Rightarrow> bool result \<times> 's" where
  "IsUserOnline exec t userID s =
     (case exec t [EXISTS [online_key userID]] s of
        (Inl e, s') \<Rightarrow> (Inl (Wrap (''failed to check if user '' @ userID @ '' is online'') e), s')
      | (Inr rs, s') \<Rightarrow> (Inr (0 < int_reply rs), s'))"

definition GetUserOnlineStatus :: "'s redis \<Rightarrow> int \<Rightarrow> string \<Rightarrow> 's \<Rightarrow> string result \<times> 's" where
  "GetUserOnlineStatus exec t userID s =
     (case exec t [GET (online_key userID)] s of
        (Inl e, s') \<Rightarrow> (Inl e, s')
      | (Inr rs, s') \<Rightarrow> (Inr (bulk_reply rs), s'))"

definition RemoveUserOnline :: "'s redis \<Rightarrow> int \<Rightarrow> string \<Rightarrow> 's \<Rightarrow> go_error option \<times> 's" where
  "RemoveUserOnline exec t userID =
     run_cmd exec t (DEL [online_key userID])
       (Wrap (''failed to remove user '' @ userID @ '' online status''))"

definition Publish :: "'s redis \<Rightarrow> int \<Rightarrow> string \<Rightarrow> string \<Rightarrow> 's \<Rightarrow> go_error option \<times> 's" where
  "Publish exec t channel message =
     run_cmd exec t (PUBLISH channel message) (Wrap (''failed to publish to channel '' @ channel))"

definition Subscribe :: "'s redis \<Rightarrow> int \<Rightarrow> string list \<Rightarrow> 's \<Rightarrow> go_error option \<times> 's" where
  "Subscribe exec t channels =
     run_cmd exec t (SUBSCRIBE channels) (Wrap ''failed to subscribe to channels'')"

definition PSubscribe :: "'s redis \<Rightarrow> int \<Rightarrow> string list \<Rightarrow> 's \<Rightarrow> go_error option \<times> 's" where
  "PSubscribe exec t patterns =
     run_cmd exec t (PSUBSCRIBE patterns) (Wrap ''failed to psubscribe to patterns'')"

definition Set :: "'s redis \<Rightarrow> int \<Rightarrow> string \<Rightarrow> string \<Rightarrow> int \<Rightarrow> 's \<Rightarrow> go_error option \<times> 's" where
  "Set exec t key v expiration = run_cmd exec t (SET key v expiration) (\<lambda>e. e)"

definition client_Get :: "'s redis \<Rightarrow> int \<Rightarrow> string \<Rightarrow> 's \<Rightarrow> string result \<times> 's" where
  "client_Get exec t key s =
     (case exec t [GET key] s of (Inl e, s') \<Rightarrow> (Inl e, s') | (Inr rs, s') \<Rightarrow> (Inr (bulk_reply rs), s'))"

definition Del :: "'s redis \<Rightarrow> int \<Rightarrow> string list \<Rightarrow> 's \<Rightarrow> go_error option \<times> 's" where
  "Del exec t ks = run_cmd exec t (DEL ks) (\<lambda>e. e)"

definition Exists :: "'s redis \<Rightarrow> int \<Rightarrow> string list \<Rightarrow> 's \<Rightarrow> int result \<times> 's" where
  "Exists exec t ks s =
     (case exec t [EXISTS ks] s of (Inl e, s') \<Rightarrow> (Inl e, s') | (Inr rs, s') \<Rightarrow> (Inr (int_reply rs), s'))"

section \<open>The documented behaviour of the server\<close>

record rstate =
  entries :: "string \<Rightarrow> (string \<times> int option) option"
  messages :: "(string \<times> string) list"
  subscriptions :: "string list"

definition empty_redis :: rstate where
  "empty_redis = \<lparr>entries = (\<lambda>_. None), messages = [], subscriptions = []\<rparr>"

text \<open>The value of a key at a time: an entry past its expiry is gone.\<close>

definition live :: "int \<Rightarrow> rstate \<Rightarrow> string \<Rightarrow> (string \<times> int option) option" where
  "live t r k =
     (case entries r k of
        None \<Rightarrow> None
      | Some (v, None) \<Rightarrow> Some (v, None)
      | Some (v, Some e) \<Rightarrow> if t < e then Some (v, Some e) else None)"

definition put_entry :: "string \<Rightarrow> (string \<times> int option) option \<Rightarrow> rstate \<Rightarrow> rstate" where
  "put_entry k e r = r\<lparr>entries := (entries r)(k := e)\<rparr>"

text \<open>\<^verbatim>\<open>EXPIRE\<close> takes whole seconds and \<^verbatim>\<open>SET PX\<close> whole milliseconds; the driver rounds a duration
  down, but a positive one never to zero.\<close>

definition ttl_seconds :: "int \<Rightarrow> int" where
  "ttl_seconds d = (if 0 < d \<and> d < 10 ^ 9 then 10 ^ 9 else d div 10 ^ 9 * 10 ^ 9)"

definition ttl_millis :: "int \<Rightarrow> int" where
  "ttl_millis d = (if 0 < d \<and> d < 10 ^ 6 then 10 ^ 6 else d div 10 ^ 6 * 10 ^ 6)"

definition redis_incrby :: "int \<Rightarrow> string \<Rightarrow> int \<Rightarrow> rstate \<Rightarrow> redis_reply result \<times> rstate" where
  "redis_incrby t k n r =
     (case (case live t r k of None \<Rightarrow> Some (0, None) | Some (v, ex) \<Rightarrow> map_option (\<lambda>i. (i, ex)) (ParseInt v)) of
        None \<Rightarrow> (Inl (Err ''ERR value is not an integer or out of range''), r)
      | Some (i, ex) \<Rightarrow>
          if int64_range (i + n) then (Inr (IntReply (i + n)), put_entry k (Some (FormatInt (i + n), ex)) r)
          else (Inl (Err ''ERR increment or decrement would overflow''), r))"

text \<open>The expiry of a value that is set: the driver sends \<^verbatim>\<open>PX\<close> or \<^verbatim>\<open>EX\<close> for a positive duration, \<^verbatim>\<open>KEEPTTL\<close> for the duration \<^verbatim>\<open>redis.KeepTTL\<close> (which is
  -1), and no option for any other one.\<close>

definition set_expiry :: "int \<Rightarrow> int \<Rightarrow> rstate \<Rightarrow> string \<Rightarrow> int option" where
  "set_expiry t ttl r k =
     (if 0 < ttl then Some (t + ttl_millis ttl)
      else if ttl = - 1 then (case live t r k of None \<Rightarrow> None | Some (v, ex) \<Rightarrow> ex)
      else None)"

fun redis_step :: "int \<Rightarrow> redis_cmd \<Rightarrow> rstate \<Rightarrow> redis_reply result \<times> rstate" where
  "redis_step t PING r = (Inr Unread, r)"
| "redis_step t (INCR k) r = redis_incrby t k 1 r"
| "redis_step t (INCRBY k n) r = redis_incrby t k n r"
| "redis_step t (EXPIRE k ttl) r =
     (case live t r k of
        None \<Rightarrow> (Inr Unread, r)
      | Some (v, ex) \<Rightarrow> (Inr Unread, put_entry k (Some (v, Some (t + ttl_seconds ttl))) r))"
| "redis_step t (SET k v ttl) r =
     (Inr Unread, put_entry k (Some (v, set_expiry t ttl r k)) r)"
| "redis_step t (GET k) r =
     (case live t r k of None \<Rightarrow> (Inl redis_Nil, r) | Some (v, ex) \<Rightarrow> (Inr (BulkReply v), r))"
| "redis_step t (DEL ks) r = (Inr Unread, fold (\<lambda>k. put_entry k None) ks r)"
| "redis_step t (EXISTS ks) r =
     (Inr (IntReply (int (length (filter (\<lambda>k. live t r k \<noteq> None) ks)))), r)"
| "redis_step t (PUBLISH ch m) r = (Inr Unread, r\<lparr>messages := messages r @ [(ch, m)]\<rparr>)"
| "redis_step t (SUBSCRIBE chs) r = (Inr Unread, r\<lparr>subscriptions := subscriptions r @ chs\<rparr>)"
| "redis_step t (PSUBSCRIBE ps) r = (Inr Unread, r\<lparr>subscriptions := subscriptions r @ ps\<rparr>)"

text \<open>A pipeline: all commands are executed in order, the driver reports the first error.\<close>

fun redis_run :: "int \<Rightarrow> redis_cmd list \<Rightarrow> rstate \<Rightarrow> redis_reply list result \<times> rstate" where
  "redis_run t [] r = (Inr [], r)"
| "redis_run t (c # cs) r =
     (let (rep, r') = redis_step t c r; (reps, r'') = redis_run t cs r'
      in (case (rep, reps) of
            (Inl e, _) \<Rightarrow> (Inl e, r'')
          | (Inr x, Inl e) \<Rightarrow> (Inl e, r'')
          | (Inr x, Inr xs) \<Rightarrow> (Inr (x # xs), r'')))"

section \<open>The contract of server and driver\<close>

locale redis_server =
  fixes exec :: "'s redis" and store :: "'s \<Rightarrow> rstate"
  assumes exec_ok: "exec t cmds s = (Inr rs, s') \<Longrightarrow> redis_run t cmds (store s) = (Inr rs, store s')"
    and exec_err: "exec t cmds s = (Inl e, s') \<Longrightarrow>
      \<exists>k \<le> length cmds. store s' = snd (redis_run t (take k cmds) (store s))"
begin

lemma exec_cases:
  obtains rs s' where "exec t cmds s = (Inr rs, s')" and "redis_run t cmds (store s) = (Inr rs, store s')"
  | e s' k where "exec t cmds s = (Inl e, s')" and "store s' = snd (redis_run t (take k cmds) (store s))"
  using exec_ok exec_err by (metis obj_sumE surj_pair)

text \<open>A single command either has its effect and reply, or fails with or without its effect.\<close>

lemma exec_single_cases:
  obtains r s' where "exec t [c] s = (Inr [r], s')" and "redis_step t c (store s) = (Inr r, store s')"
  | e s' where "exec t [c] s = (Inl e, s')" and "store s' = store s \<or> store s' = snd (redis_step t c (store s))"
proof (cases rule: exec_cases [of t "[c]" s])
  case (1 rs s')
  then show ?thesis using that(1) [of _ s']
    by (auto simp: Let_def split: prod.splits sum.splits)
next
  case (2 e s' k)
  then show ?thesis using that(2) [of e s']
    by (cases k) (auto simp: Let_def split: prod.splits sum.splits)
qed

end

text \<open>The reference server behind a connection that can be down: a command on a broken connection
  fails without effect.\<close>

fun demo_exec :: "(bool \<times> rstate) redis" where
  "demo_exec t cmds (up, r) =
     (if up then (let (rep, r') = redis_run t cmds r in (rep, (up, r')))
      else (Inl (Err ''dial tcp: connection refused''), (up, r)))"

interpretation demo_redis: redis_server demo_exec snd
proof unfold_locales
  fix t cmds rs s s' assume "demo_exec t cmds s = (Inr rs, s')"
  then show "redis_run t cmds (snd s) = (Inr rs, snd s')"
    by (cases s) (auto split: if_splits prod.splits)
next
  fix t cmds e s s' assume "demo_exec t cmds s = (Inl e, s')"
  then show "\<exists>k \<le> length cmds. snd s' = snd (redis_run t (take k cmds) (snd s))"
    by (cases s) (auto split: if_splits prod.splits intro: exI [of _ 0] exI [of _ "length cmds"])
qed

text \<open>A server that is up: every pipeline is answered as the reference server answers it.\<close>

locale healthy_redis =
  fixes exec :: "'s redis" and store :: "'s \<Rightarrow> rstate"
  assumes healthy: "map_prod id store (exec t cmds s) = redis_run t cmds (store s)"

sublocale healthy_redis < redis_server
proof unfold_locales
  fix t cmds rs s s' assume "exec t cmds s = (Inr rs, s')"
  then show "redis_run t cmds (store s) = (Inr rs, store s')"
    using healthy [of t cmds s] by simp
next
  fix t cmds e s s' assume "exec t cmds s = (Inl e, s')"
  then have "store s' = snd (redis_run t (take (length cmds) cmds) (store s))"
    using healthy [of t cmds s] by (simp add: prod_eq_iff)
  then show "\<exists>k \<le> length cmds. store s' = snd (redis_run t (take k cmds) (store s))" by blast
qed

interpretation ref_redis: healthy_redis redis_run id
  by unfold_locales (simp add: prod.map_id0)

context healthy_redis
begin

lemma exec_eq: "exec t cmds s = (fst (redis_run t cmds (store s)), snd (exec t cmds s))"
  and store_exec: "store (snd (exec t cmds s)) = snd (redis_run t cmds (store s))"
  using healthy [of t cmds s] by (cases "exec t cmds s"; simp add: prod_eq_iff)+

end

section \<open>Keys\<close>

lemma seq_key_inj [simp]: "seq_key g = seq_key g' \<longleftrightarrow> g = g'"
  by (simp add: seq_key_def)

lemma online_key_inj [simp]: "online_key u = online_key u' \<longleftrightarrow> u = u'"
  by (simp add: online_key_def)

lemma seq_key_neq_online_key [simp]: "seq_key g \<noteq> online_key u" "online_key u \<noteq> seq_key g"
  by (simp_all add: seq_key_def online_key_def)

lemma live_put_other [simp]: "k' \<noteq> k \<Longrightarrow> live t (put_entry k e r) k' = live t r k'"
  by (simp add: live_def put_entry_def)

lemma live_put_same [simp]: "live t (put_entry k e r) k =
    (case e of None \<Rightarrow> None | Some (v, None) \<Rightarrow> Some (v, None)
     | Some (v, Some ex) \<Rightarrow> if t < ex then Some (v, Some ex) else None)"
  by (simp add: live_def put_entry_def)

section \<open>Sequence numbers\<close>

text \<open>The counters of the guilds carry no expiry and hold integers.\<close>

definition seq_value :: "rstate \<Rightarrow> string \<Rightarrow> int" where
  "seq_value r g = (case entries r (seq_key g) of
     None \<Rightarrow> 0 | Some (v, ex) \<Rightarrow> (case ParseInt v of None \<Rightarrow> 0 | Some i \<Rightarrow> i))"

definition seq_inv :: "rstate \<Rightarrow> bool" where
  "seq_inv r \<longleftrightarrow> (\<forall>g. entries r (seq_key g) = None \<or> (\<exists>i. entries r (seq_key g) = Some (FormatInt i, None)))"

lemma seq_inv_empty [simp]: "seq_inv empty_redis"
  by (simp add: seq_inv_def empty_redis_def)

lemma live_seq:
  assumes "seq_inv r"
  shows "live t r (seq_key g) = entries r (seq_key g)"
  using spec [OF assms [unfolded seq_inv_def], of g] by (auto simp: live_def)

lemma INCR_seq:
  assumes "seq_inv r"
  shows "redis_step t (INCR (seq_key g)) r =
    (if int64_range (seq_value r g + 1)
     then (Inr (IntReply (seq_value r g + 1)),
           put_entry (seq_key g) (Some (FormatInt (seq_value r g + 1), None)) r)
     else (Inl (Err ''ERR increment or decrement would overflow''), r))"
  using assms spec [OF assms [unfolded seq_inv_def], of g]
  by (auto simp: redis_incrby_def live_seq seq_value_def)

lemma seq_put:
  assumes "seq_inv r"
  shows "seq_inv (put_entry (seq_key g) (Some (FormatInt i, None)) r)"
    and "seq_value (put_entry (seq_key g) (Some (FormatInt i, None)) r) g' =
      (if g' = g then i else seq_value r g')"
  using assms by (auto simp: seq_inv_def seq_value_def put_entry_def)

context redis_server
begin

lemma GenerateSeqID_step:
  assumes "seq_inv (store s)" and "GenerateSeqID exec t g s = (res, s')"
  shows "seq_inv (store s')"
    and "\<And>g'. seq_value (store s) g' \<le> seq_value (store s') g'"
    and "\<And>i. res = Inr i \<Longrightarrow> seq_value (store s) g < i \<and> i = seq_value (store s') g"
proof -
  note step = INCR_seq [OF assms(1), of t g]
  have "seq_inv (store s') \<and> (\<forall>g'. seq_value (store s) g' \<le> seq_value (store s') g') \<and>
      (\<forall>i. res = Inr i \<longrightarrow> seq_value (store s) g < i \<and> i = seq_value (store s') g)"
  proof (cases rule: exec_single_cases [of t "INCR (seq_key g)" s])
    case (1 r s'')
    then show ?thesis using assms(2) step seq_put [OF assms(1)]
      by (auto simp: GenerateSeqID_def split: if_splits)
  next
    case (2 e s'')
    then show ?thesis using assms step seq_put [OF assms(1)]
      by (auto simp: GenerateSeqID_def split: if_splits)
  qed
  then show "seq_inv (store s')"
    and "\<And>g'. seq_value (store s) g' \<le> seq_value (store s') g'"
    and "\<And>i. res = Inr i \<Longrightarrow> seq_value (store s) g < i \<and> i = seq_value (store s') g" by blast+
qed

text \<open>A series of calls for any guilds at any times, failures included.\<close>

end

fun seq_calls :: "'s redis \<Rightarrow> (int \<times> string) list \<Rightarrow> 's \<Rightarrow> int result list" where
  "seq_calls exec [] s = []"
| "seq_calls exec ((t, g) # cs) s =
     (let (res, s') = GenerateSeqID exec t g s in res # seq_calls exec cs s')"

lemma length_seq_calls [simp]: "length (seq_calls exec cs s) = length cs"
  by (induction cs arbitrary: s) (auto simp: Let_def split: prod.splits)

context redis_server
begin

lemma seq_calls_above:
  assumes "seq_inv (store s)" and "j < length cs" and "seq_calls exec cs s ! j = Inr i"
  shows "seq_value (store s) (snd (cs ! j)) < i"
  using assms
proof (induction cs arbitrary: s j)
  case (Cons c cs)
  obtain t g where c: "c = (t, g)" by (cases c)
  obtain res s' where gen: "GenerateSeqID exec t g s = (res, s')" by fastforce
  note step = GenerateSeqID_step [OF Cons.prems(1) gen]
  show ?case
  proof (cases j)
    case 0
    then show ?thesis using Cons.prems step(3) by (simp add: c gen)
  next
    case (Suc j')
    then have "seq_value (store s') (snd (cs ! j')) < i"
      using Cons.prems Cons.IH [OF step(1), of j'] by (simp add: c gen)
    then show ?thesis using step(2) [of "snd (cs ! j')"] Suc by simp
  qed
qed simp

lemma seq_calls_increasing:
  assumes "seq_inv (store s)" and "i < j" and "j < length cs" and "snd (cs ! i) = snd (cs ! j)"
    and "seq_calls exec cs s ! i = Inr a" and "seq_calls exec cs s ! j = Inr b"
  shows "a < b"
  using assms
proof (induction cs arbitrary: s i j)
  case (Cons c cs)
  obtain t g where c: "c = (t, g)" by (cases c)
  obtain res s' where gen: "GenerateSeqID exec t g s = (res, s')" by fastforce
  note step = GenerateSeqID_step [OF Cons.prems(1) gen]
  obtain j' where j: "j = Suc j'" using Cons.prems(2) by (cases j) auto
  show ?case
  proof (cases i)
    case 0
    have "seq_calls exec cs s' ! j' = Inr b" using Cons.prems(6) j gen by (simp add: c)
    then have "seq_value (store s') (snd (cs ! j')) < b"
      using Cons.prems(3) j seq_calls_above [OF step(1)] by simp
    moreover have "snd (cs ! j') = g" using 0 j c Cons.prems(4) by simp
    moreover have "a = seq_value (store s') g" using 0 Cons.prems(5) step(3) gen by (simp add: c)
    ultimately show ?thesis by simp
  next
    case (Suc i')
    then show ?thesis using Cons.prems j Cons.IH [OF step(1), of i' j'] by (simp add: c gen)
  qed
qed simp

end

section \<open>Presence\<close>

text \<open>The abstract state of the presence keys: who is online at a time, and on which gateway.\<close>

definition presence :: "int \<Rightarrow> rstate \<Rightarrow> string \<Rightarrow> string option" where
  "presence t r u = map_option fst (live t r (online_key u))"

lemma presence_put_online: "presence t' (put_entry (online_key u) e r) =
    (presence t' r)(u := map_option fst (live t' (put_entry (online_key u) e r) (online_key u)))"
  by (rule ext) (simp add: presence_def)

lemma presence_put_seq: "presence t' (put_entry (seq_key g) e r) = presence t' r"
  by (rule ext) (simp add: presence_def)

context redis_server
begin

lemma run_cmd_ok:
  assumes "run_cmd exec t c wrap s = (None, s')"
  obtains r where "redis_step t c (store s) = (Inr r, store s')"
proof (cases rule: exec_single_cases [of t c s])
  case (1 r s'')
  then show ?thesis using assms that by (auto simp: run_cmd_def)
next
  case (2 e s'')
  then show ?thesis using assms by (simp add: run_cmd_def)
qed

lemma SetUserOnline_presence:
  assumes "SetUserOnline exec t u gw ttl s = (None, s')"
  shows "presence t' (store s') = (presence t' (store s))
    (u := if (if ttl = - 1 then presence t (store s) u \<noteq> None \<longrightarrow> presence t' (store s) u \<noteq> None
              else ttl \<le> 0 \<or> t' < t + ttl_millis ttl) then Some gw else None)"
proof -
  from assms obtain r where "redis_step t (SET (online_key u) gw ttl) (store s) = (Inr r, store s')"
    unfolding SetUserOnline_def by (rule run_cmd_ok)
  then have "store s' = put_entry (online_key u) (Some (gw, set_expiry t ttl (store s) (online_key u))) (store s)" by simp
  then show ?thesis
    by (auto simp: presence_put_online presence_def set_expiry_def live_def put_entry_def split: option.split)
qed

lemma RemoveUserOnline_presence:
  assumes "RemoveUserOnline exec t u s = (None, s')"
  shows "presence t' (store s') = (presence t' (store s))(u := None)"
proof -
  from assms obtain r where "redis_step t (DEL [online_key u]) (store s) = (Inr r, store s')"
    unfolding RemoveUserOnline_def by (rule run_cmd_ok)
  then have "store s' = put_entry (online_key u) None (store s)" by simp
  then show ?thesis by (simp add: presence_put_online)
qed

lemma IsUserOnline_presence:
  assumes "IsUserOnline exec t u s = (Inr b, s')"
  shows "b \<longleftrightarrow> presence t (store s) u \<noteq> None" and "store s' = store s"
proof -
  have "(b \<longleftrightarrow> presence t (store s) u \<noteq> None) \<and> store s' = store s"
  proof (cases rule: exec_single_cases [of t "EXISTS [online_key u]" s])
    case (1 r s'')
    then show ?thesis using assms by (auto simp: IsUserOnline_def presence_def split: if_splits)
  next
    case (2 e s'')
    then show ?thesis using assms by (simp add: IsUserOnline_def)
  qed
  then show "b \<longleftrightarrow> presence t (store s) u \<noteq> None" and "store s' = store s" by auto
qed

lemma GetUserOnlineStatus_presence:
  assumes "GetUserOnlineStatus exec t u s = (Inr gw, s')"
  shows "presence t (store s) u = Some gw" and "store s' = store s"
proof -
  have "presence t (store s) u = Some gw \<and> store s' = store s"
  proof (cases rule: exec_single_cases [of t "GET (online_key u)" s])
    case (1 r s'')
    then show ?thesis using assms
      by (auto simp: GetUserOnlineStatus_def presence_def split: option.splits)
  next
    case (2 e s'')
    then show ?thesis using assms by (simp add: GetUserOnlineStatus_def)
  qed
  then show "presence t (store s) u = Some gw" and "store s' = store s" by auto
qed

lemma GenerateSeqID_presence:
  assumes "seq_inv (store s)" and "GenerateSeqID exec t g s = (res, s')"
  shows "presence t' (store s') = presence t' (store s)"
proof (cases rule: exec_single_cases [of t "INCR (seq_key g)" s])
  case (1 r s'')
  then show ?thesis using assms INCR_seq [OF assms(1), of t g]
    by (auto simp: GenerateSeqID_def presence_put_seq split: if_splits)
next
  case (2 e s'')
  then show ?thesis using assms INCR_seq [OF assms(1), of t g]
    by (auto simp: GenerateSeqID_def presence_put_seq split: if_splits)
qed

end

section \<open>Properties\<close>

text \<open>Sequence numbers of one guild are strictly increasing in the order in which
  \<^verbatim>\<open>GenerateSeqID\<close> hands them out, whatever calls for other guilds come in between and whichever calls
  fail (a failed call may leave a gap).\<close>

theorem GenerateSeqID_increasing:
  assumes "redis_server exec store" and "seq_inv (store s)"
    and "i < j" and "j < length calls" and "snd (calls ! i) = snd (calls ! j)"
    and "seq_calls exec calls s ! i = Inr a" and "seq_calls exec calls s ! j = Inr b"
  shows "a < b"
  using redis_server.seq_calls_increasing [OF assms] .

theorem GenerateSeqID_increasing_witness:
  "seq_calls demo_exec [(0, ''g''), (1, ''h''), (2, ''g'')] (True, empty_redis) = [Inr 1, Inr 1, Inr 2] \<and>
   (1 :: int) < 2"
proof -
  have calls: "seq_calls demo_exec [(0, ''g''), (1, ''h''), (2, ''g'')] (True, empty_redis) =
      [Inr 1, Inr 1, Inr 2]"
    by (simp add: GenerateSeqID_def redis_incrby_def live_def empty_redis_def put_entry_def
        seq_key_def int64_range_def)
  show ?thesis
    using calls GenerateSeqID_increasing [OF demo_redis.redis_server_axioms, of "(True, empty_redis)" 0 2
        "[(0, ''g''), (1, ''h''), (2, ''g'')]" 1 2] by simp
qed

text \<open>C28. The presence operations refine a map from users to gateways with expiry: a successful
  \<^verbatim>\<open>SetUserOnline\<close> puts the user on the gateway until the TTL is over (for ever when it is zero; with \<^verbatim>\<open>redis.KeepTTL\<close> until the
  user's present entry expires),
  \<^verbatim>\<open>RemoveUserOnline\<close> takes the user off, \<^verbatim>\<open>IsUserOnline\<close> and \<^verbatim>\<open>GetUserOnlineStatus\<close> read the map,
  and no operation disturbs another user; \<^verbatim>\<open>GenerateSeqID\<close> never touches presence.\<close>

theorem presence_refinement:
  assumes "redis_server exec store" and "seq_inv (store s)"
  shows "(\<forall>gw ttl s1 t'. SetUserOnline exec t u gw ttl s = (None, s1) \<longrightarrow>
        presence t' (store s1) = (presence t' (store s))
          (u := if (if ttl = - 1 then presence t (store s) u \<noteq> None \<longrightarrow> presence t' (store s) u \<noteq> None
                    else ttl \<le> 0 \<or> t' < t + ttl_millis ttl) then Some gw else None)) \<and>
    (\<forall>s1 t'. RemoveUserOnline exec t u s = (None, s1) \<longrightarrow>
        presence t' (store s1) = (presence t' (store s))(u := None)) \<and>
    (\<forall>b s1. IsUserOnline exec t u s = (Inr b, s1) \<longrightarrow>
        (b \<longleftrightarrow> presence t (store s) u \<noteq> None) \<and> store s1 = store s) \<and>
    (\<forall>gw s1. GetUserOnlineStatus exec t u s = (Inr gw, s1) \<longrightarrow>
        presence t (store s) u = Some gw \<and> store s1 = store s) \<and>
    (\<forall>g res s1 t'. GenerateSeqID exec t g s = (res, s1) \<longrightarrow>
        presence t' (store s1) = presence t' (store s))"
  by (intro conjI allI impI; (rule redis_server.SetUserOnline_presence [OF assms(1)]
      redis_server.RemoveUserOnline_presence [OF assms(1)]
      redis_server.IsUserOnline_presence [OF assms(1)]
      redis_server.GetUserOnlineStatus_presence [OF assms(1)]
      redis_server.GenerateSeqID_presence [OF assms]); assumption)

definition demo_online :: "bool \<times> rstate" where
  "demo_online = snd (SetUserOnline demo_exec 0 ''u'' ''gw1'' 60000000000 (True, empty_redis))"

theorem presence_refinement_witness:
  "presence 5 (snd demo_online) ''u'' = Some ''gw1'' \<and> presence 60000000000 (snd demo_online) ''u'' = None"
proof -
  have "SetUserOnline demo_exec 0 ''u'' ''gw1'' 60000000000 (True, empty_redis) = (None, demo_online)"
    by (simp add: demo_online_def SetUserOnline_def run_cmd_def)
  then have "presence t' (snd demo_online) = (presence t' (snd (True, empty_redis)))
      (''u'' := if (if (60000000000 :: int) = - 1
          then presence 0 (snd (True, empty_redis)) ''u'' \<noteq> None \<longrightarrow> presence t' (snd (True, empty_redis)) ''u'' \<noteq> None
          else (60000000000 :: int) \<le> 0 \<or> t' < 0 + ttl_millis 60000000000) then Some ''gw1'' else None)" for t'
    using presence_refinement [OF demo_redis.redis_server_axioms, of "(True, empty_redis)" 0 "''u''"]
      seq_inv_empty unfolding snd_conv by blast
  then show ?thesis by (simp add: ttl_millis_def)
qed

end
