(* ===== verification/RateLimit.thy ===== *)
theory RateLimit
  imports Redis
begin

text \<open>
  The rate limiter of \<^verbatim>\<open>middleware/ratelimit/ratelimit.go\<close> over the Redis driver \<open>exec\<close>.  Every
  operation takes the time \<open>now\<close> that \<^verbatim>\<open>time.Now()\<close> returns and the time \<open>t\<close> of the Redis server,
  both in nanoseconds.  \<^verbatim>\<open>int64(window.Seconds())\<close> goes through a float; the truncation modelled here
  is exact for windows of up to 2000 hours.  Logging is left out.
\<close>

section \<open>Operations\<close>

definition Second :: int where "Second = 10 ^ 9"
definition Minute :: int where "Minute = 60 * Second"
definition Hour :: int where "Hour = 60 * Minute"

definition Unix :: "int \<Rightarrow> int" where
  "Unix now = now div Second"

record token_bucket_limiter =
  fallback :: bool

definition NewTokenBucketLimiter :: "bool \<Rightarrow> token_bucket_limiter" where
  "NewTokenBucketLimiter fb = \<lparr>fallback = fb\<rparr>"

definition getBucketKey :: "string \<Rightarrow> int \<Rightarrow> int \<Rightarrow> string outcome" where
  "getBucketKey key now window =
     (let divide = (\<lambda>u d. if d = 0 then Panics
                           else Returns (''ratelimit:'' @ key @ '':'' @ FormatInt (u sdiv d)))
      in if window \<le> Minute then divide (Unix now) (window sdiv Second)
         else if window \<le> Hour then divide (Unix now sdiv 60) (window sdiv Minute)
         else divide (Unix now sdiv 3600) (window sdiv Hour))"

definition AllowN :: "'s redis \<Rightarrow> token_bucket_limiter \<Rightarrow> int \<Rightarrow> int \<Rightarrow> string \<Rightarrow> int \<Rightarrow> int \<Rightarrow> int \<Rightarrow> 's
    \<Rightarrow> ((bool \<times> go_error option) \<times> 's) outcome" where
  "AllowN exec l now t key n limit window s =
     (case getBucketKey key now window of
        Panics \<Rightarrow> Panics
      | Returns bucketKey \<Rightarrow>
          (case exec t [INCRBY bucketKey n, EXPIRE bucketKey (wrap64 (window + Second))] s of
             (Inl e, s') \<Rightarrow>
               if fallback l then Returns ((True, None), s')
               else Returns ((False, Some (Wrap ''rate limit check failed'' e)), s')
           | (Inr rs, s') \<Rightarrow> Returns ((int_reply rs \<le> limit, None), s')))"

definition Allow :: "'s redis \<Rightarrow> token_bucket_limiter \<Rightarrow> int \<Rightarrow> int \<Rightarrow> string \<Rightarrow> int \<Rightarrow> int \<Rightarrow> 's
    \<Rightarrow> ((bool \<times> go_error option) \<times> 's) outcome" where
  "Allow exec l now t key limit window = AllowN exec l now t key 1 limit window"

text \<open>\<^verbatim>\<open>Reset\<close>: the two bucket keys of each of the three windows; a window of at least a minute never
  panics.\<close>

fun reset_keys :: "string \<Rightarrow> int \<Rightarrow> int list \<Rightarrow> string list outcome" where
  "reset_keys key now [] = Returns []"
| "reset_keys key now (w # ws) =
     (case (getBucketKey key now w, getBucketKey key (now - w) w, reset_keys key now ws) of
        (Returns k1, Returns k2, Returns ks) \<Rightarrow> Returns (k1 # k2 # ks)
      | _ \<Rightarrow> Panics)"

definition Reset :: "'s redis \<Rightarrow> int \<Rightarrow> int \<Rightarrow> string \<Rightarrow> 's \<Rightarrow> (go_error option \<times> 's) outcome" where
  "Reset exec now t key s =
     (case reset_keys key now [Minute, Hour, 24 * Hour] of
        Panics \<Rightarrow> Panics
      | Returns ks \<Rightarrow> Returns (run_cmd exec t (DEL ks) (Wrap (''failed to reset rate limit for key '' @ key)) s))"

definition GetRemaining :: "'s redis \<Rightarrow> int \<Rightarrow> int \<Rightarrow> string \<Rightarrow> int \<Rightarrow> int \<Rightarrow> 's \<Rightarrow> (int result \<times> 's) outcome" where
  "GetRemaining exec now t key limit window s =
     (case getBucketKey key now window of
        Panics \<Rightarrow> Panics
      | Returns bucketKey \<Rightarrow>
          Returns (case exec t [GET bucketKey] s of
             (Inl e, s') \<Rightarrow>
               if e = redis_Nil then (Inr limit, s')
               else (Inl (Wrap ''failed to get remaining tokens'' e), s')
           | (Inr rs, s') \<Rightarrow>
               (case ParseInt (bulk_reply rs) of
                  None \<Rightarrow> (Inl (Wrap ''failed to get remaining tokens'' (Err ''strconv.ParseInt'')), s')
                | Some count \<Rightarrow>
                    (let remaining = wrap64 (limit - count)
                     in (Inr (if remaining < 0 then 0 else remaining), s')))))"

record rate_limit_config =
  RegisterPerMinute :: int
  LoginPerMinute :: int
  MessagePerMinute :: int
  APIPerMinute :: int

record rate_limit_rule =
  Limit :: int
  Window :: int

definition GetRuleForEndpoint :: "string \<Rightarrow> rate_limit_config \<Rightarrow> rate_limit_rule" where
  "GetRuleForEndpoint endpoint cfg =
     (if endpoint = ''register'' then \<lparr>Limit = RegisterPerMinute cfg, Window = Minute\<rparr>
      else if endpoint = ''login'' then \<lparr>Limit = LoginPerMinute cfg, Window = Minute\<rparr>
      else if endpoint = ''message'' then \<lparr>Limit = MessagePerMinute cfg, Window = Minute\<rparr>
      else if endpoint = ''api'' then \<lparr>Limit = APIPerMinute cfg, Window = Minute\<rparr>
      else \<lparr>Limit = 100, Window = Minute\<rparr>)"

section \<open>The counter of a bucket\<close>

text \<open>\<open>bucket_count c t t1 bk r\<close>: at time \<open>t\<close> the bucket's counter is \<open>c\<close> and will not expire before
  \<open>t1\<close>.\<close>

definition bucket_count :: "int \<Rightarrow> int \<Rightarrow> int \<Rightarrow> string \<Rightarrow> rstate \<Rightarrow> bool" where
  "bucket_count c t t1 bk r \<longleftrightarrow>
     c = 0 \<and> live t r bk = None \<or>
     (\<exists>ex. entries r bk = Some (FormatInt c, ex) \<and> (\<forall>e. ex = Some e \<longrightarrow> t1 \<le> e))"

lemma live_mono: "live t r k = None \<Longrightarrow> t \<le> t' \<Longrightarrow> live t' r k = None"
  by (auto simp: live_def split: option.splits if_splits)

lemma bucket_count_later: "bucket_count c t t1 bk r \<Longrightarrow> t \<le> t' \<Longrightarrow> bucket_count c t' t1 bk r"
  using live_mono by (auto simp: bucket_count_def)

lemma bucket_count_put:
  "(\<And>e. ex = Some e \<Longrightarrow> t1 \<le> e) \<Longrightarrow> bucket_count c t t1 bk (put_entry bk (Some (FormatInt c, ex)) r)"
  by (simp add: bucket_count_def put_entry_def)

lemma bucket_count_live:
  assumes "bucket_count c t t1 bk r" and "t < t1"
  obtains "c = 0" and "live t r bk = None"
  | ex where "live t r bk = Some (FormatInt c, ex)" and "\<And>e. ex = Some e \<Longrightarrow> t1 \<le> e"
proof -
  from assms(1) consider "c = 0" "live t r bk = None"
    | ex where "entries r bk = Some (FormatInt c, ex)" "\<forall>e. ex = Some e \<longrightarrow> t1 \<le> e"
    unfolding bucket_count_def by auto
  then show ?thesis
  proof cases
    case 2
    then have "live t r bk = Some (FormatInt c, ex)"
      using assms(2) by (cases ex) (auto simp: live_def)
    with 2 that(2) show ?thesis by blast
  qed (use that in blast)
qed

text \<open>The effect of the pipeline \<^verbatim>\<open>INCRBY\<close>, \<^verbatim>\<open>EXPIRE\<close>, and of every prefix of it.\<close>

lemma INCRBY_bucket:
  assumes "bucket_count c t t1 bk r" and "t < t1"
  obtains ex where "redis_step t (INCRBY bk n) r =
      (if int64_range (c + n)
       then (Inr (IntReply (c + n)), put_entry bk (Some (FormatInt (c + n), ex)) r)
       else (Inl (Err ''ERR increment or decrement would overflow''), r))"
    and "\<And>e. ex = Some e \<Longrightarrow> t1 \<le> e"
  using assms
  by (cases rule: bucket_count_live) (auto simp: redis_incrby_def)

lemma EXPIRE_bucket:
  assumes "bucket_count c t t1 bk r" and "t < t1" and "t1 \<le> t + ttl_seconds ttl"
  shows "fst (redis_step t (EXPIRE bk ttl) r) = Inr Unread \<and>
    bucket_count c t t1 bk (snd (redis_step t (EXPIRE bk ttl) r))"
  using assms(1,2)
proof (cases rule: bucket_count_live)
  case 1
  then show ?thesis using assms(1) by simp
next
  case (2 ex)
  then show ?thesis using assms(3) by (auto intro: bucket_count_put)
qed

lemma pipeline_bucket:
  assumes "bucket_count c t t1 bk r" and "t < t1" and "t1 \<le> t + ttl_seconds ttl"
  shows "int64_range (c + n) \<Longrightarrow>
      fst (redis_run t [INCRBY bk n, EXPIRE bk ttl] r) = Inr [IntReply (c + n), Unread] \<and>
      bucket_count (c + n) t t1 bk (snd (redis_run t [INCRBY bk n, EXPIRE bk ttl] r))"
    and "\<not> int64_range (c + n) \<Longrightarrow> isl (fst (redis_run t [INCRBY bk n, EXPIRE bk ttl] r))"
    and "bucket_count c t t1 bk (snd (redis_run t (take k [INCRBY bk n, EXPIRE bk ttl]) r)) \<or>
      bucket_count (c + n) t t1 bk (snd (redis_run t (take k [INCRBY bk n, EXPIRE bk ttl]) r))"
proof -
  obtain ex where incr: "redis_step t (INCRBY bk n) r =
      (if int64_range (c + n)
       then (Inr (IntReply (c + n)), put_entry bk (Some (FormatInt (c + n), ex)) r)
       else (Inl (Err ''ERR increment or decrement would overflow''), r))"
    and ex: "\<And>e. ex = Some e \<Longrightarrow> t1 \<le> e" using INCRBY_bucket [OF assms(1,2)] by blast
  define r' where "r' = put_entry bk (Some (FormatInt (c + n), ex)) r"
  have r': "bucket_count (c + n) t t1 bk r'" unfolding r'_def by (rule bucket_count_put) (rule ex)
  note exp = EXPIRE_bucket [OF assms] EXPIRE_bucket [OF r' assms(2,3)]
  note incr' = incr [folded r'_def]
  show "int64_range (c + n) \<Longrightarrow>
      fst (redis_run t [INCRBY bk n, EXPIRE bk ttl] r) = Inr [IntReply (c + n), Unread] \<and>
      bucket_count (c + n) t t1 bk (snd (redis_run t [INCRBY bk n, EXPIRE bk ttl] r))"
    using incr' exp(2) by (auto simp del: redis_step.simps simp: Let_def split: prod.splits)
  show "\<not> int64_range (c + n) \<Longrightarrow> isl (fst (redis_run t [INCRBY bk n, EXPIRE bk ttl] r))"
    using incr' by (auto simp del: redis_step.simps simp: Let_def split: prod.splits)
  consider "k = 0" | "k = 1" | "2 \<le> k" by linarith
  then show "bucket_count c t t1 bk (snd (redis_run t (take k [INCRBY bk n, EXPIRE bk ttl]) r)) \<or>
      bucket_count (c + n) t t1 bk (snd (redis_run t (take k [INCRBY bk n, EXPIRE bk ttl]) r))"
  proof cases
    case 1
    then show ?thesis using assms(1) by simp
  next
    case 2
    then show ?thesis using incr' r' assms(1)
      by (auto simp del: redis_step.simps simp: Let_def split: prod.splits sum.splits if_splits)
  next
    case 3
    then show ?thesis using incr' exp
      by (auto simp del: redis_step.simps simp: Let_def split: prod.splits sum.splits if_splits)
  qed
qed

section \<open>Requests of one bucket\<close>

text \<open>A request is the time on the application server, the time on the Redis server and the number of
  tokens.  \<open>allow_run\<close> is a sequence of \<^verbatim>\<open>AllowN\<close> calls for one key.\<close>

type_synonym request = "int \<times> int \<times> int"

fun allow_run :: "'s redis \<Rightarrow> token_bucket_limiter \<Rightarrow> string \<Rightarrow> int \<Rightarrow> int \<Rightarrow> request list \<Rightarrow> 's
    \<Rightarrow> (bool \<times> go_error option) outcome list" where
  "allow_run exec l key limit window [] s = []"
| "allow_run exec l key limit window ((now, t, n) # rqs) s =
     (case AllowN exec l now t key n limit window s of
        Panics \<Rightarrow> Panics # allow_run exec l key limit window rqs s
      | Returns (ans, s') \<Rightarrow> Returns ans # allow_run exec l key limit window rqs s')"

fun admitted :: "request list \<Rightarrow> (bool \<times> go_error option) outcome list \<Rightarrow> int" where
  "admitted ((now, t, n) # rqs) (a # answers) =
     (case a of Returns (True, _) \<Rightarrow> n | _ \<Rightarrow> 0) + admitted rqs answers"
| "admitted _ _ = 0"

fun tokens :: "request list \<Rightarrow> int" where
  "tokens [] = 0"
| "tokens ((now, t, n) # rqs) = n + tokens rqs"

text \<open>All requests fall into the bucket \<open>bk\<close>, in the order of the server's clock and before \<open>t1\<close>.\<close>

fun in_bucket :: "string \<Rightarrow> string \<Rightarrow> int \<Rightarrow> int \<Rightarrow> int \<Rightarrow> request list \<Rightarrow> bool" where
  "in_bucket key bk window t0 t1 [] = True"
| "in_bucket key bk window t0 t1 ((now, t, n) # rqs) =
     (getBucketKey key now window = Returns bk \<and> 0 \<le> n \<and> t0 \<le> t \<and> t < t1 \<and>
      in_bucket key bk window t t1 rqs)"

abbreviation bucket_ttl :: "int \<Rightarrow> int" where
  "bucket_ttl window \<equiv> ttl_seconds (wrap64 (window + Second))"

context redis_server
begin

lemma allow_run_bounded:
  assumes "\<not> fallback l" and "in_bucket key bk window t t1 rqs" and "t1 \<le> t + bucket_ttl window"
    and "bucket_count c t t1 bk (store s)" and "0 \<le> c" and "a \<le> limit" and "a \<le> c"
  shows "a + admitted rqs (allow_run exec l key limit window rqs s) \<le> limit"
  using assms(2-)
proof (induction rqs arbitrary: s t c a)
  case Nil
  then show ?case by simp
next
  case (Cons rq rqs)
  obtain now t' n where rq: "rq = (now, t', n)" by (cases rq)
  have key: "getBucketKey key now window = Returns bk" and n: "0 \<le> n" and t': "t \<le> t'" "t' < t1"
    and rest: "in_bucket key bk window t' t1 rqs" using Cons.prems(1) by (auto simp: rq)
  have ttl: "t1 \<le> t' + bucket_ttl window" using t' Cons.prems(2) by linarith
  have count: "bucket_count c t' t1 bk (store s)" using bucket_count_later Cons.prems(3) t' by blast
  note pipe = pipeline_bucket [OF count t'(2) ttl, where n = n]
  let ?cmds = "[INCRBY bk n, EXPIRE bk (wrap64 (window + Second))]"
  show ?case
  proof (cases rule: exec_cases [of t' ?cmds s])
    case (1 rs s')
    then have range: "int64_range (c + n)" using pipe(2) by fastforce
    have ans: "allow_run exec l key limit window (rq # rqs) s =
        Returns (c + n \<le> limit, None) # allow_run exec l key limit window rqs s'"
      using 1 pipe(1) [OF range] key by (simp add: rq AllowN_def)
    have count': "bucket_count (c + n) t' t1 bk (store s')" using 1(2) pipe(1) [OF range] by simp
    have "(if c + n \<le> limit then a + n else a) +
        admitted rqs (allow_run exec l key limit window rqs s') \<le> limit"
      using Cons.IH [OF rest ttl count'] Cons.prems(4-6) n by simp
    then show ?thesis unfolding ans by (simp add: rq split: if_splits)
  next
    case (2 e s' k)
    then have "bucket_count c t' t1 bk (store s') \<or> bucket_count (c + n) t' t1 bk (store s')"
      using pipe(3) [of k] by simp
    then have "a + admitted rqs (allow_run exec l key limit window rqs s') \<le> limit"
      using Cons.IH [OF rest ttl, of c s' a] Cons.IH [OF rest ttl, of "c + n" s' a] Cons.prems(4-6) n by auto
    then show ?thesis using 2 key assms(1) by (simp add: rq AllowN_def)
  qed
qed

end

context healthy_redis
begin

lemma allow_run_exact:
  assumes "in_bucket key bk window t t1 rqs" and "t1 \<le> t + bucket_ttl window"
    and "bucket_count c t t1 bk (store s)" and "0 \<le> c"
    and "c + tokens rqs < 2 ^ 63"
  shows "allow_run exec l key limit window rqs s =
    map (\<lambda>i. Returns (c + tokens (take (Suc i) rqs) \<le> limit, None)) [0..<length rqs]"
  using assms
proof (induction rqs arbitrary: s t c)
  case (Cons rq rqs)
  obtain now t' n where rq: "rq = (now, t', n)" by (cases rq)
  have key: "getBucketKey key now window = Returns bk" and n: "0 \<le> n" and t': "t \<le> t'" "t' < t1"
    and rest: "in_bucket key bk window t' t1 rqs" using Cons.prems(1) by (auto simp: rq)
  have nonneg: "in_bucket key bk window u t1 xs \<Longrightarrow> 0 \<le> tokens xs" for u xs
    by (induction xs arbitrary: u) auto
  have ttl: "t1 \<le> t' + bucket_ttl window" using t' Cons.prems(2) by linarith
  have count: "bucket_count c t' t1 bk (store s)" using bucket_count_later Cons.prems(3) t' by blast
  have range: "int64_range (c + n)"
    using Cons.prems(4,5) n nonneg [OF rest] by (simp add: int64_range_def rq)
  note pipe = pipeline_bucket(1) [OF count t'(2) ttl range]
  let ?cmds = "[INCRBY bk n, EXPIRE bk (wrap64 (window + Second))]"
  define s' where "s' = snd (exec t' ?cmds s)"
  have ex: "exec t' ?cmds s = (Inr [IntReply (c + n), Unread], s')"
    using exec_eq [of t' ?cmds s] pipe by (simp add: s'_def)
  have "bucket_count (c + n) t' t1 bk (store s')"
    using pipe store_exec [of t' ?cmds s] by (simp add: s'_def)
  from Cons.IH [OF rest ttl this] Cons.prems(4,5) n
  have "allow_run exec l key limit window rqs s' =
      map (\<lambda>i. Returns (c + n + tokens (take (Suc i) rqs) \<le> limit, None)) [0..<length rqs]"
    by (simp add: rq)
  then show ?case
    using ex key by (simp add: rq AllowN_def upt_conv_Cons map_Suc_upt [symmetric] add.assoc del: upt_Suc)
qed simp

end

section \<open>Bucket keys\<close>

text \<open>The number of the bucket, and its width in seconds.\<close>

definition bucket_number :: "int \<Rightarrow> int \<Rightarrow> int" where
  "bucket_number now window =
     (if window \<le> Minute then Unix now sdiv (window sdiv Second)
      else if window \<le> Hour then Unix now sdiv 60 sdiv (window sdiv Minute)
      else Unix now sdiv 3600 sdiv (window sdiv Hour))"

lemma sdiv_eq_0_iff: "0 < b \<Longrightarrow> a sdiv b = 0 \<longleftrightarrow> - b < a \<and> a < (b :: int)"
proof (cases "0 \<le> a")
  case True
  moreover assume "0 < b"
  ultimately show ?thesis by (auto simp: sdiv_nonneg zdiv_eq_0_iff)
next
  case False
  moreover assume "0 < b"
  ultimately show ?thesis by (auto simp: signed_divide_int_def zdiv_eq_0_iff)
qed

lemma getBucketKey_panics: "getBucketKey key now window = Panics \<longleftrightarrow> - Second < window \<and> window < Second"
  unfolding getBucketKey_def
  by (auto simp: sdiv_eq_0_iff Minute_def Hour_def Second_def Let_def)

lemma getBucketKey_Returns:
  assumes "\<not> (- Second < window \<and> window < Second)"
  shows "getBucketKey key now window = Returns (''ratelimit:'' @ key @ '':'' @ FormatInt (bucket_number now window))"
  using assms
  by (auto simp: getBucketKey_def bucket_number_def sdiv_eq_0_iff Minute_def Hour_def Second_def Let_def)

lemma dec_no_colon: "CHR '':'' \<notin> set (dec n)"
proof (rule dec_no_separator)
  fix d :: nat assume "d < 10"
  then have "of_char (digit_char d) < (58 :: nat)" by (simp add: of_char_digit_char)
  moreover have "of_char (CHR '':'') = (58 :: nat)" by simp
  ultimately show "CHR '':'' \<noteq> digit_char d" by (metis less_irrefl)
qed

lemma FormatInt_no_colon: "CHR '':'' \<notin> set (FormatInt i)"
  by (auto simp: FormatInt_def dec_no_colon)

lemma getBucketKey_inj:
  assumes "\<not> (- Second < window \<and> window < Second)"
  shows "getBucketKey k1 now1 window = getBucketKey k2 now2 window \<longleftrightarrow>
    k1 = k2 \<and> bucket_number now1 window = bucket_number now2 window"
  using append_sep_eq [OF _ FormatInt_no_colon FormatInt_no_colon, of k1 _ k2]
  by (auto simp: getBucketKey_Returns [OF assms] dest: FormatInt_inj)

lemma bucket_number_whole:
  assumes "0 \<le> now" and "0 < w" and "w \<le> 60"
  shows "bucket_number now (w * Second) = now div (w * Second)"
proof -
  have "w * Second \<le> Minute" using assms(3) by (simp add: Minute_def Second_def)
  moreover have "(w * Second) sdiv Second = w" using assms(2) by (simp add: sdiv_nonneg Second_def)
  moreover have "0 \<le> Unix now" using assms(1) by (simp add: Unix_def Second_def pos_imp_zdiv_nonneg_iff)
  ultimately have "bucket_number now (w * Second) = now div Second div w"
    using assms(2) by (simp add: bucket_number_def sdiv_nonneg Unix_def)
  then show ?thesis using assms(2) by (simp add: zdiv_zmult2_eq [symmetric] mult.commute Second_def)
qed

section \<open>Remaining tokens and reset\<close>

lemma reset_keys_eq: "reset_keys key now [Minute, Hour, 24 * Hour] =
    Returns (concat (map (\<lambda>w. [''ratelimit:'' @ key @ '':'' @ FormatInt (bucket_number now w),
      ''ratelimit:'' @ key @ '':'' @ FormatInt (bucket_number (now - w) w)]) [Minute, Hour, 24 * Hour]))"
  by (simp add: getBucketKey_Returns Minute_def Hour_def Second_def)

lemma live_fold_delete: "k \<in> set ks \<Longrightarrow> live t (fold (\<lambda>k. put_entry k None) ks r) k = None"
proof (induction ks rule: rev_induct)
  case (snoc x xs)
  then show ?case by (cases "k = x") auto
qed simp

context healthy_redis
begin

lemma GetRemaining_count:
  assumes "getBucketKey key now window = Returns bk" and "bucket_count c t t1 bk (store s)" and "t < t1"
    and "0 \<le> limit" and "limit < 2 ^ 63" and "0 \<le> c" and "c < 2 ^ 63"
  shows "GetRemaining exec now t key limit window s =
    Returns (Inr (max 0 (limit - c)), snd (exec t [GET bk] s))"
  using assms(2,3)
proof (cases rule: bucket_count_live)
  case 1
  then have "exec t [GET bk] s = (Inl redis_Nil, snd (exec t [GET bk] s))"
    using exec_eq [of t "[GET bk]" s] by simp
  then show ?thesis using 1 assms(1,4) by (auto simp: GetRemaining_def split: prod.splits)
next
  case (2 ex)
  then have "exec t [GET bk] s = (Inr [BulkReply (FormatInt c)], snd (exec t [GET bk] s))"
    using exec_eq [of t "[GET bk]" s] by simp
  moreover have "wrap64 (limit - c) = limit - c" using assms(4-7) by (intro wrap64_id) auto
  ultimately show ?thesis using assms(1) by (auto simp: GetRemaining_def split: prod.splits)
qed

lemma Allow_count:
  assumes "getBucketKey key now window = Returns bk" and "bucket_count c t t1 bk (store s)" and "t < t1"
    and "t1 \<le> t + bucket_ttl window" and "0 \<le> c" and "c + 1 < 2 ^ 63"
  shows "\<exists>s'. Allow exec l now t key limit window s = Returns ((c + 1 \<le> limit, None), s')"
proof -
  let ?cmds = "[INCRBY bk 1, EXPIRE bk (wrap64 (window + Second))]"
  have "int64_range (c + 1)" using assms(5,6) by (simp add: int64_range_def)
  from pipeline_bucket(1) [OF assms(2,3,4) this] exec_eq [of t ?cmds s]
  have "exec t ?cmds s = (Inr [IntReply (c + 1), Unread], snd (exec t ?cmds s))" by simp
  then show ?thesis using assms(1) by (auto simp: Allow_def AllowN_def split: prod.splits)
qed

lemma Reset_fresh:
  assumes "window \<in> {Minute, Hour, 24 * Hour}" and "getBucketKey key now window = Returns bk"
  shows "\<exists>s'. Reset exec now t key s = Returns (None, s') \<and> (\<forall>t'. live t' (store s') bk = None)"
proof -
  obtain ks where ks: "reset_keys key now [Minute, Hour, 24 * Hour] = Returns ks" and bk: "bk \<in> set ks"
  proof
    show "reset_keys key now [Minute, Hour, 24 * Hour] = Returns (concat (map (\<lambda>w.
        [''ratelimit:'' @ key @ '':'' @ FormatInt (bucket_number now w),
         ''ratelimit:'' @ key @ '':'' @ FormatInt (bucket_number (now - w) w)]) [Minute, Hour, 24 * Hour]))"
      by (rule reset_keys_eq)
    have "\<not> (- Second < window \<and> window < Second)"
      using assms(1) by (auto simp: Minute_def Hour_def Second_def)
    with assms(2) have "bk = ''ratelimit:'' @ key @ '':'' @ FormatInt (bucket_number now window)"
      by (simp add: getBucketKey_Returns)
    with assms(1) show "bk \<in> set (concat (map (\<lambda>w.
        [''ratelimit:'' @ key @ '':'' @ FormatInt (bucket_number now w),
         ''ratelimit:'' @ key @ '':'' @ FormatInt (bucket_number (now - w) w)]) [Minute, Hour, 24 * Hour]))"
      by auto
  qed
  have "exec t [DEL ks] s = (Inr [Unread], snd (exec t [DEL ks] s))" using exec_eq [of t "[DEL ks]" s] by simp
  then have "Reset exec now t key s = Returns (None, snd (exec t [DEL ks] s))"
    using ks by (auto simp: Reset_def run_cmd_def split: prod.splits)
  moreover have "live t' (store (snd (exec t [DEL ks] s))) bk = None" for t'
    using store_exec [of t "[DEL ks]" s] live_fold_delete [OF bk] by simp
  ultimately show ?thesis by blast
qed

end

section \<open>Properties\<close>

text \<open>C14. Fail-closed limiting is sound: without fallback, the tokens that \<^verbatim>\<open>AllowN\<close> admits for a key
  within one bucket never exceed the limit, whatever calls fail and however much of a failed
  pipeline Redis has executed.  The bucket starts fresh and the requests reach Redis within the
  expiry the limiter sets (the window plus one second, in whole seconds).\<close>

theorem AllowN_bounded:
  assumes "redis_server exec store" and "\<not> fallback l" and "0 \<le> limit"
    and "in_bucket key bk window t0 (t0 + bucket_ttl window) rqs" and "live t0 (store s) bk = None"
  shows "admitted rqs (allow_run exec l key limit window rqs s) \<le> limit"
proof -
  have "bucket_count 0 t0 (t0 + bucket_ttl window) bk (store s)"
    using assms(5) by (simp add: bucket_count_def)
  from redis_server.allow_run_bounded [OF assms(1,2,4) order_refl this, of 0 limit] assms(3)
  show ?thesis by simp
qed

text \<open>C29. While Redis answers, \<^verbatim>\<open>AllowN\<close> is exact in both modes: in a fresh bucket a request is
  admitted, without error, precisely when the tokens requested so far, its own included, do not
  exceed the limit (refused requests count as well).\<close>

theorem AllowN_exact:
  assumes "healthy_redis exec store"
    and "in_bucket key bk window t0 (t0 + bucket_ttl window) rqs" and "live t0 (store s) bk = None"
    and "tokens rqs < 2 ^ 63"
  shows "allow_run exec l key limit window rqs s =
    map (\<lambda>i. Returns (tokens (take (Suc i) rqs) \<le> limit, None)) [0..<length rqs]"
proof -
  have "bucket_count 0 t0 (t0 + bucket_ttl window) bk (store s)"
    using assms(3) by (simp add: bucket_count_def)
  from healthy_redis.allow_run_exact [OF assms(1,2) order_refl this] assms(4)
  show ?thesis by simp
qed

text \<open>\<^verbatim>\<open>GetRemaining\<close> tells what \<^verbatim>\<open>Allow\<close> will do: with \<open>c\<close> tokens counted it is the limit less \<open>c\<close>,
  never negative, and the next request is admitted exactly when it is positive; after \<^verbatim>\<open>Reset\<close> the
  whole limit is available again in each of the windows it knows (a minute, an hour, a day).\<close>

theorem GetRemaining_predicts_Allow:
  assumes "healthy_redis exec store" and "0 \<le> limit" and "limit < 2 ^ 63"
    and "getBucketKey key now window = Returns bk" and "t < t1" and "t1 \<le> t + bucket_ttl window"
    and "bucket_count c t t1 bk (store s)" and "0 \<le> c" and "c + 1 < 2 ^ 63"
  shows "(\<exists>m s1 s2. GetRemaining exec now t key limit window s = Returns (Inr m, s1) \<and>
      m = max 0 (limit - c) \<and>
      Allow exec l now t key limit window s = Returns ((0 < m, None), s2)) \<and>
    (window \<in> {Minute, Hour, 24 * Hour} \<longrightarrow>
      (\<exists>s1 s2. Reset exec now t key s = Returns (None, s1) \<and>
        GetRemaining exec now t key limit window s1 = Returns (Inr limit, s2)))"
proof (intro conjI impI)
  have "0 < max 0 (limit - c) \<longleftrightarrow> c + 1 \<le> limit" by auto
  with healthy_redis.GetRemaining_count [OF assms(1,4,7,5,2,3,8)] assms(9)
    healthy_redis.Allow_count [OF assms(1,4,7,5,6,8,9), of l limit]
  show "\<exists>m s1 s2. GetRemaining exec now t key limit window s = Returns (Inr m, s1) \<and>
      m = max 0 (limit - c) \<and>
      Allow exec l now t key limit window s = Returns ((0 < m, None), s2)" by simp
next
  assume "window \<in> {Minute, Hour, 24 * Hour}"
  from healthy_redis.Reset_fresh [OF assms(1) this assms(4), of t s]
  obtain s' where s': "Reset exec now t key s = Returns (None, s')" "live t (store s') bk = None" by blast
  then have "bucket_count 0 t t1 bk (store s')" by (simp add: bucket_count_def)
  from healthy_redis.GetRemaining_count [OF assms(1,4) this assms(5,2,3)] s'(1) assms(2)
  show "\<exists>s1 s2. Reset exec now t key s = Returns (None, s1) \<and>
      GetRemaining exec now t key limit window s1 = Returns (Inr limit, s2)" by simp
qed

text \<open>C30. Buckets: the limiter panics (integer division by zero) exactly for windows whose absolute
  value is below one second; otherwise two requests share a counter exactly when their keys are equal and their
  times lie in the same bucket, and for windows of 1 to 60 whole seconds the buckets are the
  consecutive intervals of the window's length.\<close>

theorem getBucketKey_buckets:
  shows "(getBucketKey key now window = Panics \<longleftrightarrow> \<bar>window\<bar> < Second) \<and>
    (\<bar>window\<bar> \<ge> Second \<longrightarrow>
      (getBucketKey key now window = getBucketKey key' now' window \<longleftrightarrow>
       key = key' \<and> bucket_number now window = bucket_number now' window)) \<and>
    (0 \<le> now \<and> 0 < w \<and> w \<le> 60 \<longrightarrow> bucket_number now (w * Second) = now div (w * Second))"
  using getBucketKey_panics [of key now window] getBucketKey_inj [of window key now key' now']
    bucket_number_whole [of now w] by (auto simp: abs_less_iff abs_if split: if_splits)

text \<open>A fixed window admits twice the limit around a bucket boundary: with two requests per minute,
  four requests within two seconds are all admitted.\<close>

lemma minute_key:
  "getBucketKey key now Minute = Returns (''ratelimit:'' @ key @ '':'' @ FormatInt (bucket_number now Minute))"
  by (simp add: getBucketKey_Returns Minute_def Second_def)

lemma bucket_number_minute: "0 \<le> now \<Longrightarrow> bucket_number now Minute = now div Minute"
  using bucket_number_whole [of now 60] by (simp add: Minute_def)

lemma bucket_number_seconds: "0 \<le> k \<Longrightarrow> bucket_number (k * Second) Minute = k div 60"
  using bucket_number_minute [of "k * Second"] by (simp add: Minute_def Second_def)

lemma bucket_number_second: "bucket_number Second Minute = 0"
  using bucket_number_seconds [of 1] by simp

lemma Second_pos: "0 < Second" "0 \<le> Second" "\<not> Second < 0" "ttl_seconds (61 * Second) = 61 * Second"
  by (simp_all add: Second_def ttl_seconds_def)

lemma bucket_ttl_minute: "bucket_ttl Minute = 61 * Second"
  using wrap64_id [of "Minute + Second"] by (simp add: ttl_seconds_def Minute_def Second_def)

lemma wrap64_minute: "wrap64 (Minute + Second) = 61 * Second"
  using wrap64_id [of "Minute + Second"] by (simp add: Minute_def Second_def)

lemma AllowN_boundary_burst:
  "allow_run redis_run (NewTokenBucketLimiter True) ''user:1'' 2 Minute
     [(59 * Second, 59 * Second, 1), (59 * Second, 59 * Second, 1),
      (60 * Second, 60 * Second, 1), (60 * Second, 60 * Second, 1)] empty_redis =
   replicate 4 (Returns (True, None))"
  by (simp add: AllowN_def minute_key bucket_number_seconds wrap64_minute Second_pos
      redis_incrby_def live_def put_entry_def empty_redis_def int64_range_def numeral_eq_Suc)

definition demo_requests :: "request list" where
  "demo_requests = [(Second, Second, 1), (2 * Second, 2 * Second, 1), (3 * Second, 3 * Second, 1)]"

lemma demo_requests_in_bucket:
  "in_bucket ''u'' (''ratelimit:u:'' @ FormatInt 0) Minute 0 (0 + bucket_ttl Minute) demo_requests"
  by (simp add: demo_requests_def minute_key bucket_number_seconds bucket_number_second
      bucket_ttl_minute Second_pos wrap64_minute)

theorem AllowN_bounded_witness:
  "admitted demo_requests (allow_run demo_exec (NewTokenBucketLimiter False) ''u'' 2 Minute demo_requests
     (True, empty_redis)) \<le> 2"
  by (rule AllowN_bounded [OF demo_redis.redis_server_axioms _ _ demo_requests_in_bucket])
    (simp_all add: NewTokenBucketLimiter_def live_def empty_redis_def)

theorem AllowN_exact_witness:
  "allow_run redis_run (NewTokenBucketLimiter True) ''u'' 2 Minute demo_requests empty_redis =
   [Returns (True, None), Returns (True, None), Returns (False, None)]"
  using AllowN_exact [OF ref_redis.healthy_redis_axioms demo_requests_in_bucket, of empty_redis
      "NewTokenBucketLimiter True" 2]
  by (simp add: live_def empty_redis_def demo_requests_def upt_rec)

theorem GetRemaining_predicts_Allow_witness:
  "\<exists>s1 s2. GetRemaining redis_run Second Second ''u'' 5 Minute empty_redis = Returns (Inr 5, s1) \<and>
     Allow redis_run (NewTokenBucketLimiter True) Second Second ''u'' 5 Minute empty_redis = Returns ((True, None), s2)"
proof -
  have key: "getBucketKey ''u'' Second Minute = Returns (''ratelimit:u:'' @ FormatInt 0)"
    by (simp add: minute_key bucket_number_second)
  have "bucket_count 0 Second (2 * Second) (''ratelimit:u:'' @ FormatInt 0) (id empty_redis)"
    by (simp add: bucket_count_def live_def empty_redis_def)
  from GetRemaining_predicts_Allow [OF ref_redis.healthy_redis_axioms _ _ key _ _ this,
      of 5 "NewTokenBucketLimiter True"]
  show ?thesis by (simp add: bucket_ttl_minute Second_pos)
qed

theorem getBucketKey_buckets_witness:
  "getBucketKey ''u'' 7 (Second div 2) = Panics \<and> bucket_number (130 * Second) (60 * Second) = 2"
  using getBucketKey_buckets [of "''u''" 7 "Second div 2" "''u''" 7 60]
    getBucketKey_buckets [of "''u''" "130 * Second" 1 "''u''" 7 60]
  by (simp add: Second_def)

end
