(* ===== verification/Config.thy ===== *)
theory Config
  imports Prelude
begin

text \<open>
  The configuration of \<^verbatim>\<open>config/config.go\<close>: one record per struct.  Reading the file and decoding it
  are viper's; they are the two parameters of \<open>LoadConfig\<close>.
\<close>

record server_config =
  srv_Port :: int
  srv_Mode :: string

record postgres_config =
  pg_Host :: string
  pg_Port :: int
  pg_User :: string
  pg_Password :: string
  pg_DBName :: string
  pg_MaxIdleConns :: int
  pg_MaxOpenConns :: int
  pg_ConnMaxLifetime :: int

record redis_config =
  rd_Host :: string
  rd_Port :: int
  rd_Password :: string
  rd_DB :: int
  rd_PoolSize :: int
  rd_MinIdleConns :: int

record topics_config =
  tp_Message :: string
  tp_DLQ :: string

record producer_config =
  pr_MaxRetries :: int
  pr_RetryBackoffMs :: int

record consumer_config =
  co_MaxRetries :: int
  co_RetryBackoffMs :: int

record kafka_config =
  kf_Brokers :: "string list"
  kf_Topics :: topics_config
  kf_ConsumerGroup :: string
  kf_Producer :: producer_config
  kf_Consumer :: consumer_config

record jwt_config =
  jw_Secret :: string
  jw_ExpireHours :: int
  jw_RefreshHours :: int

record snowflake_config =
  sc_WorkerIDBits :: int
  sc_SequenceBits :: int
  sc_DatacenterID :: int
  sc_WorkerID :: int

record ratelimit_config =
  rl_RegisterPerMinute :: int
  rl_LoginPerMinute :: int
  rl_MessagePerMinute :: int
  rl_APIPerMinute :: int

record websocket_config =
  ws_ReadBufferSize :: int
  ws_WriteBufferSize :: int
  ws_HeartbeatInterval :: int
  ws_ConnectionTimeout :: int

record grpc_config =
  gr_Port :: int
  gr_MaxConnectionIdle :: int
  gr_MaxConnectionAge :: int

record worker_pool_config =
  wp_Size :: int
  wp_QueueSize :: int

record logging_config =
  lg_Level :: string
  lg_Format :: string
  lg_Output :: string
  lg_FilePath :: string

record config =
  cfg_Server :: server_config
  cfg_Postgres :: postgres_config
  cfg_Redis :: redis_config
  cfg_Kafka :: kafka_config
  cfg_JWT :: jwt_config
  cfg_Snowflake :: snowflake_config
  cfg_RateLimit :: ratelimit_config
  cfg_Websocket :: websocket_config
  cfg_GRPC :: grpc_config
  cfg_WorkerPool :: worker_pool_config
  cfg_Logging :: logging_config

text \<open>\<open>readInConfig\<close> and \<open>unmarshal\<close> are viper's; the messages are Chinese in the source.\<close>

definition LoadConfig :: "(string \<Rightarrow> 'v result) \<Rightarrow> ('v \<Rightarrow> config result) \<Rightarrow> string \<Rightarrow> config result" where
  "LoadConfig readInConfig unmarshal path =
     (case readInConfig path of
        Inl e \<Rightarrow> Inl (Wrap ''reading the configuration file failed'' e)
      | Inr v \<Rightarrow>
          (case unmarshal v of
             Inl e \<Rightarrow> Inl (Wrap ''parsing the configuration failed'' e)
           | Inr cfg \<Rightarrow> Inr cfg))"

end
