(* ===== verification/Kafka.thy ===== *)
theory Kafka
  imports Config
begin

text \<open>
  The Kafka producer and consumer of \<^verbatim>\<open>internal/pkg/kafka\<close>.  Sarama and the brokers are parameters:
  \<open>send\<close> is \<^verbatim>\<open>SyncProducer.SendMessage\<close>, its contract the locale \<open>kafka_broker\<close>.  The world \<^typ>\<open>'s\<close>
  also holds what \<^verbatim>\<open>ctx.Err()\<close> reads (\<open>ctx_err\<close>) and advances while the code sleeps (\<open>sleep\<close>, in
  nanoseconds).  The retry loop that producer and consumer share is \<open>retry_loop\<close>.  The session
  handling of the consumer group, with its ready channel, is the step relation \<open>group_step\<close>.
\<close>

section \<open>The retry loop\<close>

type_synonym ('a, 's) action = "'s \<Rightarrow> 'a result \<times> 's"

definition wrap_last :: "string \<Rightarrow> go_error option \<Rightarrow> go_error" where
  "wrap_last msg lastErr = (case lastErr of None \<Rightarrow> Err (msg @ '': %!w(<nil>)'') | Some e \<Rightarrow> Wrap msg e)"

function retry_loop :: "('s \<Rightarrow> go_error option) \<Rightarrow> (int \<Rightarrow> 's \<Rightarrow> 's) \<Rightarrow> ('a, 's) action \<Rightarrow> string \<Rightarrow>
    int \<Rightarrow> int \<Rightarrow> int \<Rightarrow> go_error option \<Rightarrow> ('a, 's) action" where
  "retry_loop ctx_err sleep op msg maxRetries attempt backoff lastErr s =
     (if attempt \<le> maxRetries then
        (case ctx_err s of
           Some e \<Rightarrow> (Inl e, s)
         | None \<Rightarrow>
             (case op s of
                (Inr v, s') \<Rightarrow> (Inr v, s')
              | (Inl e, s') \<Rightarrow>
                  if attempt < maxRetries
                  then retry_loop ctx_err sleep op msg maxRetries (attempt + 1) (wrap64 (backoff * 2))
                         (Some e) (sleep backoff s')
                  else retry_loop ctx_err sleep op msg maxRetries (attempt + 1) backoff (Some e) s'))
      else (Inl (wrap_last msg lastErr), s))"
  by pat_completeness auto
termination
  by (relation "measure (\<lambda>(c, sl, op, msg, maxRetries, attempt, _). nat (maxRetries + 1 - attempt))") auto

declare retry_loop.simps [simp del]

definition Millisecond :: int where "Millisecond = 10 ^ 6"

section \<open>The producer\<close>

record producer_message =
  pm_Topic :: string
  pm_Key :: "string option"
  pm_Value :: string

text \<open>A nil key and a missing key are both \<open>None\<close>.\<close>

definition Produce :: "(producer_message \<Rightarrow> (int \<times> int, 's) action) \<Rightarrow> string \<Rightarrow> string option \<Rightarrow> string
    \<Rightarrow> (int \<times> int, 's) action" where
  "Produce send topic key v s =
     (case send \<lparr>pm_Topic = topic, pm_Key = key, pm_Value = v\<rparr> s of
        (Inl e, s') \<Rightarrow> (Inl (Wrap (''failed to send message to topic '' @ topic) e), s')
      | (Inr po, s') \<Rightarrow> (Inr po, s'))"

definition ProduceWithRetry :: "(producer_message \<Rightarrow> (int \<times> int, 's) action) \<Rightarrow> ('s \<Rightarrow> go_error option) \<Rightarrow>
    (int \<Rightarrow> 's \<Rightarrow> 's) \<Rightarrow> kafka_config \<Rightarrow> string \<Rightarrow> string option \<Rightarrow> string \<Rightarrow> int \<Rightarrow> (int \<times> int, 's) action" where
  "ProduceWithRetry send ctx_err sleep cfg topic key v maxRetries =
     retry_loop ctx_err sleep (Produce send topic key v)
       (''failed to send message after '' @ FormatInt maxRetries @ '' attempts'')
       maxRetries 0 (wrap64 (pr_RetryBackoffMs (kf_Producer cfg) * Millisecond)) None"

text \<open>\<^verbatim>\<open>NewProducer\<close> passes its settings to sarama; a connection error is wrapped.\<close>

record sarama_config =
  ReturnSuccesses :: bool
  ReturnErrors :: bool
  RequiredAcksAll :: bool
  RetryMax :: int
  RetryBackoff :: int
  CompressionSnappy :: bool
  Idempotent :: bool
  MaxOpenRequests :: int
  DialTimeout :: int
  ReadTimeout :: int
  WriteTimeout :: int
  MetadataRetryMax :: int
  MetadataRetryBackoff :: int
  MetadataTimeout :: int

definition producer_settings :: "kafka_config \<Rightarrow> sarama_config" where
  "producer_settings cfg =
     \<lparr>ReturnSuccesses = True, ReturnErrors = True, RequiredAcksAll = True,
      RetryMax = pr_MaxRetries (kf_Producer cfg),
      RetryBackoff = wrap64 (pr_RetryBackoffMs (kf_Producer cfg) * Millisecond),
      CompressionSnappy = True, Idempotent = True, MaxOpenRequests = 1,
      DialTimeout = 10 * 10 ^ 9, ReadTimeout = 10 * 10 ^ 9, WriteTimeout = 10 * 10 ^ 9,
      MetadataRetryMax = 3, MetadataRetryBackoff = 250 * Millisecond, MetadataTimeout = 10 * 10 ^ 9\<rparr>"

definition NewProducer :: "(string list \<Rightarrow> sarama_config \<Rightarrow> ('p, 's) action) \<Rightarrow> kafka_config \<Rightarrow>
    ('p \<times> kafka_config, 's) action" where
  "NewProducer newSyncProducer cfg s =
     (case newSyncProducer (kf_Brokers cfg) (producer_settings cfg) s of
        (Inl e, s') \<Rightarrow> (Inl (Wrap ''failed to create kafka producer'' e), s')
      | (Inr p, s') \<Rightarrow> (Inr (p, cfg), s'))"

definition producer_Close :: "('p \<Rightarrow> 's \<Rightarrow> go_error option \<times> 's) \<Rightarrow> 'p option \<Rightarrow> 's \<Rightarrow> go_error option \<times> 's" where
  "producer_Close close p s =
     (case p of
        None \<Rightarrow> (None, s)
      | Some pr \<Rightarrow> (case close pr s of
           (Some e, s') \<Rightarrow> (Some (Wrap ''failed to close kafka producer'' e), s')
         | (None, s') \<Rightarrow> (None, s')))"

section \<open>The consumer\<close>

record consumer_message =
  cm_Topic :: string
  cm_Partition :: int
  cm_Offset :: int
  cm_Key :: "string option"
  cm_Value :: string

type_synonym 's handler = "consumer_message \<Rightarrow> 's \<Rightarrow> go_error option \<times> 's"

definition handler_action :: "'s handler \<Rightarrow> consumer_message \<Rightarrow> (unit, 's) action" where
  "handler_action h m s = (case h m s of (None, s') \<Rightarrow> (Inr (), s') | (Some e, s') \<Rightarrow> (Inl e, s'))"

definition processMessageWithRetry :: "('s \<Rightarrow> go_error option) \<Rightarrow> (int \<Rightarrow> 's \<Rightarrow> 's) \<Rightarrow> kafka_config \<Rightarrow>
    's handler \<Rightarrow> consumer_message \<Rightarrow> (unit, 's) action" where
  "processMessageWithRetry ctx_err sleep cfg h m =
     retry_loop ctx_err sleep (handler_action h m)
       (''failed after '' @ FormatInt (co_MaxRetries (kf_Consumer cfg)) @ '' retries'')
       (co_MaxRetries (kf_Consumer cfg)) 0
       (wrap64 (co_RetryBackoffMs (kf_Consumer cfg) * Millisecond)) None"

text \<open>\<open>println\<close> is a line on standard output.\<close>

definition dlq_notice :: "consumer_message \<Rightarrow> go_error \<Rightarrow> string" where
  "dlq_notice m processingErr =
     ''Message sent to DLQ. Topic: '' @ cm_Topic m @ '', Partition: '' @ FormatInt (cm_Partition m) @
     '', Offset: '' @ FormatInt (cm_Offset m) @ '', Error: '' @ error_text processingErr"

definition sendToDLQ :: "(string \<Rightarrow> 's \<Rightarrow> 's) \<Rightarrow> (producer_message \<Rightarrow> (int \<times> int, 's) action) \<Rightarrow> kafka_config \<Rightarrow>
    consumer_message \<Rightarrow> go_error \<Rightarrow> 's \<Rightarrow> go_error option \<times> 's" where
  "sendToDLQ println send cfg m processingErr s =
     (case Produce send (tp_DLQ (kf_Topics cfg)) (cm_Key m) (cm_Value m) s of
        (Inl e, s') \<Rightarrow> (Some (Wrap ''failed to send message to DLQ'' e), s')
      | (Inr po, s') \<Rightarrow> (None, println (dlq_notice m processingErr) s'))"

text \<open>\<^verbatim>\<open>ConsumeClaim\<close>: what its \<^verbatim>\<open>select\<close> takes at each turn is the list of events; the messages it
  marks are the second result.\<close>

datatype claim_event = ClaimMessage consumer_message | ClaimClosed | ContextDone

definition consume_one :: "(string \<Rightarrow> 's \<Rightarrow> 's) \<Rightarrow> (producer_message \<Rightarrow> (int \<times> int, 's) action) \<Rightarrow> ('s \<Rightarrow> go_error option) \<Rightarrow>
    (int \<Rightarrow> 's \<Rightarrow> 's) \<Rightarrow> kafka_config \<Rightarrow> 's handler \<Rightarrow> consumer_message \<Rightarrow> 's \<Rightarrow> 's" where
  "consume_one println send ctx_err sleep cfg h m s =
     (case processMessageWithRetry ctx_err sleep cfg h m s of
        (Inl e, s') \<Rightarrow>
          (case sendToDLQ println send cfg m e s' of
             (Some dlqErr, s'') \<Rightarrow> println (''Failed to send message to DLQ: '' @ error_text dlqErr) s''
           | (None, s'') \<Rightarrow> s'')
      | (Inr u, s') \<Rightarrow> s')"

fun ConsumeClaim :: "(string \<Rightarrow> 's \<Rightarrow> 's) \<Rightarrow> (producer_message \<Rightarrow> (int \<times> int, 's) action) \<Rightarrow> ('s \<Rightarrow> go_error option) \<Rightarrow>
    (int \<Rightarrow> 's \<Rightarrow> 's) \<Rightarrow> kafka_config \<Rightarrow> 's handler \<Rightarrow> claim_event list \<Rightarrow> 's \<Rightarrow> 's \<times> consumer_message list" where
  "ConsumeClaim println send ctx_err sleep cfg h (ClaimMessage m # evs) s =
     (let (s', marked) = ConsumeClaim println send ctx_err sleep cfg h evs (consume_one println send ctx_err sleep cfg h m s)
      in (s', m # marked))"
| "ConsumeClaim println send ctx_err sleep cfg h _ s = (s, [])"

text \<open>Construction: the group is closed again when the DLQ producer cannot be created.\<close>

record group_settings =
  GroupVersion :: string
  RebalanceStrategy :: string
  OffsetsInitialNewest :: bool
  GroupReturnErrors :: bool
  GroupTimeouts :: "int list"

definition consumer_settings :: group_settings where
  "consumer_settings =
     \<lparr>GroupVersion = ''2.6.0.0'', RebalanceStrategy = ''roundrobin'', OffsetsInitialNewest = True,
      GroupReturnErrors = True,
      GroupTimeouts = [10 * 10 ^ 9, 10 * 10 ^ 9, 10 * 10 ^ 9, 3, 250 * Millisecond, 10 * 10 ^ 9]\<rparr>"

definition NewConsumer :: "(string list \<Rightarrow> string \<Rightarrow> group_settings \<Rightarrow> ('g, 's) action) \<Rightarrow>
    (string list \<Rightarrow> sarama_config \<Rightarrow> ('p, 's) action) \<Rightarrow> ('g \<Rightarrow> 's \<Rightarrow> go_error option \<times> 's) \<Rightarrow> kafka_config \<Rightarrow>
    ('g \<times> 'p \<times> kafka_config, 's) action" where
  "NewConsumer newConsumerGroup newSyncProducer closeGroup cfg s =
     (case newConsumerGroup (kf_Brokers cfg) (kf_ConsumerGroup cfg) consumer_settings s of
        (Inl e, s1) \<Rightarrow> (Inl (Wrap ''failed to create kafka consumer group'' e), s1)
      | (Inr g, s1) \<Rightarrow>
          (case NewProducer newSyncProducer cfg s1 of
             (Inl e, s2) \<Rightarrow> (Inl (Wrap ''failed to create DLQ producer'' e), snd (closeGroup g s2))
           | (Inr (p, c), s2) \<Rightarrow> (Inr (g, p, cfg), s2)))"

text \<open>\<^verbatim>\<open>Stop\<close>: cancel, wait for the consuming goroutine (\<open>stop_loop\<close>), then close both clients.\<close>

definition consumer_Stop :: "('s \<Rightarrow> 's) \<Rightarrow> ('s \<Rightarrow> go_error option \<times> 's) \<Rightarrow> ('p \<Rightarrow> 's \<Rightarrow> go_error option \<times> 's) \<Rightarrow>
    'p option \<Rightarrow> 's \<Rightarrow> go_error option \<times> 's" where
  "consumer_Stop stop_loop closeGroup closeProducer dlq s =
     (case closeGroup (stop_loop s) of
        (Some e, s1) \<Rightarrow> (Some (Wrap ''failed to close kafka consumer group'' e), s1)
      | (None, s1) \<Rightarrow>
          (case producer_Close closeProducer dlq s1 of
             (Some e, s2) \<Rightarrow> (Some (Wrap ''failed to close DLQ producer'' e), s2)
           | (None, s2) \<Rightarrow> (None, s2)))"

section \<open>What the retry loop does\<close>

text \<open>The world before attempt \<open>j\<close>, when all earlier attempts failed: the backoff doubles.\<close>

primrec before_attempt :: "(int \<Rightarrow> 's \<Rightarrow> 's) \<Rightarrow> ('a, 's) action \<Rightarrow> int \<Rightarrow> 's \<Rightarrow> nat \<Rightarrow> 's" where
  "before_attempt sleep op backoff s 0 = s"
| "before_attempt sleep op backoff s (Suc j) =
     sleep (backoff * 2 ^ j) (snd (op (before_attempt sleep op backoff s j)))"

lemma before_attempt_shift:
  "before_attempt sleep op backoff s (Suc j) =
   before_attempt sleep op (backoff * 2) (sleep backoff (snd (op s))) j"
  by (induction j) (simp_all add: mult.assoc)

text \<open>How a run of the loop ends.\<close>

definition retry_succeeds :: "('s \<Rightarrow> go_error option) \<Rightarrow> ('a, 's) action \<Rightarrow> (nat \<Rightarrow> 's) \<Rightarrow> nat \<Rightarrow> 'a result \<times> 's \<Rightarrow> bool" where
  "retry_succeeds ctx_err op st n out \<longleftrightarrow>
     (\<exists>j \<le> n. (\<forall>i \<le> j. ctx_err (st i) = None) \<and> (\<forall>i < j. isl (fst (op (st i)))) \<and>
        \<not> isl (fst (op (st j))) \<and> out = op (st j))"

definition retry_cancelled :: "('s \<Rightarrow> go_error option) \<Rightarrow> ('a, 's) action \<Rightarrow> (nat \<Rightarrow> 's) \<Rightarrow> nat \<Rightarrow> 'a result \<times> 's \<Rightarrow> bool" where
  "retry_cancelled ctx_err op st n out \<longleftrightarrow>
     (\<exists>j \<le> n. \<exists>e. (\<forall>i < j. ctx_err (st i) = None) \<and> (\<forall>i < j. isl (fst (op (st i)))) \<and>
        ctx_err (st j) = Some e \<and> out = (Inl e, st j))"

definition retry_exhausted :: "('s \<Rightarrow> go_error option) \<Rightarrow> ('a, 's) action \<Rightarrow> (nat \<Rightarrow> 's) \<Rightarrow> nat \<Rightarrow> string \<Rightarrow> 'a result \<times> 's \<Rightarrow> bool" where
  "retry_exhausted ctx_err op st n msg out \<longleftrightarrow>
     (\<forall>i \<le> n. ctx_err (st i) = None \<and> isl (fst (op (st i)))) \<and>
     (\<exists>e. op (st n) = (Inl e, snd out) \<and> fst out = Inl (Wrap msg e))"

lemma all_less_Suc: "(\<forall>i < Suc n. P i) \<longleftrightarrow> P 0 \<and> (\<forall>i < n. P (Suc i))"
  using less_Suc_eq_0_disj by auto

lemma all_le_Suc: "(\<forall>i \<le> Suc n. P i) \<longleftrightarrow> P 0 \<and> (\<forall>i \<le> n. P (Suc i))"
  using all_less_Suc [of "Suc n" P] by (simp add: less_Suc_eq_le)

lemma retry_shift:
  assumes "ctx_err (st 0) = None" and "isl (fst (op (st 0)))"
  shows retry_succeeds_Suc:
      "retry_succeeds ctx_err op (\<lambda>j. st (Suc j)) n out \<Longrightarrow> retry_succeeds ctx_err op st (Suc n) out"
    and retry_cancelled_Suc:
      "retry_cancelled ctx_err op (\<lambda>j. st (Suc j)) n out \<Longrightarrow> retry_cancelled ctx_err op st (Suc n) out"
    and retry_exhausted_Suc:
      "retry_exhausted ctx_err op (\<lambda>j. st (Suc j)) n msg out \<Longrightarrow> retry_exhausted ctx_err op st (Suc n) msg out"
proof -
  assume "retry_succeeds ctx_err op (\<lambda>j. st (Suc j)) n out"
  then obtain j where "j \<le> n" "\<forall>i \<le> j. ctx_err (st (Suc i)) = None" "\<forall>i < j. isl (fst (op (st (Suc i))))"
    "\<not> isl (fst (op (st (Suc j))))" "out = op (st (Suc j))" unfolding retry_succeeds_def by blast
  with assms show "retry_succeeds ctx_err op st (Suc n) out"
    unfolding retry_succeeds_def by (intro exI [of _ "Suc j"]) (simp add: all_less_Suc all_le_Suc)
next
  assume "retry_cancelled ctx_err op (\<lambda>j. st (Suc j)) n out"
  then obtain j e where "j \<le> n" "\<forall>i < j. ctx_err (st (Suc i)) = None" "\<forall>i < j. isl (fst (op (st (Suc i))))"
    "ctx_err (st (Suc j)) = Some e" "out = (Inl e, st (Suc j))" unfolding retry_cancelled_def by blast
  with assms show "retry_cancelled ctx_err op st (Suc n) out"
    unfolding retry_cancelled_def by (intro exI [of _ "Suc j"]) (simp add: all_less_Suc)
next
  assume "retry_exhausted ctx_err op (\<lambda>j. st (Suc j)) n msg out"
  with assms show "retry_exhausted ctx_err op st (Suc n) msg out"
    unfolding retry_exhausted_def by (simp add: all_le_Suc)
qed

text \<open>An attempt that succeeds or is cancelled ends the loop.\<close>

lemma retry_ends:
  assumes "attempt \<le> maxRetries" and "\<not> (ctx_err s = None \<and> isl (fst (op s)))" and "st 0 = s"
  shows "retry_succeeds ctx_err op st n (retry_loop ctx_err sleep op msg maxRetries attempt backoff lastErr s) \<or>
    retry_cancelled ctx_err op st n (retry_loop ctx_err sleep op msg maxRetries attempt backoff lastErr s)"
proof (cases "ctx_err s")
  case None
  with assms have "retry_loop ctx_err sleep op msg maxRetries attempt backoff lastErr s = op s"
    by (auto simp: retry_loop.simps [of ctx_err sleep op msg maxRetries attempt] split: sum.splits prod.splits)
  with assms None show ?thesis unfolding retry_succeeds_def by (intro disjI1 exI [of _ 0]) simp
next
  case (Some e)
  with assms have "retry_loop ctx_err sleep op msg maxRetries attempt backoff lastErr s = (Inl e, s)"
    by (simp add: retry_loop.simps [of ctx_err sleep op msg maxRetries attempt])
  with assms Some show ?thesis unfolding retry_cancelled_def by (intro disjI2 exI [of _ 0]) simp
qed

lemma retry_loop_cases:
  assumes "0 \<le> backoff" and "backoff * 2 ^ n < 2 ^ 63" and "maxRetries = attempt + int n"
  shows "let st = before_attempt sleep op backoff s;
             out = retry_loop ctx_err sleep op msg maxRetries attempt backoff lastErr s
    in retry_succeeds ctx_err op st n out \<or> retry_cancelled ctx_err op st n out \<or>
       retry_exhausted ctx_err op st n msg out"
  using assms
proof (induction n arbitrary: attempt backoff lastErr s)
  case 0
  then have "maxRetries = attempt" by simp
  then have "retry_loop ctx_err sleep op msg maxRetries attempt backoff lastErr s =
      (case ctx_err s of Some e \<Rightarrow> (Inl e, s) | None \<Rightarrow>
        (case op s of (Inr v, s') \<Rightarrow> (Inr v, s') | (Inl e, s') \<Rightarrow> (Inl (Wrap msg e), s')))"
    by (simp add: retry_loop.simps [of ctx_err sleep op msg attempt attempt]
        retry_loop.simps [of ctx_err sleep op msg attempt "attempt + 1"] wrap_last_def
        split: option.split sum.split prod.split)
  then show ?case
    by (cases "ctx_err s"; cases "op s"; cases "fst (op s)")
      (simp_all add: retry_succeeds_def retry_cancelled_def retry_exhausted_def)
next
  case (Suc n)
  define st where "st = before_attempt sleep op backoff s"
  define out where "out = retry_loop ctx_err sleep op msg maxRetries attempt backoff lastErr s"
  have le: "attempt \<le> maxRetries" "attempt < maxRetries" using Suc.prems(3) by auto
  show ?case
  proof (cases "ctx_err s = None \<and> isl (fst (op s))")
    case False
    have "retry_succeeds ctx_err op st (Suc n) out \<or> retry_cancelled ctx_err op st (Suc n) out"
      unfolding out_def using le(1) False by (intro retry_ends) (simp_all add: st_def)
    then show ?thesis unfolding Let_def st_def out_def by blast
  next
    case True
    then obtain e s1 where op: "op s = (Inl e, s1)" by (cases "op s"; cases "fst (op s)") auto
    define s2 where "s2 = sleep backoff s1"
    have b: "0 \<le> backoff * 2" "backoff * 2 * 2 ^ n < 2 ^ 63" using Suc.prems by (auto simp: mult.assoc)
    have "backoff * 2 \<le> backoff * 2 * 2 ^ n" using b(1) by (simp add: mult_le_cancel_left1)
    then have "wrap64 (backoff * 2) = backoff * 2" using b by (intro wrap64_id) linarith+
    then have out: "out = retry_loop ctx_err sleep op msg maxRetries (attempt + 1) (backoff * 2) (Some e) s2"
      using True op le by (simp add: out_def s2_def retry_loop.simps [of ctx_err sleep op msg maxRetries attempt])
    have shift: "(\<lambda>j. st (Suc j)) = before_attempt sleep op (backoff * 2) s2"
      unfolding st_def s2_def before_attempt_shift by (simp add: op)
    have st0: "ctx_err (st 0) = None" "isl (fst (op (st 0)))" using True by (simp_all add: st_def)
    from Suc.IH [OF b, of "attempt + 1" s2 "Some e"] Suc.prems(3)
    have "retry_succeeds ctx_err op (\<lambda>j. st (Suc j)) n out \<or>
        retry_cancelled ctx_err op (\<lambda>j. st (Suc j)) n out \<or>
        retry_exhausted ctx_err op (\<lambda>j. st (Suc j)) n msg out" unfolding shift by (simp add: out Let_def)
    then show ?thesis using retry_shift [of ctx_err st op, OF st0]
      unfolding Let_def st_def [symmetric] out_def [symmetric] by blast
  qed
qed

text \<open>What operation and sleep preserve, the loop preserves.\<close>

lemma retry_loop_preserves:
  assumes "\<And>s. P s \<Longrightarrow> P (snd (op s))" and "\<And>d s. P s \<Longrightarrow> P (sleep d s)" and "P s"
  shows "P (snd (retry_loop ctx_err sleep op msg maxRetries attempt backoff lastErr s))"
  using assms
proof (induction ctx_err sleep op msg maxRetries attempt backoff lastErr s rule: retry_loop.induct)
  case (1 ctx_err sleep op msg maxRetries attempt backoff lastErr s)
  obtain res s1 where op: "op s = (res, s1)" by fastforce
  have P1: "P s1" using "1.prems"(1) [OF "1.prems"(3)] op by simp
  show ?case
  proof (cases "attempt \<le> maxRetries \<and> ctx_err s = None \<and> isl res")
    case True
    then obtain e where e: "res = Inl e" by (auto simp: isl_def)
    then show ?thesis
      using "1.IH"(1) [of res s1 e, OF _ _ op [symmetric]] "1.IH"(2) [of res s1 e, OF _ _ op [symmetric]]
        True "1.prems"(1,2) P1 op
      by (simp add: retry_loop.simps [of ctx_err sleep op msg maxRetries attempt])
  next
    case False
    then show ?thesis using "1.prems"(3) P1 op
      by (auto simp: retry_loop.simps [of ctx_err sleep op msg maxRetries attempt]
          split: option.splits sum.splits)
  qed
qed

section \<open>The brokers, and what becomes of a consumed message\<close>

text \<open>\<^verbatim>\<open>SendMessage\<close> appends the message to its topic when it reports success; when it reports an error
  the message may still have been stored.\<close>

locale kafka_broker =
  fixes send :: "producer_message \<Rightarrow> (int \<times> int, 's) action" and log :: "'s \<Rightarrow> producer_message list"
  assumes send_ok: "send m s = (Inr po, s') \<Longrightarrow> log s' = log s @ [m]"
    and send_err: "send m s = (Inl e, s') \<Longrightarrow> log s' = log s \<or> log s' = log s @ [m]"
begin

lemma Produce_ok:
  "Produce send topic key v s = (Inr po, s') \<Longrightarrow>
     log s' = log s @ [\<lparr>pm_Topic = topic, pm_Key = key, pm_Value = v\<rparr>]"
  by (auto simp: Produce_def split: prod.splits sum.splits dest: send_ok)

lemma Produce_appends:
  "log (snd (Produce send topic key v s)) = log s \<or>
   log (snd (Produce send topic key v s)) = log s @ [\<lparr>pm_Topic = topic, pm_Key = key, pm_Value = v\<rparr>]"
proof -
  obtain res s' where "send \<lparr>pm_Topic = topic, pm_Key = key, pm_Value = v\<rparr> s = (res, s')" by fastforce
  then show ?thesis by (cases res) (auto simp: Produce_def dest: send_ok send_err)
qed

lemma Produce_grows: "set (log s) \<subseteq> set (log (snd (Produce send topic key v s)))"
  using Produce_appends [of topic key v s] by auto

end

text \<open>The consumer's environment: handler, time and standard output only add to the log.\<close>

locale consumer_world = kafka_broker +
  fixes sleep :: "int \<Rightarrow> 's \<Rightarrow> 's" and h :: "'s handler" and println :: "string \<Rightarrow> 's \<Rightarrow> 's"
  assumes sleep_grows: "set (log s) \<subseteq> set (log (sleep d s))"
    and handler_grows: "set (log s) \<subseteq> set (log (snd (h m s)))"
    and println_grows: "set (log s) \<subseteq> set (log (println l s))"
begin

lemma process_grows: "set (log s) \<subseteq> set (log (snd (processMessageWithRetry ctx_err sleep cfg h m s)))"
  unfolding processMessageWithRetry_def
proof (rule retry_loop_preserves [where P = "\<lambda>s'. set (log s) \<subseteq> set (log s')"])
  fix s' assume "set (log s) \<subseteq> set (log s')"
  then show "set (log s) \<subseteq> set (log (snd (handler_action h m s')))"
    using handler_grows [of s' m] by (auto simp: handler_action_def split: prod.splits option.splits)
qed (use sleep_grows in blast)+

lemma sendToDLQ_grows:
  "set (log (snd (Produce send (tp_DLQ (kf_Topics cfg)) (cm_Key m) (cm_Value m) s))) \<subseteq> set (log (snd (sendToDLQ println send cfg m e s)))"
  using println_grows by (fastforce simp: sendToDLQ_def split: prod.split sum.split)

lemma dead_letter_grows:
  assumes "processMessageWithRetry ctx_err sleep cfg h m s = (Inl e, s1)"
  shows "set (log (snd (sendToDLQ println send cfg m e s1))) \<subseteq> set (log (consume_one println send ctx_err sleep cfg h m s))"
  using assms println_grows by (fastforce simp: consume_one_def split: prod.split option.split)

lemma consume_one_grows: "set (log s) \<subseteq> set (log (consume_one println send ctx_err sleep cfg h m s))"
proof -
  obtain res s1 where p: "processMessageWithRetry ctx_err sleep cfg h m s = (res, s1)" by fastforce
  have s1: "set (log s) \<subseteq> set (log s1)" using process_grows [of s ctx_err cfg m] p by simp
  show ?thesis
  proof (cases res)
    case (Inl e)
    then show ?thesis
      using s1 Produce_grows sendToDLQ_grows dead_letter_grows [of ctx_err cfg m s e s1] p by (meson subset_trans)
  next
    case (Inr u)
    then show ?thesis using s1 p by (simp add: consume_one_def)
  qed
qed

end

text \<open>The message as it is stored in the dead letter queue.\<close>

definition dlq_copy :: "kafka_config \<Rightarrow> consumer_message \<Rightarrow> producer_message" where
  "dlq_copy cfg m = \<lparr>pm_Topic = tp_DLQ (kf_Topics cfg), pm_Key = cm_Key m, pm_Value = cm_Value m\<rparr>"

text \<open>The messages of a claim up to the event that ends it.\<close>

fun claimed :: "claim_event list \<Rightarrow> consumer_message list" where
  "claimed (ClaimMessage m # evs) = m # claimed evs"
| "claimed _ = []"

lemma ConsumeClaim_marked: "snd (ConsumeClaim println send ctx_err sleep cfg h evs s) = claimed evs"
  by (induction evs arbitrary: s rule: claimed.induct) (simp_all add: Let_def case_prod_beta)

lemma ConsumeClaim_state: "fst (ConsumeClaim println send ctx_err sleep cfg h evs s) =
    fold (consume_one println send ctx_err sleep cfg h) (claimed evs) s"
  by (induction evs arbitrary: s rule: claimed.induct) (simp_all add: Let_def case_prod_beta)

context consumer_world
begin

lemma fold_consume_grows: "set (log s) \<subseteq> set (log (fold (consume_one println send ctx_err sleep cfg h) ms s))"
proof (induction ms arbitrary: s)
  case (Cons m ms)
  show ?case using consume_one_grows [of s ctx_err cfg m] Cons [of "consume_one println send ctx_err sleep cfg h m s"]
    by auto
qed simp

lemma consume_one_outcome:
  assumes "\<And>s. \<not> isl (fst (send (dlq_copy cfg m) s))"
  shows "fst (processMessageWithRetry ctx_err sleep cfg h m s) = Inr () \<or>
    dlq_copy cfg m \<in> set (log (consume_one println send ctx_err sleep cfg h m s))"
proof -
  obtain res s1 where p: "processMessageWithRetry ctx_err sleep cfg h m s = (res, s1)" by fastforce
  obtain po s2 where "send (dlq_copy cfg m) s1 = (Inr po, s2)"
    using assms [of s1] by (metis isl_def obj_sumE prod.exhaust_sel)
  then have prod: "Produce send (tp_DLQ (kf_Topics cfg)) (cm_Key m) (cm_Value m) s1 = (Inr po, s2)"
    by (simp add: Produce_def dlq_copy_def)
  then have "dlq_copy cfg m \<in> set (log (snd (sendToDLQ println send cfg m e s1)))" for e
    using Produce_ok [OF prod] sendToDLQ_grows [of cfg m s1 e] by (auto simp: dlq_copy_def)
  then show ?thesis using p dead_letter_grows [of ctx_err cfg m s] by (cases res) auto
qed

lemma no_loss:
  assumes "\<And>m s. \<not> isl (fst (send (dlq_copy cfg m) s))" and "k < length ms"
  shows "fst (processMessageWithRetry ctx_err sleep cfg h (ms ! k)
        (fold (consume_one println send ctx_err sleep cfg h) (take k ms) s)) = Inr () \<or>
    dlq_copy cfg (ms ! k) \<in> set (log (fold (consume_one println send ctx_err sleep cfg h) ms s))"
proof -
  define sk where "sk = fold (consume_one println send ctx_err sleep cfg h) (take k ms) s"
  have "ms = take k ms @ ms ! k # drop (Suc k) ms" using assms(2) by (simp add: id_take_nth_drop)
  then have "fold (consume_one println send ctx_err sleep cfg h) ms s =
      fold (consume_one println send ctx_err sleep cfg h) (drop (Suc k) ms)
        (consume_one println send ctx_err sleep cfg h (ms ! k) sk)"
    unfolding sk_def by (metis comp_apply fold.simps(2) fold_append)
  then show ?thesis
    using consume_one_outcome [of cfg "ms ! k" ctx_err sk, OF assms(1)]
      fold_consume_grows [of "consume_one println send ctx_err sleep cfg h (ms ! k) sk" ctx_err cfg "drop (Suc k) ms"]
    unfolding sk_def [symmetric] by auto
qed

end

section \<open>Sessions and the ready channel\<close>

text \<open>The goroutine of \<^verbatim>\<open>Start\<close>, the session callbacks and the waiting caller.  Channels are numbered;
  \<open>gs_ready\<close> is the field \<^verbatim>\<open>c.ready\<close>, \<open>gs_closed\<close> the closed channels.  Sarama calls \<^verbatim>\<open>Setup\<close> at most once
  per call of \<^verbatim>\<open>Consume\<close>, which may also fail before.\<close>

datatype group_phase = LoopTop | InConsume bool | LoopDone
datatype start_phase = StartEntered | StartWaiting nat | StartReturned

record group_state =
  gs_ready :: nat
  gs_fresh :: nat
  gs_closed :: "nat set"
  gs_phase :: group_phase
  gs_cancelled :: bool
  gs_start :: start_phase

definition group_init :: group_state where
  "group_init = \<lparr>gs_ready = 0, gs_fresh = 1, gs_closed = {}, gs_phase = LoopTop, gs_cancelled = False,
     gs_start = StartEntered\<rparr>"

text \<open>\<^verbatim>\<open>close(h.consumer.ready)\<close> panics on a closed channel.\<close>

definition Setup :: "group_state \<Rightarrow> group_state outcome" where
  "Setup g = (if gs_ready g \<in> gs_closed g then Panics
              else Returns (g\<lparr>gs_closed := insert (gs_ready g) (gs_closed g)\<rparr>))"

definition renew_ready :: "group_state \<Rightarrow> group_state" where
  "renew_ready g = g\<lparr>gs_ready := gs_fresh g, gs_fresh := gs_fresh g + 1\<rparr>"

inductive group_step :: "group_state \<Rightarrow> group_state \<Rightarrow> bool" where
  loop_exit: "gs_phase g = LoopTop \<Longrightarrow> gs_cancelled g \<Longrightarrow> group_step g (g\<lparr>gs_phase := LoopDone\<rparr>)"
| loop_consume: "gs_phase g = LoopTop \<Longrightarrow> \<not> gs_cancelled g \<Longrightarrow>
    group_step g (g\<lparr>gs_phase := InConsume False\<rparr>)"
| session_setup: "gs_phase g = InConsume False \<Longrightarrow> Setup g = Returns g' \<Longrightarrow>
    group_step g (g'\<lparr>gs_phase := InConsume True\<rparr>)"
| consume_returns: "gs_phase g = InConsume b \<Longrightarrow> \<not> gs_cancelled g \<Longrightarrow>
    group_step g ((renew_ready g)\<lparr>gs_phase := LoopTop\<rparr>)"
| consume_cancelled: "gs_phase g = InConsume b \<Longrightarrow> gs_cancelled g \<Longrightarrow>
    group_step g (g\<lparr>gs_phase := LoopDone\<rparr>)"
| cancel: "group_step g (g\<lparr>gs_cancelled := True\<rparr>)"
| start_waits: "gs_start g = StartEntered \<Longrightarrow> group_step g (g\<lparr>gs_start := StartWaiting (gs_ready g)\<rparr>)"
| start_returns: "gs_start g = StartWaiting ch \<Longrightarrow> ch \<in> gs_closed g \<Longrightarrow>
    group_step g (g\<lparr>gs_start := StartReturned\<rparr>)"

abbreviation group_reach :: "group_state \<Rightarrow> group_state \<Rightarrow> bool" where
  "group_reach \<equiv> group_step\<^sup>*\<^sup>*"

definition group_inv :: "group_state \<Rightarrow> bool" where
  "group_inv g \<longleftrightarrow> gs_ready g < gs_fresh g \<and> (\<forall>c \<in> gs_closed g. c < gs_fresh g) \<and>
     (gs_phase g \<in> {LoopTop, InConsume False} \<longrightarrow> gs_ready g \<notin> gs_closed g)"

lemma group_step_inv: "group_step g g' \<Longrightarrow> group_inv g \<Longrightarrow> group_inv g'"
  by (induction rule: group_step.induct)
    (auto simp: group_inv_def Setup_def renew_ready_def split: if_splits)

lemma group_reach_inv: "group_reach group_init g \<Longrightarrow> group_inv g"
proof (induction rule: rtranclp_induct)
  case base
  show ?case by (simp add: group_inv_def group_init_def)
qed (rule group_step_inv)

text \<open>A caller that waits on a channel which is no longer the field and not closed waits for ever.\<close>

definition stranded :: "nat \<Rightarrow> group_state \<Rightarrow> bool" where
  "stranded ch g \<longleftrightarrow> gs_start g = StartWaiting ch \<and> ch \<noteq> gs_ready g \<and> ch \<notin> gs_closed g \<and> ch < gs_fresh g"

lemma stranded_step: "group_step g g' \<Longrightarrow> stranded ch g \<Longrightarrow> stranded ch g'"
  by (induction rule: group_step.induct)
    (auto simp: stranded_def Setup_def renew_ready_def split: if_splits)

lemma stranded_reach: "group_reach g g' \<Longrightarrow> stranded ch g \<Longrightarrow> stranded ch g'"
  by (induction rule: rtranclp_induct) (auto intro: stranded_step)

section \<open>A broker for examples\<close>

text \<open>A broker that refuses the first sends.\<close>

fun demo_send :: "producer_message \<Rightarrow> (int \<times> int, nat \<times> producer_message list) action" where
  "demo_send m (refuse, l) =
     (if 0 < refuse then (Inl (Err ''kafka: client has run out of available brokers''), (refuse - 1, l))
      else (Inr (0, int (length l)), (0, l @ [m])))"

definition demo_sleep :: "int \<Rightarrow> nat \<times> producer_message list \<Rightarrow> nat \<times> producer_message list" where
  "demo_sleep d s = s"

definition demo_handler :: "(nat \<times> producer_message list) handler" where
  "demo_handler m s = (Some (Err ''database is down''), s)"

interpretation demo_broker: kafka_broker demo_send snd
  by unfold_locales (auto split: if_splits)

interpretation demo_world: consumer_world demo_send snd demo_sleep demo_handler "\<lambda>_ s. s"
  by unfold_locales (auto simp: demo_sleep_def demo_handler_def)

definition demo_kafka :: kafka_config where
  "demo_kafka = \<lparr>kf_Brokers = [''127.0.0.1:9092''],
     kf_Topics = \<lparr>tp_Message = ''chat_messages'', tp_DLQ = ''dlq''\<rparr>, kf_ConsumerGroup = ''chat-consumer'',
     kf_Producer = \<lparr>pr_MaxRetries = 3, pr_RetryBackoffMs = 100\<rparr>,
     kf_Consumer = \<lparr>co_MaxRetries = 3, co_RetryBackoffMs = 1000\<rparr>\<rparr>"

definition demo_message :: consumer_message where
  "demo_message = \<lparr>cm_Topic = ''chat_messages'', cm_Partition = 0, cm_Offset = 7, cm_Key = None, cm_Value = ''hi''\<rparr>"

section \<open>Properties\<close>

text \<open>C31. \<^verbatim>\<open>ProduceWithRetry\<close> returns and makes at most \<open>maxRetries + 1\<close> attempts: it returns the result
  of the first attempt that succeeds, the context's error if the context is done before an attempt,
  and the last error wrapped once every attempt has failed.  Between attempts \<open>j\<close> and \<open>j + 1\<close> it sleeps
  \<open>2 ^ j\<close> times the configured backoff (no overflow of the duration).  The same holds of
  \<^verbatim>\<open>processMessageWithRetry\<close> and the consumer's settings.\<close>

theorem ProduceWithRetry_spec:
  assumes "0 \<le> backoff" and "backoff * Millisecond * 2 ^ n < 2 ^ 63"
  shows "(pr_RetryBackoffMs (kf_Producer cfg) = backoff \<longrightarrow>
     (let op = Produce send topic key v; st = before_attempt sleep op (backoff * Millisecond) s;
          out = ProduceWithRetry send ctx_err sleep cfg topic key v (int n) s
      in retry_succeeds ctx_err op st n out \<or> retry_cancelled ctx_err op st n out \<or>
         retry_exhausted ctx_err op st n (''failed to send message after '' @ FormatInt (int n) @ '' attempts'') out)) \<and>
    (co_RetryBackoffMs (kf_Consumer cfg) = backoff \<and> co_MaxRetries (kf_Consumer cfg) = int n \<longrightarrow>
     (let op = handler_action h m; st = before_attempt sleep op (backoff * Millisecond) s;
          out = processMessageWithRetry ctx_err sleep cfg h m s
      in retry_succeeds ctx_err op st n out \<or> retry_cancelled ctx_err op st n out \<or>
         retry_exhausted ctx_err op st n (''failed after '' @ FormatInt (int n) @ '' retries'') out))"
proof -
  have b: "0 \<le> backoff * Millisecond" using assms(1) by (simp add: Millisecond_def)
  have "backoff * Millisecond \<le> backoff * Millisecond * 2 ^ n" using b by (simp add: mult_le_cancel_left1)
  then have "wrap64 (backoff * Millisecond) = backoff * Millisecond"
    using b assms(2) by (intro wrap64_id) linarith+
  note wrap = this and loop = retry_loop_cases [OF b assms(2), of "int n" 0]
  show ?thesis
  proof (intro conjI impI)
    assume "pr_RetryBackoffMs (kf_Producer cfg) = backoff"
    then show "let op = Produce send topic key v; st = before_attempt sleep op (backoff * Millisecond) s;
          out = ProduceWithRetry send ctx_err sleep cfg topic key v (int n) s
      in retry_succeeds ctx_err op st n out \<or> retry_cancelled ctx_err op st n out \<or>
         retry_exhausted ctx_err op st n (''failed to send message after '' @ FormatInt (int n) @ '' attempts'') out"
      unfolding ProduceWithRetry_def Let_def using wrap loop [unfolded Let_def] by simp
  next
    assume "co_RetryBackoffMs (kf_Consumer cfg) = backoff \<and> co_MaxRetries (kf_Consumer cfg) = int n"
    then show "let op = handler_action h m; st = before_attempt sleep op (backoff * Millisecond) s;
          out = processMessageWithRetry ctx_err sleep cfg h m s
      in retry_succeeds ctx_err op st n out \<or> retry_cancelled ctx_err op st n out \<or>
         retry_exhausted ctx_err op st n (''failed after '' @ FormatInt (int n) @ '' retries'') out"
      unfolding processMessageWithRetry_def Let_def using wrap loop [unfolded Let_def] by simp
  qed
qed

theorem ProduceWithRetry_spec_witness:
  "let op = Produce demo_send ''t'' None ''hi'';
       st = before_attempt demo_sleep op (100 * Millisecond) (2, []);
       out = ProduceWithRetry demo_send (\<lambda>_. None) demo_sleep demo_kafka ''t'' None ''hi'' 3 (2, [])
   in retry_succeeds (\<lambda>_. None) op st 3 out \<or> retry_cancelled (\<lambda>_. None) op st 3 out \<or>
      retry_exhausted (\<lambda>_. None) op st 3 (''failed to send message after '' @ FormatInt 3 @ '' attempts'') out"
  using ProduceWithRetry_spec [of 100 3 demo_kafka demo_send "''t''" None "''hi''" demo_sleep "(2, [])"
      "\<lambda>_. None" demo_handler demo_message]
  by (simp add: demo_kafka_def Millisecond_def Let_def)

text \<open>C15. \<^verbatim>\<open>ConsumeClaim\<close> marks exactly the messages it receives before the claim closes or the context
  is done, in order, and no message is lost while the dead letter queue accepts messages: each one
  was processed without error by the handler within its retries, or its key and value are in the
  dead letter topic.\<close>

theorem ConsumeClaim_no_loss:
  assumes "consumer_world send log sleep h println" and "\<And>m s. \<not> isl (fst (send (dlq_copy cfg m) s))"
  shows "snd (ConsumeClaim println send ctx_err sleep cfg h evs s) = claimed evs \<and>
    (\<forall>k < length (claimed evs).
       fst (processMessageWithRetry ctx_err sleep cfg h (claimed evs ! k)
         (fold (consume_one println send ctx_err sleep cfg h) (take k (claimed evs)) s)) = Inr () \<or>
       dlq_copy cfg (claimed evs ! k) \<in> set (log (fst (ConsumeClaim println send ctx_err sleep cfg h evs s))))"
  using consumer_world.no_loss [OF assms, where ms = "claimed evs"]
  by (simp add: ConsumeClaim_marked ConsumeClaim_state)

fun steady_send :: "producer_message \<Rightarrow> (int \<times> int, producer_message list) action" where
  "steady_send m l = (Inr (0, int (length l)), l @ [m])"

interpretation steady_world: consumer_world steady_send id "\<lambda>_ s. s" "\<lambda>_ s. (Some (Err ''down''), s)" "\<lambda>_ s. s"
  by unfold_locales auto

theorem ConsumeClaim_no_loss_witness:
  "snd (ConsumeClaim (\<lambda>_ s. s) steady_send (\<lambda>_. None) (\<lambda>_ s. s) demo_kafka (\<lambda>_ s. (Some (Err ''down''), s))
      [ClaimMessage demo_message, ClaimClosed] []) = [demo_message]"
  using ConsumeClaim_no_loss [OF steady_world.consumer_world_axioms, of demo_kafka "\<lambda>_. None"
      "[ClaimMessage demo_message, ClaimClosed]" "[]"] by simp

text \<open>Without that condition messages are lost: when the dead letter send fails the message is
  still marked.  And a message that arrives when the context is done is sent to the dead letter
  queue without having been handled.\<close>

lemma ConsumeClaim_marks_lost_message:
  "ConsumeClaim (\<lambda>_ s. s) demo_send (\<lambda>_. None) demo_sleep demo_kafka demo_handler
     [ClaimMessage demo_message, ClaimClosed] (1, []) = ((0, []), [demo_message])"
proof -
  have "processMessageWithRetry (\<lambda>_. None) demo_sleep demo_kafka demo_handler demo_message (1, []) =
      (Inl (Wrap (''failed after '' @ FormatInt 3 @ '' retries'') (Err ''database is down'')), (1, []))"
    by (simp add: processMessageWithRetry_def retry_loop.simps handler_action_def demo_handler_def
        demo_sleep_def demo_kafka_def wrap_last_def)
  then show ?thesis by (simp add: consume_one_def sendToDLQ_def Produce_def)
qed

lemma consume_one_cancelled:
  assumes "ctx_err s = Some e" and "0 \<le> co_MaxRetries (kf_Consumer cfg)" and "send (dlq_copy cfg m) s = (Inr po, s')"
  shows "consume_one println send ctx_err sleep cfg h m s = println (dlq_notice m e) s'"
  using assms by (simp add: consume_one_def processMessageWithRetry_def retry_loop.simps sendToDLQ_def Produce_def dlq_copy_def)

lemma start_returned_step:
  "group_step g g' \<Longrightarrow> (gs_start g = StartReturned \<Longrightarrow> gs_closed g \<noteq> {}) \<Longrightarrow> gs_start g' = StartReturned \<Longrightarrow> gs_closed g' \<noteq> {}"
  by (induction rule: group_step.induct) (auto simp: Setup_def renew_ready_def split: if_splits)

lemma start_returned_reach: "group_reach group_init g \<Longrightarrow> gs_start g = StartReturned \<Longrightarrow> gs_closed g \<noteq> {}"
proof (induction rule: rtranclp_induct)
  case base
  then show ?case by (simp add: group_init_def)
next
  case (step g1 g2)
  then show ?case using start_returned_step by blast
qed

text \<open>C32. Sessions of the consumer group, in every reachable state.  \<^verbatim>\<open>Setup\<close> closes a channel that is still open, so it
  never panics, however often sessions end and begin, and it lets \<^verbatim>\<open>Start\<close> return if that waits on the current ready channel.
  \<^verbatim>\<open>Start\<close> has returned only if a session was set up.  But if \<^verbatim>\<open>Start\<close> waits on the current ready
  channel and \<^verbatim>\<open>Consume\<close> returns without having set up a session, while the context is not cancelled, then the channel is replaced
  and \<^verbatim>\<open>Start\<close> never returns, whatever happens later.\<close>

theorem group_sessions:
  assumes "group_reach group_init g"
  shows "(gs_start g = StartReturned \<longrightarrow> gs_closed g \<noteq> {}) \<and>
    (gs_phase g = InConsume False \<longrightarrow>
       (\<exists>g'. Setup g = Returns g' \<and>
          (gs_start g = StartWaiting (gs_ready g) \<longrightarrow>
             group_step (g'\<lparr>gs_phase := InConsume True\<rparr>) (g'\<lparr>gs_phase := InConsume True, gs_start := StartReturned\<rparr>)))) \<and>
    (gs_phase g = InConsume False \<and> \<not> gs_cancelled g \<and> gs_start g = StartWaiting (gs_ready g) \<longrightarrow>
       group_step g ((renew_ready g)\<lparr>gs_phase := LoopTop\<rparr>) \<and>
       (\<forall>g'. group_reach ((renew_ready g)\<lparr>gs_phase := LoopTop\<rparr>) g' \<longrightarrow> gs_start g' = StartWaiting (gs_ready g)))"
proof (intro conjI impI)
  show "gs_start g = StartReturned \<Longrightarrow> gs_closed g \<noteq> {}" by (rule start_returned_reach [OF assms])
  note inv = group_reach_inv [OF assms]
  assume c: "gs_phase g = InConsume False"
  then have "Setup g = Returns (g\<lparr>gs_closed := insert (gs_ready g) (gs_closed g)\<rparr>)"
    using inv by (auto simp: group_inv_def Setup_def)
  then show "\<exists>g'. Setup g = Returns g' \<and>
      (gs_start g = StartWaiting (gs_ready g) \<longrightarrow>
         group_step (g'\<lparr>gs_phase := InConsume True\<rparr>) (g'\<lparr>gs_phase := InConsume True, gs_start := StartReturned\<rparr>))"
    using start_returns [of "g\<lparr>gs_closed := insert (gs_ready g) (gs_closed g), gs_phase := InConsume True\<rparr>" "gs_ready g"] by auto
next
  assume c: "gs_phase g = InConsume False \<and> \<not> gs_cancelled g \<and> gs_start g = StartWaiting (gs_ready g)"
  then show "group_step g ((renew_ready g)\<lparr>gs_phase := LoopTop\<rparr>)" using consume_returns [of g False] by simp
  have "stranded (gs_ready g) ((renew_ready g)\<lparr>gs_phase := LoopTop\<rparr>)"
    using c group_reach_inv [OF assms] by (auto simp: stranded_def renew_ready_def group_inv_def)
  then show "\<forall>g'. group_reach ((renew_ready g)\<lparr>gs_phase := LoopTop\<rparr>) g' \<longrightarrow> gs_start g' = StartWaiting (gs_ready g)"
    using stranded_reach by (auto simp: stranded_def)
qed

text \<open>A consumer whose first \<^verbatim>\<open>Consume\<close> fails, for example because no broker answers.\<close>

theorem group_sessions_witness:
  "group_reach group_init (group_init\<lparr>gs_start := StartWaiting 0, gs_phase := InConsume False\<rparr>) \<and>
   (\<nexists>g'. group_reach (group_init\<lparr>gs_ready := 1, gs_fresh := 2, gs_start := StartWaiting 0\<rparr>) g' \<and> gs_start g' = StartReturned)"
proof -
  define g1 where "g1 = group_init\<lparr>gs_start := StartWaiting 0\<rparr>"
  define g2 where "g2 = g1\<lparr>gs_phase := InConsume False\<rparr>"
  have "group_step group_init g1" using start_waits [of group_init] by (simp add: g1_def group_init_def)
  moreover have "group_step g1 g2" unfolding g2_def by (rule loop_consume) (simp_all add: g1_def group_init_def)
  ultimately have reach: "group_reach group_init g2"
    by (intro converse_rtranclp_into_rtranclp [of _ group_init g1] r_into_rtranclp)
  moreover have "(renew_ready g2)\<lparr>gs_phase := LoopTop\<rparr> = group_init\<lparr>gs_ready := 1, gs_fresh := 2, gs_start := StartWaiting 0\<rparr>"
    by (simp add: g2_def g1_def renew_ready_def group_init_def)
  ultimately show ?thesis using group_sessions [OF reach] by (auto simp: g2_def g1_def group_init_def)
qed

end
