(* ===== verification/Proto.thy ===== *)
theory Proto
  imports Prelude
begin

text \<open>
  The chat messages of \<^verbatim>\<open>internal/pkg/proto/chat.pb.go\<close>, as the records the hand-written code reads
  and writes.  Encoding and decoding are the protobuf runtime's: a component that uses them takes
  a codec as a parameter, with the round trip as the contract \<open>ws_codec\<close>.
\<close>

definition MessageType_TEXT :: int where "MessageType_TEXT = 0"
definition MessageType_SYSTEM :: int where "MessageType_SYSTEM = 1"

record ws_message =
  w_MessageId :: string
  w_UserId :: string
  w_GuildId :: string
  w_Content :: string
  w_SeqId :: int
  w_Timestamp :: int
  w_Type :: int
  w_Username :: string

definition empty_ws :: ws_message where
  "empty_ws = \<lparr>w_MessageId = [], w_UserId = [], w_GuildId = [], w_Content = [], w_SeqId = 0,
     w_Timestamp = 0, w_Type = MessageType_TEXT, w_Username = []\<rparr>"

record history_request =
  hq_GuildId :: string
  hq_LastSeqId :: int
  hq_Limit :: int

record history_response =
  hp_Messages :: "ws_message list"
  hp_HasMore :: bool

text \<open>\<^verbatim>\<open>proto.Unmarshal\<close> also leaves a message behind when it fails, possibly half filled.\<close>

type_synonym ws_marshal = "ws_message \<Rightarrow> string result"
type_synonym ws_unmarshal = "string \<Rightarrow> go_error option \<times> ws_message"

locale ws_codec =
  fixes marshal :: ws_marshal and unmarshal :: ws_unmarshal
  assumes unmarshal_marshal: "marshal m = Inr d \<Longrightarrow> unmarshal d = (None, m)"
begin

lemma marshal_inj: "marshal m = Inr d \<Longrightarrow> marshal m' = Inr d \<Longrightarrow> m = m'"
  using unmarshal_marshal [of m d] unmarshal_marshal [of m' d] by simp

end

text \<open>A codec for examples.\<close>

definition demo_marshal :: ws_marshal where
  "demo_marshal m = Inr (concat (map enc_field [w_MessageId m, w_UserId m, w_GuildId m, w_Content m,
     FormatInt (w_SeqId m), FormatInt (w_Timestamp m), FormatInt (w_Type m), w_Username m]))"

definition demo_unmarshal :: ws_unmarshal where
  "demo_unmarshal d =
     (case dec_fields 8 d of
        Some [a, b, c, e, f, g, h, i] \<Rightarrow>
          (case (ParseInt f, ParseInt g, ParseInt h) of
             (Some x, Some y, Some z) \<Rightarrow>
               (None, \<lparr>w_MessageId = a, w_UserId = b, w_GuildId = c, w_Content = e, w_SeqId = x,
                  w_Timestamp = y, w_Type = z, w_Username = i\<rparr>)
           | _ \<Rightarrow> (Some (Err ''proto: cannot parse invalid wire-format data''), empty_ws))
      | _ \<Rightarrow> (Some (Err ''proto: cannot parse invalid wire-format data''), empty_ws))"

lemma demo_codec_roundtrip: "demo_marshal m = Inr d \<Longrightarrow> demo_unmarshal d = (None, m)"
proof -
  assume d: "demo_marshal m = Inr d"
  define fs where "fs = [w_MessageId m, w_UserId m, w_GuildId m, w_Content m,
     FormatInt (w_SeqId m), FormatInt (w_Timestamp m), FormatInt (w_Type m), w_Username m]"
  have len: "length fs = 8" by (simp add: fs_def)
  have "dec_fields 8 d = Some fs"
    using dec_enc_fields [of fs] d unfolding len by (simp add: demo_marshal_def fs_def)
  then show ?thesis by (simp add: demo_unmarshal_def fs_def)
qed

interpretation demo_codec: ws_codec demo_marshal demo_unmarshal
  by unfold_locales (rule demo_codec_roundtrip)

end
