(* ===== verification/Gateway.thy ===== *)
theory Gateway
  imports Redis Config
begin

text \<open>
  Connections and the connection manager of the gateway (\<^verbatim>\<open>internal/pkg/gateway/connection.go\<close> and
  \<^verbatim>\<open>manager.go\<close>).  Connections are shared by pointer between the manager's map, the pumps and the
  message handler, so they live in a heap \<open>gw_heap\<close> and a pointer is an index into it.  Each
  operation that holds the manager's lock is one function.  The websocket library is the pair of
  functions \<open>mc_sockWrite\<close>, \<open>mc_sockClose\<close> that say what \<^verbatim>\<open>WriteMessage\<close> and \<^verbatim>\<open>Close\<close> of the socket
  return; Redis is the driver \<open>mc_exec\<close>.  Printing is left out.
\<close>

section \<open>Connections\<close>

text \<open>\<open>cn_cancelled\<close>: the connection's own \<^verbatim>\<open>cancel\<close> was called.  Its context, a child of the manager's, is done then or when the manager's is
  (\<open>conn_done\<close>).\<close>

record connection =
  cn_UserID :: string
  cn_GuildID :: string
  cn_Send :: "string list"
  cn_sendClosed :: bool
  cn_lastHeartbeat :: int
  cn_cancelled :: bool
  cn_closed :: bool
  cn_socketClosed :: bool
  cn_written :: "(int \<times> string) list"

definition send_capacity :: nat where "send_capacity = 256"

definition NewConnection :: "int \<Rightarrow> string \<Rightarrow> string \<Rightarrow> connection" where
  "NewConnection now userID guildID =
     \<lparr>cn_UserID = userID, cn_GuildID = guildID, cn_Send = [], cn_sendClosed = False,
      cn_lastHeartbeat = now, cn_cancelled = False, cn_closed = False, cn_socketClosed = False,
      cn_written = []\<rparr>"

definition IsClosed :: "connection \<Rightarrow> bool" where
  "IsClosed c = cn_closed c"

definition ErrCloseSent :: go_error where
  "ErrCloseSent = Err ''websocket: close sent''"

definition WriteMessage :: "(connection \<Rightarrow> int \<Rightarrow> string \<Rightarrow> go_error option) \<Rightarrow> int \<Rightarrow> string \<Rightarrow> connection
    \<Rightarrow> go_error option \<times> connection" where
  "WriteMessage sockWrite messageType data c =
     (if IsClosed c then (Some ErrCloseSent, c)
      else case sockWrite c messageType data of
             Some e \<Rightarrow> (Some e, c)
           | None \<Rightarrow> (None, c\<lparr>cn_written := cn_written c @ [(messageType, data)]\<rparr>))"

text \<open>\<^verbatim>\<open>Close\<close> runs once; later calls return nil.\<close>

definition Close :: "(connection \<Rightarrow> go_error option) \<Rightarrow> connection \<Rightarrow> go_error option \<times> connection" where
  "Close sockClose c =
     (if cn_closed c then (None, c)
      else (sockClose c,
            c\<lparr>cn_closed := True, cn_cancelled := True, cn_sendClosed := True, cn_socketClosed := True\<rparr>))"

definition UpdateHeartbeat :: "int \<Rightarrow> connection \<Rightarrow> connection" where
  "UpdateHeartbeat now c = c\<lparr>cn_lastHeartbeat := now\<rparr>"

definition GetLastHeartbeat :: "connection \<Rightarrow> int" where
  "GetLastHeartbeat c = cn_lastHeartbeat c"

definition IsAlive :: "int \<Rightarrow> int \<Rightarrow> connection \<Rightarrow> bool" where
  "IsAlive now timeout c \<longleftrightarrow> now - GetLastHeartbeat c < timeout"

section \<open>The manager\<close>

record 'r manager_config =
  mc_exec :: "'r redis"
  mc_HeartbeatInterval :: int
  mc_nodeID :: string
  mc_sockWrite :: "connection \<Rightarrow> int \<Rightarrow> string \<Rightarrow> go_error option"
  mc_sockClose :: "connection \<Rightarrow> go_error option"

record 'r gateway =
  gw_heap :: "connection list"
  gw_conns :: "(string \<times> nat) list"
  gw_redis :: 'r
  gw_cancelled :: bool

definition NewConnectionManager :: "'r \<Rightarrow> 'r gateway" where
  "NewConnectionManager r = \<lparr>gw_heap = [], gw_conns = [], gw_redis = r, gw_cancelled = False\<rparr>"

definition upd_conn :: "nat \<Rightarrow> (connection \<Rightarrow> connection) \<Rightarrow> 'r gateway \<Rightarrow> 'r gateway" where
  "upd_conn i f g = g\<lparr>gw_heap := (gw_heap g)[i := f (gw_heap g ! i)]\<rparr>"

definition close_conn :: "'r manager_config \<Rightarrow> nat \<Rightarrow> 'r gateway \<Rightarrow> 'r gateway" where
  "close_conn cfg i = upd_conn i (\<lambda>c. snd (Close (mc_sockClose cfg) c))"

text \<open>Whether the context of a connection is done.\<close>

definition conn_done :: "nat \<Rightarrow> 'r gateway \<Rightarrow> bool" where
  "conn_done i g \<longleftrightarrow> cn_cancelled (gw_heap g ! i) \<or> gw_cancelled g"

definition online_ttl :: "'r manager_config \<Rightarrow> int" where
  "online_ttl cfg = wrap64 (wrap64 (mc_HeartbeatInterval cfg * 2) * 10 ^ 9)"

definition refresh_online :: "'r manager_config \<Rightarrow> int \<Rightarrow> string \<Rightarrow> 'r gateway \<Rightarrow> 'r gateway" where
  "refresh_online cfg t userID g =
     g\<lparr>gw_redis := snd (SetUserOnline (mc_exec cfg) t userID (mc_nodeID cfg) (online_ttl cfg) (gw_redis g))\<rparr>"

definition AddConnection :: "'r manager_config \<Rightarrow> int \<Rightarrow> int \<Rightarrow> string \<Rightarrow> string \<Rightarrow> 'r gateway \<Rightarrow> nat \<times> 'r gateway" where
  "AddConnection cfg t now userID guildID g =
     (let g1 = (case map_of (gw_conns g) userID of None \<Rightarrow> g | Some i \<Rightarrow> close_conn cfg i g);
          i = length (gw_heap g1);
          g2 = g1\<lparr>gw_heap := gw_heap g1 @ [NewConnection now userID guildID],
                  gw_conns := AList.update userID i (gw_conns g1)\<rparr>
      in (i, refresh_online cfg t userID g2))"

definition RemoveConnection :: "'r manager_config \<Rightarrow> int \<Rightarrow> string \<Rightarrow> 'r gateway \<Rightarrow> go_error option \<times> 'r gateway" where
  "RemoveConnection cfg t userID g =
     (case map_of (gw_conns g) userID of
        None \<Rightarrow> (Some (Err (''connection not found for user '' @ userID)), g)
      | Some i \<Rightarrow>
          (let g1 = close_conn cfg i g;
               g2 = g1\<lparr>gw_conns := AList.delete userID (gw_conns g1)\<rparr>
           in case RemoveUserOnline (mc_exec cfg) t userID (gw_redis g2) of
                (Some e, r) \<Rightarrow> (Some (Wrap ''failed to remove online status'' e), g2\<lparr>gw_redis := r\<rparr>)
              | (None, r) \<Rightarrow> (None, g2\<lparr>gw_redis := r\<rparr>)))"

definition GetConnection :: "string \<Rightarrow> 'r gateway \<Rightarrow> nat option" where
  "GetConnection userID g = map_of (gw_conns g) userID"

definition GetAllConnections :: "'r gateway \<Rightarrow> (string \<times> nat) list" where
  "GetAllConnections g = gw_conns g"

definition GetConnectionsByGuild :: "string \<Rightarrow> 'r gateway \<Rightarrow> nat list" where
  "GetConnectionsByGuild guildID g =
     map snd (filter (\<lambda>(u, i). cn_GuildID (gw_heap g ! i) = guildID) (gw_conns g))"

definition ConnectionCount :: "'r gateway \<Rightarrow> nat" where
  "ConnectionCount g = length (gw_conns g)"

definition dead_users :: "int \<Rightarrow> int \<Rightarrow> 'r gateway \<Rightarrow> string list" where
  "dead_users now timeout g =
     map fst (filter (\<lambda>(u, i). \<not> IsAlive now timeout (gw_heap g ! i)) (gw_conns g))"

definition active_users :: "int \<Rightarrow> int \<Rightarrow> 'r gateway \<Rightarrow> string list" where
  "active_users now timeout g =
     map fst (filter (\<lambda>(u, i). IsAlive now timeout (gw_heap g ! i)) (gw_conns g))"

definition remove_users :: "'r manager_config \<Rightarrow> int \<Rightarrow> string list \<Rightarrow> 'r gateway \<Rightarrow> 'r gateway" where
  "remove_users cfg t us g = fold (\<lambda>u g. snd (RemoveConnection cfg t u g)) us g"

definition checkHeartbeats :: "'r manager_config \<Rightarrow> int \<Rightarrow> int \<Rightarrow> int \<Rightarrow> 'r gateway \<Rightarrow> 'r gateway" where
  "checkHeartbeats cfg t now timeout g =
     fold (refresh_online cfg t) (active_users now timeout g)
       (remove_users cfg t (dead_users now timeout g) g)"

text \<open>\<^verbatim>\<open>monitorHeartbeats\<close>: its \<^verbatim>\<open>select\<close> takes a tick (with the times then) or the end of the context.\<close>

fun monitorHeartbeats :: "'r manager_config \<Rightarrow> (int \<times> int) option list \<Rightarrow> 'r gateway \<Rightarrow> 'r gateway" where
  "monitorHeartbeats cfg (Some (t, now) # evs) g =
     monitorHeartbeats cfg evs (checkHeartbeats cfg t now (online_ttl cfg) g)"
| "monitorHeartbeats cfg _ g = g"

definition manager_Shutdown :: "'r manager_config \<Rightarrow> 'r gateway \<Rightarrow> 'r gateway" where
  "manager_Shutdown cfg g =
     (fold (close_conn cfg) (map snd (gw_conns g)) (g\<lparr>gw_cancelled := True\<rparr>))\<lparr>gw_conns := []\<rparr>"

section \<open>Invariant\<close>

definition conn_ok :: "connection \<Rightarrow> bool" where
  "conn_ok c \<longleftrightarrow> (cn_closed c \<longleftrightarrow> cn_sendClosed c) \<and> (cn_closed c \<longleftrightarrow> cn_cancelled c) \<and>
     (cn_closed c \<longleftrightarrow> cn_socketClosed c) \<and> length (cn_Send c) \<le> send_capacity"

definition gw_inv :: "'r gateway \<Rightarrow> bool" where
  "gw_inv g \<longleftrightarrow> distinct (map fst (gw_conns g)) \<and> (\<forall>c \<in> set (gw_heap g). conn_ok c) \<and>
     (\<forall>(u, i) \<in> set (gw_conns g). i < length (gw_heap g) \<and> cn_UserID (gw_heap g ! i) = u \<and>
        \<not> cn_closed (gw_heap g ! i))"

text \<open>What every operation keeps of a connection: its identity, and once closed it stays closed.\<close>

definition conn_evolves :: "connection \<Rightarrow> connection \<Rightarrow> bool" where
  "conn_evolves c c' \<longleftrightarrow> cn_UserID c' = cn_UserID c \<and> cn_GuildID c' = cn_GuildID c \<and>
     (cn_closed c \<longrightarrow> cn_closed c')"

lemma gw_invD:
  assumes "gw_inv g" and "map_of (gw_conns g) u = Some i"
  shows "i < length (gw_heap g)" and "cn_UserID (gw_heap g ! i) = u" and "\<not> cn_closed (gw_heap g ! i)"
  using assms map_of_SomeD [OF assms(2)] by (auto simp: gw_inv_def)

lemma conn_ok_Close: "conn_ok c \<Longrightarrow> conn_ok (snd (Close sc c))"
  by (auto simp: conn_ok_def Close_def)

lemma snd_Close_simps [simp]:
  "cn_UserID (snd (Close sc c)) = cn_UserID c" "cn_GuildID (snd (Close sc c)) = cn_GuildID c"
  "cn_closed (snd (Close sc c))" "cn_Send (snd (Close sc c)) = cn_Send c"
  "cn_written (snd (Close sc c)) = cn_written c" "cn_lastHeartbeat (snd (Close sc c)) = cn_lastHeartbeat c"
  by (auto simp: Close_def)

lemma upd_conn_simps [simp]:
  "gw_conns (upd_conn i f g) = gw_conns g" "gw_redis (upd_conn i f g) = gw_redis g"
  "gw_cancelled (upd_conn i f g) = gw_cancelled g" "length (gw_heap (upd_conn i f g)) = length (gw_heap g)"
  by (simp_all add: upd_conn_def)

lemma upd_conn_nth: "j < length (gw_heap g) \<Longrightarrow> gw_heap (upd_conn i f g) ! j =
    (if j = i then f (gw_heap g ! i) else gw_heap g ! j)"
  by (simp add: upd_conn_def nth_list_update)

lemma close_conn_simps [simp]:
  "gw_conns (close_conn cfg i g) = gw_conns g" "gw_redis (close_conn cfg i g) = gw_redis g"
  "gw_cancelled (close_conn cfg i g) = gw_cancelled g" "length (gw_heap (close_conn cfg i g)) = length (gw_heap g)"
  by (simp_all add: close_conn_def)

lemma close_conn_nth: "j < length (gw_heap g) \<Longrightarrow> gw_heap (close_conn cfg i g) ! j =
    (if j = i then snd (Close (mc_sockClose cfg) (gw_heap g ! i)) else gw_heap g ! j)"
  by (simp add: close_conn_def upd_conn_nth)

lemma heap_all_upd:
  assumes "\<And>c. c \<in> set (gw_heap g) \<Longrightarrow> P c" and "\<And>c. P c \<Longrightarrow> P (f c)" and "i < length (gw_heap g)"
  shows "c \<in> set (gw_heap (upd_conn i f g)) \<Longrightarrow> P c"
  using assms set_update_subset_insert [of "gw_heap g" i "f (gw_heap g ! i)"]
  by (auto simp: upd_conn_def)

lemma close_conn_ok:
  assumes "\<And>c. c \<in> set (gw_heap g) \<Longrightarrow> conn_ok c" and "i < length (gw_heap g)"
    and "c \<in> set (gw_heap (close_conn cfg i g))"
  shows "conn_ok c"
  using heap_all_upd [where P = conn_ok and f = "\<lambda>c. snd (Close (mc_sockClose cfg) c)", OF assms(1) conn_ok_Close
      assms(2)] assms(3) by (simp add: close_conn_def)

lemma gw_inv_redis [simp]: "gw_inv (g\<lparr>gw_redis := r\<rparr>) = gw_inv g"
  by (simp add: gw_inv_def)

lemma gw_inv_init [simp]: "gw_inv (NewConnectionManager r)"
  by (simp add: gw_inv_def NewConnectionManager_def)

lemma gw_invI:
  assumes "distinct (map fst (gw_conns g))" and "\<And>c. c \<in> set (gw_heap g) \<Longrightarrow> conn_ok c"
    and "\<And>u i. (u, i) \<in> set (gw_conns g) \<Longrightarrow> i < length (gw_heap g) \<and> cn_UserID (gw_heap g ! i) = u \<and>
      \<not> cn_closed (gw_heap g ! i)"
  shows "gw_inv g"
  using assms by (auto simp: gw_inv_def)

lemma gw_inv_mapped:
  assumes "gw_inv g" and "(u, i) \<in> set (gw_conns g)"
  shows "i < length (gw_heap g)" and "cn_UserID (gw_heap g ! i) = u" and "\<not> cn_closed (gw_heap g ! i)"
  using assms by (auto simp: gw_inv_def)

lemma gw_inv_inj:
  assumes "gw_inv g" and "(u, i) \<in> set (gw_conns g)" and "(v, i) \<in> set (gw_conns g)"
  shows "u = v"
  using gw_inv_mapped(2) [OF assms(1,2)] gw_inv_mapped(2) [OF assms(1,3)] by simp

lemma gw_inv_heap: "gw_inv g \<Longrightarrow> c \<in> set (gw_heap g) \<Longrightarrow> conn_ok c"
  by (simp add: gw_inv_def)

lemma gw_inv_upd:
  assumes "gw_inv g" and "i < length (gw_heap g)" and "\<And>c. conn_ok c \<Longrightarrow> conn_ok (f c)"
    and "\<And>c. cn_UserID (f c) = cn_UserID c" and "\<And>c. cn_closed (f c) = cn_closed c"
  shows "gw_inv (upd_conn i f g)"
proof (rule gw_invI)
  show "distinct (map fst (gw_conns (upd_conn i f g)))" using assms(1) by (simp add: gw_inv_def)
  show "conn_ok c" if "c \<in> set (gw_heap (upd_conn i f g))" for c
    using heap_all_upd [where P = conn_ok, OF gw_inv_heap [OF assms(1)] assms(3,2) that] .
  show "j < length (gw_heap (upd_conn i f g)) \<and> cn_UserID (gw_heap (upd_conn i f g) ! j) = u \<and>
      \<not> cn_closed (gw_heap (upd_conn i f g) ! j)" if "(u, j) \<in> set (gw_conns (upd_conn i f g))" for u j
    using gw_inv_mapped [OF assms(1), of u j] that assms(4,5) by (auto simp: upd_conn_nth)
qed

text \<open>Closing connections that leave the map keeps the invariant.\<close>

lemma gw_inv_close:
  assumes "gw_inv g" and "i < length (gw_heap g)" and "distinct (map fst conns)"
    and "\<And>u j. (u, j) \<in> set conns \<Longrightarrow> (u, j) \<in> set (gw_conns g) \<and> j \<noteq> i"
  shows "gw_inv ((close_conn cfg i g)\<lparr>gw_conns := conns\<rparr>)"
proof (rule gw_invI)
  show "conn_ok c" if "c \<in> set (gw_heap ((close_conn cfg i g)\<lparr>gw_conns := conns\<rparr>))" for c
    using close_conn_ok [OF gw_inv_heap [OF assms(1)] assms(2)] that by simp
  show "j < length (gw_heap ((close_conn cfg i g)\<lparr>gw_conns := conns\<rparr>)) \<and>
      cn_UserID (gw_heap ((close_conn cfg i g)\<lparr>gw_conns := conns\<rparr>) ! j) = u \<and>
      \<not> cn_closed (gw_heap ((close_conn cfg i g)\<lparr>gw_conns := conns\<rparr>) ! j)"
    if "(u, j) \<in> set (gw_conns ((close_conn cfg i g)\<lparr>gw_conns := conns\<rparr>))" for u j
    using assms(4) [of u j] gw_inv_mapped [OF assms(1), of u j] that by (simp add: close_conn_nth)
qed (simp add: assms(3))

lemma set_delete: "set (AList.delete k al) = {(u, j) \<in> set al. u \<noteq> k}"
  by (auto simp: AList.delete_eq)

lemma distinct_delete: "distinct (map fst al) \<Longrightarrow> distinct (map fst (AList.delete k al))"
  by (induction al) (auto simp: AList.delete_eq)

lemma gw_inv_remove:
  assumes "gw_inv g" and "map_of (gw_conns g) u = Some i"
  shows "gw_inv ((close_conn cfg i g)\<lparr>gw_conns := AList.delete u (gw_conns g)\<rparr>)"
proof (rule gw_inv_close [OF assms(1) gw_invD(1) [OF assms]])
  show "distinct (map fst (AList.delete u (gw_conns g)))"
    using assms(1) by (simp add: distinct_delete gw_inv_def)
  show "(v, j) \<in> set (gw_conns g) \<and> j \<noteq> i" if "(v, j) \<in> set (AList.delete u (gw_conns g))" for v j
    using that gw_inv_inj [OF assms(1) map_of_SomeD [OF assms(2)], of v] by (auto simp: set_delete)
qed

lemma RemoveConnection_heap_conns:
  assumes "map_of (gw_conns g) u = Some i"
  shows "gw_heap (snd (RemoveConnection cfg t u g)) = gw_heap (close_conn cfg i g)"
    and "gw_conns (snd (RemoveConnection cfg t u g)) = AList.delete u (gw_conns g)"
    and "gw_cancelled (snd (RemoveConnection cfg t u g)) = gw_cancelled g"
  using assms by (auto simp: RemoveConnection_def Let_def split: prod.splits option.splits)

lemma RemoveConnection_missing:
  "map_of (gw_conns g) u = None \<Longrightarrow>
     RemoveConnection cfg t u g = (Some (Err (''connection not found for user '' @ u)), g)"
  by (simp add: RemoveConnection_def)

lemma gw_inv_RemoveConnection: "gw_inv g \<Longrightarrow> gw_inv (snd (RemoveConnection cfg t u g))"
proof (cases "map_of (gw_conns g) u")
  case None
  moreover assume "gw_inv g"
  ultimately show ?thesis by (simp add: RemoveConnection_missing)
next
  case (Some i)
  moreover assume "gw_inv g"
  ultimately show ?thesis
    using gw_inv_remove [of g u i cfg] RemoveConnection_heap_conns [OF Some, of cfg t]
    by (simp add: gw_inv_def)
qed

lemma gw_inv_refresh [simp]: "gw_inv (refresh_online cfg t u g) = gw_inv g"
  by (simp add: refresh_online_def)

lemma refresh_online_simps [simp]:
  "gw_heap (refresh_online cfg t u g) = gw_heap g" "gw_conns (refresh_online cfg t u g) = gw_conns g"
  "gw_cancelled (refresh_online cfg t u g) = gw_cancelled g"
  by (simp_all add: refresh_online_def)

lemma set_update_alist:
  "distinct (map fst al) \<Longrightarrow> (v, j) \<in> set (AList.update k x al) \<longleftrightarrow>
     (if v = k then j = x else (v, j) \<in> set al)"
  by (induction al) force+

lemma gw_inv_AddConnection:
  assumes "gw_inv g"
  shows "gw_inv (snd (AddConnection cfg t now u guild g))"
proof -
  define g1 where "g1 = (case map_of (gw_conns g) u of None \<Rightarrow> g | Some i \<Rightarrow> close_conn cfg i g)"
  define g2 where "g2 = g1\<lparr>gw_heap := gw_heap g1 @ [NewConnection now u guild],
      gw_conns := AList.update u (length (gw_heap g1)) (gw_conns g1)\<rparr>"
  have d: "distinct (map fst (gw_conns g))" using assms by (simp add: gw_inv_def)
  have conns: "gw_conns g1 = gw_conns g" by (simp add: g1_def split: option.split)
  have others: "i < length (gw_heap g1) \<and> cn_UserID (gw_heap g1 ! i) = v \<and> \<not> cn_closed (gw_heap g1 ! i)"
    if "(v, i) \<in> set (gw_conns g)" "v \<noteq> u" for v i
  proof (cases "map_of (gw_conns g) u")
    case None
    then show ?thesis using gw_inv_mapped [OF assms that(1)] by (simp add: g1_def)
  next
    case (Some k)
    then have "i \<noteq> k" using gw_inv_inj [OF assms that(1)] map_of_SomeD [OF Some] that(2) by blast
    then show ?thesis using gw_inv_mapped [OF assms that(1)] Some by (simp add: g1_def close_conn_nth)
  qed
  have ok: "conn_ok c" if "c \<in> set (gw_heap g1)" for c
  proof (cases "map_of (gw_conns g) u")
    case (Some k)
    then show ?thesis
      using close_conn_ok [OF gw_inv_heap [OF assms] gw_invD(1) [OF assms Some]] that by (simp add: g1_def)
  qed (use that gw_inv_heap [OF assms] in \<open>simp add: g1_def\<close>)
  have "gw_inv g2"
  proof (rule gw_invI)
    show "distinct (map fst (gw_conns g2))" using d by (simp add: g2_def conns distinct_update)
    show "conn_ok c" if "c \<in> set (gw_heap g2)" for c
      using that ok by (auto simp: g2_def conn_ok_def NewConnection_def)
    show "i < length (gw_heap g2) \<and> cn_UserID (gw_heap g2 ! i) = v \<and> \<not> cn_closed (gw_heap g2 ! i)"
      if "(v, i) \<in> set (gw_conns g2)" for v i
      using that others [of v i]
      by (auto simp: g2_def conns set_update_alist [OF d] nth_append NewConnection_def split: if_splits)
  qed
  then show ?thesis by (simp add: AddConnection_def Let_def g1_def [symmetric] g2_def [symmetric])
qed

lemma gw_inv_remove_users: "gw_inv g \<Longrightarrow> gw_inv (remove_users cfg t us g)"
  unfolding remove_users_def by (induction us arbitrary: g) (simp_all add: gw_inv_RemoveConnection)

lemma fold_refresh_simps [simp]:
  "gw_heap (fold (refresh_online cfg t) us g) = gw_heap g"
  "gw_conns (fold (refresh_online cfg t) us g) = gw_conns g"
  "gw_inv (fold (refresh_online cfg t) us g) = gw_inv g"
  by (induction us arbitrary: g) simp_all

lemma gw_inv_checkHeartbeats: "gw_inv g \<Longrightarrow> gw_inv (checkHeartbeats cfg t now timeout g)"
  by (simp add: checkHeartbeats_def gw_inv_remove_users)

lemma heap_ok_fold_close:
  assumes "\<And>c. c \<in> set (gw_heap g) \<Longrightarrow> conn_ok c" and "\<And>i. i \<in> set is \<Longrightarrow> i < length (gw_heap g)"
  shows "c \<in> set (gw_heap (fold (close_conn cfg) is g)) \<Longrightarrow> conn_ok c"
  using assms
proof (induction "is" arbitrary: g)
  case (Cons i "is")
  have "conn_ok c'" if "c' \<in> set (gw_heap (close_conn cfg i g))" for c'
    using close_conn_ok [OF Cons.prems(2) _ that] Cons.prems(3) by simp
  then show ?case using Cons by simp
qed simp

lemma gw_inv_Shutdown: "gw_inv g \<Longrightarrow> gw_inv (manager_Shutdown cfg g)"
proof (rule gw_invI)
  assume inv: "gw_inv g"
  fix c assume "c \<in> set (gw_heap (manager_Shutdown cfg g))"
  then show "conn_ok c"
    using heap_ok_fold_close [of "g\<lparr>gw_cancelled := True\<rparr>" "map snd (gw_conns g)" c cfg]
      gw_inv_heap [OF inv] gw_inv_mapped(1) [OF inv]
    by (fastforce simp: manager_Shutdown_def)
qed (simp_all add: manager_Shutdown_def)

section \<open>The manager as a registry of users\<close>

text \<open>What the rest of the gateway relies on: one connection per user, the registered one is open, and
  registering again or removing closes the previous one.\<close>

locale user_registry =
  fixes inv :: "'s \<Rightarrow> bool" and get :: "string \<Rightarrow> 's \<Rightarrow> 'c option" and add :: "string \<Rightarrow> 's \<Rightarrow> 'c \<times> 's"
    and remove :: "string \<Rightarrow> 's \<Rightarrow> 's" and is_open :: "'c \<Rightarrow> 's \<Rightarrow> bool"
  assumes inv_add: "inv s \<Longrightarrow> inv (snd (add u s))"
    and inv_remove: "inv s \<Longrightarrow> inv (remove u s)"
    and get_add: "inv s \<Longrightarrow> get v (snd (add u s)) = (if v = u then Some (fst (add u s)) else get v s)"
    and get_remove: "inv s \<Longrightarrow> get v (remove u s) = (if v = u then None else get v s)"
    and get_open: "inv s \<Longrightarrow> get u s = Some c \<Longrightarrow> is_open c s"
    and add_closes: "inv s \<Longrightarrow> get u s = Some c \<Longrightarrow> \<not> is_open c (snd (add u s))"
    and remove_closes: "inv s \<Longrightarrow> get u s = Some c \<Longrightarrow> \<not> is_open c (remove u s)"
begin

text \<open>A second registration replaces the first; removing the user then hits the second.\<close>

lemma replaced:
  assumes "inv s" and "add u s = (c1, s1)" and "add u s1 = (c2, s2)"
  shows "get u s2 = Some c2 \<and> is_open c2 s2 \<and> \<not> is_open c1 s2"
  using assms inv_add [of s u] inv_add [of s1 u] get_add [of s u u] get_add [of s1 u u]
    get_open [of s2 u c2] add_closes [of s1 u c1] by simp

lemma stale_remove:
  assumes "inv s" and "add u s = (c1, s1)" and "add u s1 = (c2, s2)"
  shows "get u (remove u s2) = None \<and> \<not> is_open c2 (remove u s2)"
  using assms inv_add [of s u] inv_add [of s1 u] get_add [of s1 u u]
    get_remove [of s2 u u] remove_closes [of s2 u c2] by simp

end

definition open_conn :: "nat \<Rightarrow> 'r gateway \<Rightarrow> bool" where
  "open_conn i g \<longleftrightarrow> i < length (gw_heap g) \<and> \<not> cn_closed (gw_heap g ! i)"

lemma AddConnection_fst: "fst (AddConnection cfg t now u guild g) = length (gw_heap g)"
  by (simp add: AddConnection_def Let_def split: option.split)

lemma AddConnection_conns: "gw_conns (snd (AddConnection cfg t now u guild g)) =
    AList.update u (length (gw_heap g)) (gw_conns g)"
  by (simp add: AddConnection_def Let_def split: option.split)

lemma AddConnection_heap: "gw_heap (snd (AddConnection cfg t now u guild g)) =
    gw_heap (case map_of (gw_conns g) u of None \<Rightarrow> g | Some i \<Rightarrow> close_conn cfg i g) @
    [NewConnection now u guild]"
  by (simp add: AddConnection_def Let_def)

lemma AddConnection_closes:
  assumes "gw_inv g" and "GetConnection u g = Some i"
  shows "cn_closed (gw_heap (snd (AddConnection cfg t now u guild g)) ! i)"
  using assms gw_invD(1) [of g u i]
  by (simp add: AddConnection_heap GetConnection_def nth_append close_conn_nth)

lemma RemoveConnection_closes:
  assumes "gw_inv g" and "GetConnection u g = Some i"
  shows "cn_closed (gw_heap (snd (RemoveConnection cfg t u g)) ! i)"
  using assms gw_invD(1) [of g u i]
  by (simp add: RemoveConnection_heap_conns GetConnection_def close_conn_nth)

lemma GetConnection_Remove: "GetConnection v (snd (RemoveConnection cfg t u g)) =
    (if v = u then None else GetConnection v g)"
proof (cases "map_of (gw_conns g) u")
  case None
  then show ?thesis by (simp add: RemoveConnection_missing GetConnection_def)
next
  case (Some i)
  then show ?thesis by (simp add: RemoveConnection_heap_conns GetConnection_def delete_conv')
qed

interpretation manager: user_registry gw_inv GetConnection "\<lambda>u. AddConnection cfg t now u guild"
  "\<lambda>u g. snd (RemoveConnection cfg t u g)" open_conn
  for cfg :: "'r manager_config" and t now :: int and guild :: string
proof unfold_locales
  fix g :: "'r gateway" and u v i
  show "gw_inv g \<Longrightarrow> gw_inv (snd (AddConnection cfg t now u guild g))" by (rule gw_inv_AddConnection)
  show "gw_inv g \<Longrightarrow> gw_inv (snd (RemoveConnection cfg t u g))" by (rule gw_inv_RemoveConnection)
  show "GetConnection v (snd (AddConnection cfg t now u guild g)) =
      (if v = u then Some (fst (AddConnection cfg t now u guild g)) else GetConnection v g)"
    by (simp add: GetConnection_def AddConnection_conns AddConnection_fst update_conv')
  show "GetConnection v (snd (RemoveConnection cfg t u g)) = (if v = u then None else GetConnection v g)"
    by (rule GetConnection_Remove)
  assume "gw_inv g" "GetConnection u g = Some i"
  then show "open_conn i g" "\<not> open_conn i (snd (AddConnection cfg t now u guild g))"
    "\<not> open_conn i (snd (RemoveConnection cfg t u g))"
    using gw_invD [of g u i] AddConnection_closes RemoveConnection_closes
    by (auto simp: open_conn_def GetConnection_def)
qed

section \<open>Heartbeats\<close>

lemma GetConnection_remove_users: "GetConnection v (remove_users cfg t us g) =
    (if v \<in> set us then None else GetConnection v g)"
  unfolding remove_users_def by (induction us arbitrary: g) (auto simp: GetConnection_Remove)

lemma RemoveConnection_heap_mono:
  "gw_inv g \<Longrightarrow> j < length (gw_heap g) \<Longrightarrow>
     length (gw_heap (snd (RemoveConnection cfg t u g))) = length (gw_heap g) \<and>
     conn_evolves (gw_heap g ! j) (gw_heap (snd (RemoveConnection cfg t u g)) ! j)"
  by (cases "map_of (gw_conns g) u")
    (auto simp: RemoveConnection_missing RemoveConnection_heap_conns close_conn_nth conn_evolves_def)

lemma remove_users_closes:
  assumes "gw_inv g" and "u \<in> set us" and "GetConnection u g = Some i"
  shows "cn_closed (gw_heap (remove_users cfg t us g) ! i)"
proof -
  have mono: "cn_closed (gw_heap (remove_users cfg t us g) ! i)"
    if "gw_inv g" "i < length (gw_heap g)" "cn_closed (gw_heap g ! i)" for us g
    using that
  proof (induction us arbitrary: g)
    case (Cons v us)
    show ?case
      using Cons.IH [of "snd (RemoveConnection cfg t v g)"] Cons.prems gw_inv_RemoveConnection
        RemoveConnection_heap_mono [OF Cons.prems(1,2)]
      by (auto simp: remove_users_def conn_evolves_def)
  qed (simp add: remove_users_def)
  have len: "i < length (gw_heap g)" using gw_invD(1) assms(1,3) by (auto simp: GetConnection_def)
  show ?thesis using assms len
  proof (induction us arbitrary: g)
    case (Cons v us)
    let ?g = "snd (RemoveConnection cfg t v g)"
    have g': "gw_inv ?g" "i < length (gw_heap ?g)"
      using Cons.prems gw_inv_RemoveConnection RemoveConnection_heap_mono [OF Cons.prems(1,4)] by auto
    show ?case
    proof (cases "v = u")
      case True
      then have "cn_closed (gw_heap ?g ! i)" using RemoveConnection_closes Cons.prems by blast
      with mono [OF g', of us] show ?thesis by (simp add: remove_users_def)
    next
      case False
      then have "GetConnection u ?g = Some i" using Cons.prems(3) by (simp add: GetConnection_Remove)
      with Cons.IH [OF g'(1) _ this g'(2)] Cons.prems(2) False show ?thesis by (simp add: remove_users_def)
    qed
  qed simp
qed

lemma in_dead_users: "u \<in> set (dead_users now timeout g) \<longleftrightarrow>
    (\<exists>j. (u, j) \<in> set (gw_conns g) \<and> \<not> IsAlive now timeout (gw_heap g ! j))"
  by (force simp: dead_users_def)

lemma mapped_iff: "gw_inv g \<Longrightarrow> (u, j) \<in> set (gw_conns g) \<longleftrightarrow> GetConnection u g = Some j"
  by (simp add: GetConnection_def gw_inv_def map_of_eq_Some_iff)

lemma dead_users_iff:
  "gw_inv g \<Longrightarrow> GetConnection u g = Some i \<Longrightarrow>
     u \<in> set (dead_users now timeout g) \<longleftrightarrow> \<not> IsAlive now timeout (gw_heap g ! i)"
  by (simp add: in_dead_users mapped_iff)

lemma dead_users_mapped: "gw_inv g \<Longrightarrow> u \<in> set (dead_users now timeout g) \<Longrightarrow> GetConnection u g \<noteq> None"
  by (auto simp: in_dead_users mapped_iff)

lemma checkHeartbeats_get:
  assumes "gw_inv g"
  shows "GetConnection u (checkHeartbeats cfg t now timeout g) =
    (case GetConnection u g of None \<Rightarrow> None
     | Some i \<Rightarrow> if IsAlive now timeout (gw_heap g ! i) then Some i else None)"
proof -
  have "GetConnection u (checkHeartbeats cfg t now timeout g) =
      GetConnection u (remove_users cfg t (dead_users now timeout g) g)"
    by (simp add: checkHeartbeats_def GetConnection_def)
  then show ?thesis
    using dead_users_iff [OF assms, of u] dead_users_mapped [OF assms, of u now timeout]
    by (auto simp: GetConnection_remove_users split: option.splits)
qed

lemma checkHeartbeats_closes:
  assumes "gw_inv g" and "GetConnection u g = Some i" and "\<not> IsAlive now timeout (gw_heap g ! i)"
  shows "cn_closed (gw_heap (checkHeartbeats cfg t now timeout g) ! i)"
  using remove_users_closes [OF assms(1) _ assms(2)] dead_users_iff [OF assms(1,2)] assms(3)
  by (simp add: checkHeartbeats_def)

end
