(* ===== verification/GatewayHandler.thy ===== *)
theory GatewayHandler
  imports Gateway Kafka Proto
begin

text \<open>
  The message handler of the gateway (\<^verbatim>\<open>internal/pkg/gateway/handler.go\<close>): upstream messages go from
  a websocket to Kafka, downstream messages from Redis Pub/Sub to the send channels of the
  connections of a guild.  The protobuf and JSON codecs, Sarama and the websockets are parameters.
  A send on a closed channel is \<open>Panics\<close>; a send on a channel that stays full until the timeout
  fails.
\<close>

section \<open>Channels\<close>

text \<open>\<^verbatim>\<open>select { case conn.Send <- data: ... case <-time.After(...): ... }\<close>\<close>

definition try_send :: "nat \<Rightarrow> string \<Rightarrow> 'r gateway \<Rightarrow> (bool \<times> 'r gateway) outcome" where
  "try_send i data g =
     (let c = gw_heap g ! i
      in if cn_sendClosed c then Panics
         else if length (cn_Send c) < send_capacity
              then Returns (True, upd_conn i (\<lambda>c. c\<lparr>cn_Send := cn_Send c @ [data]\<rparr>) g)
              else Returns (False, g))"

section \<open>Upstream\<close>

definition validateMessage :: "ws_message \<Rightarrow> connection \<Rightarrow> go_error option" where
  "validateMessage msg conn =
     (if w_Content msg = [] then Some (Err ''message content cannot be empty'')
      else if length (w_Content msg) > 2000
           then Some (Err ''message content exceeds maximum length of 2000 characters'')
      else if cn_GuildID conn \<noteq> [] \<and> w_GuildId msg \<noteq> [] \<and> w_GuildId msg \<noteq> cn_GuildID conn
           then Some (Err (''cannot send message to guild '' @ w_GuildId msg @ '', connected to guild '' @ cn_GuildID conn))
      else None)"

definition parse_upstream :: "ws_unmarshal \<Rightarrow> (string \<Rightarrow> ws_message \<Rightarrow> go_error option \<times> ws_message) \<Rightarrow> string
    \<Rightarrow> ws_message result" where
  "parse_upstream unmarshal jsonUnmarshal data =
     (case unmarshal data of
        (None, m) \<Rightarrow> Inr m
      | (Some e, m) \<Rightarrow>
          (case jsonUnmarshal data m of
             (Some je, m') \<Rightarrow> Inl (Wrap ''failed to parse message: protobuf error'' e)
           | (None, m') \<Rightarrow> Inr m'))"

definition stamp_upstream :: "int \<Rightarrow> connection \<Rightarrow> ws_message \<Rightarrow> ws_message" where
  "stamp_upstream now conn m =
     (let m1 = m\<lparr>w_UserId := cn_UserID conn\<rparr>;
          m2 = (if cn_GuildID conn \<noteq> [] then m1\<lparr>w_GuildId := cn_GuildID conn\<rparr> else m1)
      in m2\<lparr>w_Timestamp := now div 10 ^ 6\<rparr>)"

definition handleUpstreamMessage :: "ws_unmarshal \<Rightarrow> (string \<Rightarrow> ws_message \<Rightarrow> go_error option \<times> ws_message) \<Rightarrow>
    ws_marshal \<Rightarrow> (producer_message \<Rightarrow> (int \<times> int, 'k) action) \<Rightarrow> kafka_config \<Rightarrow> int \<Rightarrow> connection \<Rightarrow> string \<Rightarrow> 'k
    \<Rightarrow> go_error option \<times> 'k" where
  "handleUpstreamMessage unmarshal jsonUnmarshal marshal send kcfg now conn data k =
     (case parse_upstream unmarshal jsonUnmarshal data of
        Inl e \<Rightarrow> (Some e, k)
      | Inr m \<Rightarrow>
          (case validateMessage m conn of
             Some e \<Rightarrow> (Some (Wrap ''message validation failed'' e), k)
           | None \<Rightarrow>
               (let m' = stamp_upstream now conn m
                in case marshal m' of
                     Inl e \<Rightarrow> (Some (Wrap ''failed to serialize message'' e), k)
                   | Inr msgData \<Rightarrow>
                       (case Produce send (tp_Message (kf_Topics kcfg)) (Some (w_GuildId m')) msgData k of
                          (Inl e, k') \<Rightarrow> (Some (Wrap ''failed to send message to kafka'' e), k')
                        | (Inr po, k') \<Rightarrow> (None, k')))))"

definition sendError :: "ws_marshal \<Rightarrow> int \<Rightarrow> nat \<Rightarrow> string \<Rightarrow> 'r gateway \<Rightarrow> 'r gateway outcome" where
  "sendError marshal now i errorMsg g =
     (case marshal (empty_ws\<lparr>w_Type := MessageType_SYSTEM, w_Content := errorMsg, w_Timestamp := now div 10 ^ 9\<rparr>) of
        Inl e \<Rightarrow> Returns g
      | Inr data \<Rightarrow>
          (case try_send i data g of Panics \<Rightarrow> Panics | Returns (sent, g') \<Rightarrow> Returns g'))"

section \<open>Downstream\<close>

fun push_all :: "nat list \<Rightarrow> string \<Rightarrow> 'r gateway \<Rightarrow> (nat \<times> 'r gateway) outcome" where
  "push_all [] data g = Returns (0, g)"
| "push_all (i # is) data g =
     (case try_send i data g of
        Panics \<Rightarrow> Panics
      | Returns (sent, g') \<Rightarrow>
          (case push_all is data g' of
             Panics \<Rightarrow> Panics
           | Returns (n, g'') \<Rightarrow> Returns (if sent then n + 1 else n, g'')))"

definition handleDownstreamMessage :: "ws_unmarshal \<Rightarrow> ws_marshal \<Rightarrow> string \<Rightarrow> 'r gateway
    \<Rightarrow> (go_error option \<times> 'r gateway) outcome" where
  "handleDownstreamMessage unmarshal marshal payload g =
     (case unmarshal payload of
        (Some e, m) \<Rightarrow> Returns (Some (Wrap ''failed to unmarshal message'' e), g)
      | (None, m) \<Rightarrow>
          (let connections = GetConnectionsByGuild (w_GuildId m) g
           in if connections = [] then Returns (None, g)
              else case marshal m of
                     Inl e \<Rightarrow> Returns (Some (Wrap ''failed to serialize message'' e), g)
                   | Inr msgData \<Rightarrow>
                       (case push_all connections msgData g of
                          Panics \<Rightarrow> Panics
                        | Returns (n, g') \<Rightarrow> Returns (None, g'))))"

text \<open>\<^verbatim>\<open>receiveMessages\<close>: what its \<^verbatim>\<open>select\<close> takes at each turn.\<close>

datatype pubsub_event = PubSubMessage string | PubSubClosed | HandlerDone

fun receiveMessages :: "ws_unmarshal \<Rightarrow> ws_marshal \<Rightarrow> pubsub_event list \<Rightarrow> 'r gateway \<Rightarrow> 'r gateway outcome" where
  "receiveMessages unmarshal marshal (PubSubMessage payload # evs) g =
     (case handleDownstreamMessage unmarshal marshal payload g of
        Panics \<Rightarrow> Panics
      | Returns (e, g') \<Rightarrow> receiveMessages unmarshal marshal evs g')"
| "receiveMessages unmarshal marshal _ g = Returns g"

definition StartSubscriber :: "'r redis \<Rightarrow> int \<Rightarrow> string \<Rightarrow> 'r gateway \<Rightarrow> go_error option \<times> 'r gateway" where
  "StartSubscriber exec t pattern g =
     (case PSubscribe exec t [pattern] (gw_redis g) of
        (Some e, r) \<Rightarrow> (Some (Wrap (''failed to subscribe to pattern '' @ pattern) e), g\<lparr>gw_redis := r\<rparr>)
      | (None, r) \<Rightarrow> (None, g\<lparr>gw_redis := r\<rparr>))"

section \<open>Disconnecting and the pumps\<close>

definition handleDisconnect :: "'r manager_config \<Rightarrow> int \<Rightarrow> nat \<Rightarrow> 'r gateway \<Rightarrow> 'r gateway" where
  "handleDisconnect cfg t i g =
     (let u = cn_UserID (gw_heap g ! i);
          g1 = snd (RemoveConnection cfg t u g);
          g2 = close_conn cfg i g1
      in case IsUserOnline (mc_exec cfg) t u (gw_redis g2) of
           (Inl e, r) \<Rightarrow> g2\<lparr>gw_redis := r\<rparr>
         | (Inr isOnline, r) \<Rightarrow>
             if isOnline then g2\<lparr>gw_redis := snd (RemoveUserOnline (mc_exec cfg) t u r)\<rparr>
             else g2\<lparr>gw_redis := r\<rparr>)"

text \<open>What \<^verbatim>\<open>ReadMessage\<close> yields to \<^verbatim>\<open>readPump\<close>: a pong is handled inside it.  The pump of connection \<open>i\<close>
  checks its context before every read; when the events are used up it is still reading.\<close>

datatype read_event = ReadFrame int string int | ReadPong int | ReadError

definition TextMessage :: int where "TextMessage = 1"
definition BinaryMessage :: int where "BinaryMessage = 2"
definition CloseMessage :: int where "CloseMessage = 8"
definition PingMessage :: int where "PingMessage = 9"

fun readPump :: "(int \<Rightarrow> connection \<Rightarrow> string \<Rightarrow> 'k \<Rightarrow> go_error option \<times> 'k) \<Rightarrow> ws_marshal \<Rightarrow> 'r manager_config \<Rightarrow> int \<Rightarrow>
    nat \<Rightarrow> read_event list \<Rightarrow> 'r gateway \<times> 'k \<Rightarrow> ('r gateway \<times> 'k) outcome" where
  "readPump upstream marshal cfg t i [] (g, k) =
     Returns (if conn_done i g then handleDisconnect cfg t i g else g, k)"
| "readPump upstream marshal cfg t i (ev # evs) (g, k) =
     (if conn_done i g then Returns (handleDisconnect cfg t i g, k)
      else case ev of
             ReadError \<Rightarrow> Returns (handleDisconnect cfg t i g, k)
           | ReadPong now \<Rightarrow> readPump upstream marshal cfg t i evs (upd_conn i (UpdateHeartbeat now) g, k)
           | ReadFrame messageType data now \<Rightarrow>
               if messageType = TextMessage \<or> messageType = BinaryMessage then
                 (case upstream now (gw_heap g ! i) data k of
                    (None, k') \<Rightarrow> readPump upstream marshal cfg t i evs (g, k')
                  | (Some e, k') \<Rightarrow>
                      (case sendError marshal now i (''Failed to process message: '' @ error_text e) g of
                         Panics \<Rightarrow> Panics
                       | Returns g' \<Rightarrow> readPump upstream marshal cfg t i evs (g', k')))
               else if messageType = PingMessage
               then readPump upstream marshal cfg t i evs (upd_conn i (UpdateHeartbeat now) g, k)
               else readPump upstream marshal cfg t i evs (g, k))"

datatype write_event = TakeSend | WriteTick | WriteDone

text \<open>One turn of \<^verbatim>\<open>writePump\<close>; the flag says whether the loop goes on.  A receive from an empty open
  channel is not ready.\<close>

definition write_turn :: "'r manager_config \<Rightarrow> nat \<Rightarrow> write_event \<Rightarrow> 'r gateway \<Rightarrow> bool \<times> 'r gateway" where
  "write_turn cfg i ev g =
     (case ev of
        WriteDone \<Rightarrow> (\<not> conn_done i g, g)
      | WriteTick \<Rightarrow>
          (let (err, c') = WriteMessage (mc_sockWrite cfg) PingMessage [] (gw_heap g ! i)
           in (err = None, upd_conn i (\<lambda>_. c') g))
      | TakeSend \<Rightarrow>
          (case cn_Send (gw_heap g ! i) of
             [] \<Rightarrow>
               if cn_sendClosed (gw_heap g ! i)
               then (False, upd_conn i (\<lambda>c. snd (WriteMessage (mc_sockWrite cfg) CloseMessage [] c)) g)
               else (True, g)
           | m # ms \<Rightarrow>
               (let (err, c') = WriteMessage (mc_sockWrite cfg) BinaryMessage m ((gw_heap g ! i)\<lparr>cn_Send := ms\<rparr>)
                in (err = None, upd_conn i (\<lambda>_. c') g))))"

fun writePump :: "'r manager_config \<Rightarrow> nat \<Rightarrow> write_event list \<Rightarrow> 'r gateway \<Rightarrow> 'r gateway" where
  "writePump cfg i [] g = g"
| "writePump cfg i (ev # evs) g =
     (let (go_on, g') = write_turn cfg i ev g in if go_on then writePump cfg i evs g' else g')"

section \<open>The invariant is kept\<close>

lemma gw_inv_upd_at:
  assumes "gw_inv g" and "i < length (gw_heap g)" and "conn_ok (gw_heap g ! i) \<Longrightarrow> conn_ok (f (gw_heap g ! i))"
    and "cn_UserID (f (gw_heap g ! i)) = cn_UserID (gw_heap g ! i)"
    and "cn_closed (f (gw_heap g ! i)) = cn_closed (gw_heap g ! i)"
  shows "gw_inv (upd_conn i f g)"
proof (rule gw_invI)
  have ok: "conn_ok (f (gw_heap g ! i))" using assms(3) gw_inv_heap [OF assms(1) nth_mem [OF assms(2)]] .
  show "distinct (map fst (gw_conns (upd_conn i f g)))" using assms(1) by (simp add: gw_inv_def)
  show "conn_ok c" if "c \<in> set (gw_heap (upd_conn i f g))" for c
    using that ok gw_inv_heap [OF assms(1)] set_update_subset_insert [of "gw_heap g" i "f (gw_heap g ! i)"]
    by (auto simp: upd_conn_def)
  show "j < length (gw_heap (upd_conn i f g)) \<and> cn_UserID (gw_heap (upd_conn i f g) ! j) = u \<and>
      \<not> cn_closed (gw_heap (upd_conn i f g) ! j)" if "(u, j) \<in> set (gw_conns (upd_conn i f g))" for u j
    using gw_inv_mapped [OF assms(1), of u j] that assms(4,5) by (auto simp: upd_conn_nth)
qed

lemma try_send_inv:
  assumes "gw_inv g" and "i < length (gw_heap g)" and "try_send i data g = Returns (sent, g')"
  shows "gw_inv g'" and "gw_conns g' = gw_conns g" and "length (gw_heap g') = length (gw_heap g)"
  using assms gw_inv_upd_at [OF assms(1,2), of "\<lambda>c. c\<lparr>cn_Send := cn_Send c @ [data]\<rparr>"]
  by (auto simp: try_send_def Let_def conn_ok_def split: if_splits)

lemma try_send_open:
  assumes "gw_inv g" and "(u, i) \<in> set (gw_conns g)"
  shows "try_send i data g \<noteq> Panics"
proof -
  have "conn_ok (gw_heap g ! i)" "\<not> cn_closed (gw_heap g ! i)"
    using gw_inv_mapped [OF assms] gw_inv_heap [OF assms(1)] by auto
  then show ?thesis by (auto simp: try_send_def Let_def conn_ok_def)
qed

lemma push_all_inv:
  assumes "gw_inv g" and "set is \<subseteq> snd ` set (gw_conns g)"
  shows "\<exists>n g'. push_all is data g = Returns (n, g') \<and> gw_inv g' \<and> gw_conns g' = gw_conns g \<and>
    length (gw_heap g') = length (gw_heap g)"
  using assms
proof (induction "is" arbitrary: g)
  case (Cons i "is")
  then obtain u where ui: "(u, i) \<in> set (gw_conns g)" by force
  then have i: "i < length (gw_heap g)" using gw_inv_mapped(1) [OF Cons.prems(1)] by blast
  obtain sent g' where ts: "try_send i data g = Returns (sent, g')"
    using try_send_open [OF Cons.prems(1) ui] by (metis outcome.exhaust surj_pair)
  note g' = try_send_inv [OF Cons.prems(1) i ts]
  have "set is \<subseteq> snd ` set (gw_conns g')" using Cons.prems(2) g'(2) by simp
  from Cons.IH [OF g'(1) this] ts g' show ?case by fastforce
qed simp

lemma set_GetConnectionsByGuild: "i \<in> set (GetConnectionsByGuild guild g) \<longleftrightarrow>
    (\<exists>u. (u, i) \<in> set (gw_conns g)) \<and> cn_GuildID (gw_heap g ! i) = guild"
  by (force simp: GetConnectionsByGuild_def)

lemma handleDownstreamMessage_inv:
  assumes "gw_inv g"
  shows "\<exists>e g'. handleDownstreamMessage unmarshal marshal payload g = Returns (e, g') \<and> gw_inv g'"
proof -
  obtain e m where u: "unmarshal payload = (e, m)" by fastforce
  have "set (GetConnectionsByGuild (w_GuildId m) g) \<subseteq> snd ` set (gw_conns g)"
    by (force simp: set_GetConnectionsByGuild)
  note push = push_all_inv [OF assms this]
  show ?thesis
  proof (cases "e = None \<and> GetConnectionsByGuild (w_GuildId m) g \<noteq> [] \<and> \<not> isl (marshal m)")
    case True
    then obtain d where d: "marshal m = Inr d" by (cases "marshal m") auto
    obtain n g' where "push_all (GetConnectionsByGuild (w_GuildId m) g) d g = Returns (n, g')" "gw_inv g'"
      using push by blast
    then show ?thesis using True u d by (simp add: handleDownstreamMessage_def Let_def)
  next
    case False
    then show ?thesis using u assms
      by (cases e; cases "marshal m") (auto simp: handleDownstreamMessage_def Let_def)
  qed
qed

lemma sendError_inv:
  "gw_inv g \<Longrightarrow> i < length (gw_heap g) \<Longrightarrow> sendError marshal now i msg g = Returns g' \<Longrightarrow> gw_inv g'"
  by (auto simp: sendError_def split: sum.splits outcome.splits dest: try_send_inv(1))

lemma snd_WriteMessage [simp]:
  "cn_UserID (snd (WriteMessage sw ty d c)) = cn_UserID c" "cn_closed (snd (WriteMessage sw ty d c)) = cn_closed c"
  "cn_sendClosed (snd (WriteMessage sw ty d c)) = cn_sendClosed c"
  "cn_cancelled (snd (WriteMessage sw ty d c)) = cn_cancelled c"
  "cn_socketClosed (snd (WriteMessage sw ty d c)) = cn_socketClosed c"
  "cn_Send (snd (WriteMessage sw ty d c)) = cn_Send c"
  by (auto simp: WriteMessage_def split: option.split)

lemma write_turn_inv:
  assumes "gw_inv g" and "i < length (gw_heap g)"
  shows "gw_inv (snd (write_turn cfg i ev g))"
proof (cases ev)
  case TakeSend
  then show ?thesis
    using assms gw_inv_upd_at [OF assms] conn_ok_def
    by (auto simp: write_turn_def case_prod_beta conn_ok_def split: list.split intro!: gw_inv_upd_at [OF assms])
next
  case WriteTick
  then show ?thesis
    by (auto simp: write_turn_def case_prod_beta conn_ok_def intro!: gw_inv_upd_at [OF assms])
next
  case WriteDone
  then show ?thesis using assms by (simp add: write_turn_def)
qed

lemma handleDisconnect_gw:
  "gw_heap (handleDisconnect cfg t i g) =
     gw_heap (close_conn cfg i (snd (RemoveConnection cfg t (cn_UserID (gw_heap g ! i)) g)))"
  "gw_conns (handleDisconnect cfg t i g) =
     gw_conns (snd (RemoveConnection cfg t (cn_UserID (gw_heap g ! i)) g))"
  by (auto simp: handleDisconnect_def Let_def split: prod.splits sum.splits)

lemma handleDisconnect_inv:
  assumes "gw_inv g" and "i < length (gw_heap g)"
  shows "gw_inv (handleDisconnect cfg t i g)"
proof -
  define u where "u = cn_UserID (gw_heap g ! i)"
  define g1 where "g1 = snd (RemoveConnection cfg t u g)"
  have inv1: "gw_inv g1" using gw_inv_RemoveConnection [OF assms(1)] by (simp add: g1_def)
  have i1: "i < length (gw_heap g1)" and ui: "cn_UserID (gw_heap g1 ! i) = u"
    using RemoveConnection_heap_mono [OF assms, of cfg t u] assms(2)
    by (simp_all add: g1_def u_def conn_evolves_def)
  have "j \<noteq> i" if "(v, j) \<in> set (gw_conns g1)" for v j
  proof
    assume "j = i"
    then have "v = u" using gw_inv_mapped(2) [OF inv1 that] ui by simp
    then show False using that mapped_iff [OF inv1] GetConnection_Remove [of u cfg t u g] by (simp add: g1_def)
  qed
  then have "gw_inv ((close_conn cfg i g1)\<lparr>gw_conns := gw_conns g1\<rparr>)"
    using inv1 by (intro gw_inv_close [OF inv1 i1]) (auto simp: gw_inv_def)
  then show ?thesis
    using handleDisconnect_gw [of cfg t i g] by (simp add: gw_inv_def g1_def u_def)
qed

section \<open>Runs of the gateway\<close>

text \<open>The goroutines of the gateway interleave; each step is one of the operations above.\<close>

inductive gateway_step :: "'r manager_config \<Rightarrow> 'r gateway \<Rightarrow> 'r gateway \<Rightarrow> bool" for cfg where
  step_add: "gateway_step cfg g (snd (AddConnection cfg t now u guild g))"
| step_remove: "gateway_step cfg g (snd (RemoveConnection cfg t u g))"
| step_disconnect: "i < length (gw_heap g) \<Longrightarrow> gateway_step cfg g (handleDisconnect cfg t i g)"
| step_heartbeats: "gateway_step cfg g (checkHeartbeats cfg t now timeout g)"
| step_shutdown: "gateway_step cfg g (manager_Shutdown cfg g)"
| step_downstream: "handleDownstreamMessage unmarshal marshal payload g = Returns (e, g') \<Longrightarrow> gateway_step cfg g g'"
| step_error: "i < length (gw_heap g) \<Longrightarrow> sendError marshal now i msg g = Returns g' \<Longrightarrow> gateway_step cfg g g'"
| step_write: "i < length (gw_heap g) \<Longrightarrow> gateway_step cfg g (snd (write_turn cfg i ev g))"
| step_heartbeat: "i < length (gw_heap g) \<Longrightarrow> gateway_step cfg g (upd_conn i (UpdateHeartbeat now) g)"

lemma gateway_step_inv: "gateway_step cfg g g' \<Longrightarrow> gw_inv g \<Longrightarrow> gw_inv g'"
proof (induction rule: gateway_step.induct)
  case (step_downstream unmarshal marshal payload g e g')
  then show ?case using handleDownstreamMessage_inv [of g unmarshal marshal payload] by simp
next
  case (step_heartbeat i g now)
  then show ?case by (intro gw_inv_upd_at) (auto simp: UpdateHeartbeat_def conn_ok_def)
qed (auto intro: gw_inv_AddConnection gw_inv_RemoveConnection handleDisconnect_inv gw_inv_checkHeartbeats
    gw_inv_Shutdown write_turn_inv sendError_inv)

lemma gateway_reach_inv:
  assumes "(gateway_step cfg)\<^sup>*\<^sup>* (NewConnectionManager r) g"
  shows "gw_inv g"
  using assms by (induction rule: rtranclp_induct) (auto intro: gateway_step_inv)

section \<open>The subscriber's life\<close>

text \<open>The handler with its context and the goroutine of \<^verbatim>\<open>receiveMessages\<close>.  Its \<^verbatim>\<open>select\<close> may take a message although the context is done; it ends when it
  takes the context or a closed channel.\<close>

record 'r message_handler =
  mh_gateway :: "'r gateway"
  mh_done :: bool
  mh_receiving :: bool

definition NewMessageHandler :: "'r gateway \<Rightarrow> 'r message_handler" where
  "NewMessageHandler connManager = \<lparr>mh_gateway = connManager, mh_done = False, mh_receiving = False\<rparr>"

definition handler_StartSubscriber :: "'r redis \<Rightarrow> int \<Rightarrow> string \<Rightarrow> 'r message_handler \<Rightarrow> go_error option \<times> 'r message_handler" where
  "handler_StartSubscriber exec t pattern h =
     (case StartSubscriber exec t pattern (mh_gateway h) of
        (Some e, g) \<Rightarrow> (Some e, h\<lparr>mh_gateway := g\<rparr>)
      | (None, g) \<Rightarrow> (None, h\<lparr>mh_gateway := g, mh_receiving := True\<rparr>))"

definition handler_Shutdown :: "'r message_handler \<Rightarrow> go_error option \<times> 'r message_handler" where
  "handler_Shutdown h = (None, h\<lparr>mh_done := True\<rparr>)"

inductive receiver_step :: "ws_unmarshal \<Rightarrow> ws_marshal \<Rightarrow> 'r message_handler \<Rightarrow> 'r message_handler \<Rightarrow> bool" for unmarshal marshal where
  receive_done: "mh_receiving h \<Longrightarrow> mh_done h \<Longrightarrow> receiver_step unmarshal marshal h (h\<lparr>mh_receiving := False\<rparr>)"
| receive_closed: "mh_receiving h \<Longrightarrow> receiver_step unmarshal marshal h (h\<lparr>mh_receiving := False\<rparr>)"
| receive_message: "mh_receiving h \<Longrightarrow> handleDownstreamMessage unmarshal marshal payload (mh_gateway h) = Returns (e, g) \<Longrightarrow>
    receiver_step unmarshal marshal h (h\<lparr>mh_gateway := g\<rparr>)"
| receive_shutdown: "receiver_step unmarshal marshal h (snd (handler_Shutdown h))"

inductive_cases receiver_stepE: "receiver_step unmarshal marshal h h'"

text \<open>The function \<open>receiveMessages\<close> is a run of these steps.\<close>

lemma receiveMessages_run:
  assumes "receiveMessages unmarshal marshal evs (mh_gateway h) = Returns g" and "mh_receiving h"
  shows "(receiver_step unmarshal marshal)\<^sup>*\<^sup>* h (h\<lparr>mh_gateway := g\<rparr>)"
  using assms
proof (induction evs arbitrary: h)
  case (Cons ev evs)
  show ?case
  proof (cases ev)
    case (PubSubMessage payload)
    then obtain e g1 where one: "handleDownstreamMessage unmarshal marshal payload (mh_gateway h) = Returns (e, g1)"
        and rest: "receiveMessages unmarshal marshal evs g1 = Returns g" using Cons.prems(1) by (auto split: outcome.splits)
    have "receiver_step unmarshal marshal h (h\<lparr>mh_gateway := g1\<rparr>)" by (rule receive_message [OF Cons.prems(2) one])
    moreover have "(receiver_step unmarshal marshal)\<^sup>*\<^sup>* (h\<lparr>mh_gateway := g1\<rparr>) (h\<lparr>mh_gateway := g\<rparr>)"
      using Cons.IH [of "h\<lparr>mh_gateway := g1\<rparr>"] rest Cons.prems(2) by simp
    ultimately show ?thesis by (rule converse_rtranclp_into_rtranclp)
  qed (use Cons.prems(1) in auto)
qed auto

text \<open>In every run the gateway stays consistent, a done context stays done, and once the receiver has ended the handler pushes nothing more.\<close>

lemma receiver_step_inv:
  assumes "receiver_step unmarshal marshal h h'" and "gw_inv (mh_gateway h)"
  shows "gw_inv (mh_gateway h') \<and> (mh_done h \<longrightarrow> mh_done h')"
proof -
  have "gw_inv g" if "handleDownstreamMessage unmarshal marshal payload (mh_gateway h) = Returns (e, g)" for payload e g
    using handleDownstreamMessage_inv [OF assms(2), of unmarshal marshal payload] that by auto
  then show ?thesis using assms by (auto elim!: receiver_stepE simp: handler_Shutdown_def)
qed

lemma receiver_ended:
  assumes "(receiver_step unmarshal marshal)\<^sup>*\<^sup>* h h'" and "\<not> mh_receiving h"
  shows "mh_gateway h' = mh_gateway h \<and> \<not> mh_receiving h'"
  using assms by (induction rule: rtranclp_induct) (auto elim!: receiver_stepE simp: handler_Shutdown_def)

text \<open>After \<^verbatim>\<open>Shutdown\<close> the receiver can always end at its next turn.\<close>

lemma receiver_can_end:
  assumes "(receiver_step unmarshal marshal)\<^sup>*\<^sup>* (snd (handler_Shutdown h)) h'" and "mh_receiving h'"
  shows "receiver_step unmarshal marshal h' (h'\<lparr>mh_receiving := False\<rparr>)"
proof (rule receive_done [OF assms(2)])
  show "mh_done h'" using assms(1) by (induction rule: rtranclp_induct) (auto elim!: receiver_stepE simp: handler_Shutdown_def)
qed

section \<open>Delivery\<close>

text \<open>What a push does to a connection that it reaches.\<close>

definition delivered :: "string \<Rightarrow> connection \<Rightarrow> connection" where
  "delivered data c = (if length (cn_Send c) < send_capacity then c\<lparr>cn_Send := cn_Send c @ [data]\<rparr> else c)"

lemma try_send_delivers:
  assumes "try_send i data g = Returns (sent, g')" and "j < length (gw_heap g)"
  shows "gw_heap g' ! j = (if j = i then delivered data (gw_heap g ! i) else gw_heap g ! j)"
  using assms by (auto simp: try_send_def Let_def delivered_def upd_conn_nth split: if_splits)

lemma push_all_delivers:
  assumes "gw_inv g" and "set is \<subseteq> snd ` set (gw_conns g)" and "distinct is" and "j < length (gw_heap g)"
    and "push_all is data g = Returns (n, g')"
  shows "gw_heap g' ! j = (if j \<in> set is then delivered data (gw_heap g ! j) else gw_heap g ! j)"
  using assms
proof (induction "is" arbitrary: g n)
  case (Cons i "is")
  obtain sent g1 where ts: "try_send i data g = Returns (sent, g1)"
    and rest: "\<exists>m. push_all is data g1 = Returns (m, g')"
    using Cons.prems(5) by (auto split: outcome.splits prod.splits)
  have i: "i < length (gw_heap g)" using Cons.prems(1,2) gw_inv_mapped(1) by fastforce
  note g1 = try_send_inv [OF Cons.prems(1) i ts]
  have "gw_heap g' ! j = (if j \<in> set is then delivered data (gw_heap g1 ! j) else gw_heap g1 ! j)"
    using Cons.IH [OF g1(1)] rest Cons.prems(2,3,4) g1 by auto
  then show ?case using try_send_delivers [OF ts Cons.prems(4)] Cons.prems(3) by auto
qed simp

lemma distinct_GetConnectionsByGuild:
  assumes "gw_inv g"
  shows "distinct (GetConnectionsByGuild guild g)"
proof -
  have "inj_on snd (set (gw_conns g))" using gw_inv_inj [OF assms] by (auto simp: inj_on_def)
  moreover have "distinct (gw_conns g)" using assms by (simp add: gw_inv_def distinct_map)
  ultimately show ?thesis
    by (auto simp: GetConnectionsByGuild_def distinct_map intro: inj_on_subset)
qed

lemma handleDownstreamMessage_delivers:
  assumes "gw_inv g" and "unmarshal payload = (None, m)" and "marshal m = Inr d"
  shows "\<exists>g'. handleDownstreamMessage unmarshal marshal payload g = Returns (None, g') \<and>
    gw_conns g' = gw_conns g \<and> length (gw_heap g') = length (gw_heap g) \<and>
    (\<forall>j < length (gw_heap g). gw_heap g' ! j =
       (if GetConnection (cn_UserID (gw_heap g ! j)) g = Some j \<and> cn_GuildID (gw_heap g ! j) = w_GuildId m
        then delivered d (gw_heap g ! j) else gw_heap g ! j))"
proof -
  let ?is = "GetConnectionsByGuild (w_GuildId m) g"
  have sub: "set ?is \<subseteq> snd ` set (gw_conns g)" by (force simp: set_GetConnectionsByGuild)
  obtain n g' where push: "push_all ?is d g = Returns (n, g')" and g': "gw_conns g' = gw_conns g"
    "length (gw_heap g') = length (gw_heap g)" using push_all_inv [OF assms(1) sub] by blast
  have target: "j \<in> set ?is \<longleftrightarrow> GetConnection (cn_UserID (gw_heap g ! j)) g = Some j \<and>
      cn_GuildID (gw_heap g ! j) = w_GuildId m" for j
    using gw_inv_mapped(2) [OF assms(1)] mapped_iff [OF assms(1)]
    unfolding set_GetConnectionsByGuild by metis
  have heap: "gw_heap g' ! j = (if j \<in> set ?is then delivered d (gw_heap g ! j) else gw_heap g ! j)"
    if "j < length (gw_heap g)" for j
    by (rule push_all_delivers [OF assms(1) sub distinct_GetConnectionsByGuild [OF assms(1)] that push])
  have "handleDownstreamMessage unmarshal marshal payload g = Returns (None, g')"
    using assms(2,3) push by (auto simp: handleDownstreamMessage_def Let_def)
  then show ?thesis using g' heap target by auto
qed

section \<open>Properties\<close>

text \<open>C7. In every reachable state of the gateway (any interleaving of connects, disconnects, heartbeat
  checks, pushes, writes and shutdown) the manager's map holds at most one connection per user,
  that connection belongs to the user and is open, a connection is closed exactly when its send
  channel, socket and context are, and no send queue exceeds its 256 slots.  So a downstream
  message that is handled in one such state never sends on a closed channel.\<close>

theorem gateway_invariant:
  assumes "(gateway_step cfg)\<^sup>*\<^sup>* (NewConnectionManager r) g"
  shows "distinct (map fst (gw_conns g)) \<and>
    (\<forall>(u, i) \<in> set (gw_conns g). i < length (gw_heap g) \<and> cn_UserID (gw_heap g ! i) = u \<and>
       \<not> cn_closed (gw_heap g ! i)) \<and>
    (\<forall>c \<in> set (gw_heap g). (cn_closed c \<longleftrightarrow> cn_sendClosed c) \<and> (cn_closed c \<longleftrightarrow> cn_socketClosed c) \<and>
       (cn_closed c \<longleftrightarrow> cn_cancelled c) \<and> length (cn_Send c) \<le> 256) \<and>
    handleDownstreamMessage unmarshal marshal payload g \<noteq> Panics"
proof -
  have inv: "gw_inv g" by (rule gateway_reach_inv [OF assms])
  moreover have "handleDownstreamMessage unmarshal marshal payload g \<noteq> Panics"
    using handleDownstreamMessage_inv [OF inv, of unmarshal marshal payload] by auto
  ultimately show ?thesis unfolding gw_inv_def conn_ok_def send_capacity_def by blast
qed

text \<open>A user who connects a second time is thrown out by the end of the first connection: the
  second \<^verbatim>\<open>AddConnection\<close> closes the first connection, whose read pump then runs \<^verbatim>\<open>handleDisconnect\<close>,
  which removes and closes the user's new connection.\<close>

theorem stale_disconnect_evicts:
  assumes "gw_inv g" and "AddConnection cfg t now u guild g = (i1, g1)"
    and "AddConnection cfg t' now' u guild' g1 = (i2, g2)"
  shows "GetConnection u g2 = Some i2 \<and> open_conn i2 g2 \<and> conn_done i1 g2 \<and>
    GetConnection u (handleDisconnect cfg t'' i1 g2) = None \<and>
    \<not> open_conn i2 (handleDisconnect cfg t'' i1 g2)"
proof -
  have inv1: "gw_inv g1" and inv2: "gw_inv g2"
    using manager.inv_add [of g cfg t now u guild] manager.inv_add [of g1 cfg t' now' u guild'] assms by auto
  have get1: "GetConnection u g1 = Some i1" and get2: "GetConnection u g2 = Some i2"
    using manager.get_add [of g u cfg t now u guild] manager.get_add [of g1 u cfg t' now' u guild'] assms inv1 by auto
  have i1: "i1 < length (gw_heap g2)" "cn_closed (gw_heap g2 ! i1)" and ne: "i1 \<noteq> i2"
  proof -
    have "i1 < length (gw_heap g1)" using gw_invD(1) [OF inv1] get1 by (simp add: GetConnection_def)
    moreover have "length (gw_heap g2) = Suc (length (gw_heap g1))" "i2 = length (gw_heap g1)"
      using AddConnection_heap [of cfg t' now' u guild' g1] AddConnection_fst [of cfg t' now' u guild' g1] assms(3)
      by (auto split: option.splits)
    ultimately show "i1 < length (gw_heap g2)" "i1 \<noteq> i2" by simp_all
    show "cn_closed (gw_heap g2 ! i1)" using AddConnection_closes [OF inv1 get1] assms(3) by (metis snd_conv)
  qed
  have ui: "cn_UserID (gw_heap g2 ! i1) = u"
  proof -
    have "cn_UserID (gw_heap g1 ! i1) = u" "i1 < length (gw_heap g1)"
      using gw_invD [OF inv1, of u i1] get1 by (simp_all add: GetConnection_def)
    then show ?thesis
      using AddConnection_heap [of cfg t' now' u guild' g1] assms(3) get1
      by (simp add: GetConnection_def nth_append close_conn_nth)
  qed
  have "cn_cancelled (gw_heap g2 ! i1)" using i1 gw_inv_heap [OF inv2 nth_mem [OF i1(1)]] by (simp add: conn_ok_def)
  moreover have "GetConnection u (handleDisconnect cfg t'' i1 g2) = None"
    using manager.get_remove [OF inv2, of u cfg t'' u] by (simp add: GetConnection_def handleDisconnect_gw ui)
  moreover have "cn_closed (gw_heap (handleDisconnect cfg t'' i1 g2) ! i2)"
    using RemoveConnection_closes [OF inv2 get2, of cfg t''] ne gw_invD(1) [OF inv2, of u i2] get2
      RemoveConnection_heap_mono [OF inv2, of i2 cfg t'' u]
    by (simp add: handleDisconnect_gw ui close_conn_nth GetConnection_def)
  ultimately show ?thesis
    using get2 manager.get_open [OF inv2 get2] by (simp add: conn_done_def open_conn_def)
qed

text \<open>A downstream message for a guild is appended, once, to the send queue of every registered
  connection of that guild that has room, and of no other connection; connections without a guild
  get messages of no guild but the empty one.\<close>

theorem downstream_delivery:
  assumes "gw_inv g" and "unmarshal payload = (None, m)" and "marshal m = Inr d"
  shows "\<exists>g'. handleDownstreamMessage unmarshal marshal payload g = Returns (None, g') \<and>
    gw_conns g' = gw_conns g \<and> length (gw_heap g') = length (gw_heap g) \<and>
    (\<forall>j < length (gw_heap g). gw_heap g' ! j =
       (if GetConnection (cn_UserID (gw_heap g ! j)) g = Some j \<and> cn_GuildID (gw_heap g ! j) = w_GuildId m
        then delivered d (gw_heap g ! j) else gw_heap g ! j))"
  using assms by (rule handleDownstreamMessage_delivers)

lemma stamp_upstream_fields:
  "w_UserId (stamp_upstream now conn m) = cn_UserID conn"
  "w_GuildId (stamp_upstream now conn m) = (if cn_GuildID conn = [] then w_GuildId m else cn_GuildID conn)"
  "w_Content (stamp_upstream now conn m) = w_Content m"
  "w_Timestamp (stamp_upstream now conn m) = now div 10 ^ 6"
  by (simp_all add: stamp_upstream_def Let_def)

lemma validateMessage_None:
  "validateMessage m conn = None \<Longrightarrow> w_Content m \<noteq> [] \<and> length (w_Content m) \<le> 2000"
  by (auto simp: validateMessage_def split: if_splits)

text \<open>The message a frame holds: in protobuf, or else in JSON read over what the protobuf decoder left.\<close>

definition read_frame :: "ws_unmarshal \<Rightarrow> (string \<Rightarrow> ws_message \<Rightarrow> go_error option \<times> ws_message) \<Rightarrow> string \<Rightarrow> ws_message \<Rightarrow> bool" where
  "read_frame unmarshal jsonUnmarshal data f \<longleftrightarrow>
     unmarshal data = (None, f) \<or> (\<exists>e f0. unmarshal data = (Some e, f0) \<and> jsonUnmarshal data f0 = (None, f))"

lemma handleUpstreamMessage_ok:
  assumes "kafka_broker send log" and "ws_codec marshal unmarshal"
    and "handleUpstreamMessage unmarshal jsonUnmarshal marshal send kcfg now conn data k = (None, k')"
  shows "\<exists>f m d. read_frame unmarshal jsonUnmarshal data f \<and>
    log k' = log k @ [\<lparr>pm_Topic = tp_Message (kf_Topics kcfg), pm_Key = Some (w_GuildId m), pm_Value = d\<rparr>] \<and>
    unmarshal d = (None, m) \<and> w_UserId m = cn_UserID conn \<and> w_GuildId m = (if cn_GuildID conn = [] then w_GuildId f else cn_GuildID conn) \<and>
    w_Content m = w_Content f \<and> w_Content m \<noteq> [] \<and> length (w_Content m) \<le> 2000 \<and> w_Timestamp m = now div 10 ^ 6"
proof -
  obtain m d po where parsed: "parse_upstream unmarshal jsonUnmarshal data = Inr m"
    and valid: "validateMessage m conn = None" and enc: "marshal (stamp_upstream now conn m) = Inr d"
    and prod: "Produce send (tp_Message (kf_Topics kcfg)) (Some (w_GuildId (stamp_upstream now conn m))) d k = (Inr po, k')"
    using assms(3) by (auto simp: handleUpstreamMessage_def Let_def split: sum.splits option.splits prod.splits)
  have "log k' = log k @ [\<lparr>pm_Topic = tp_Message (kf_Topics kcfg),
      pm_Key = Some (w_GuildId (stamp_upstream now conn m)), pm_Value = d\<rparr>]"
    by (rule kafka_broker.Produce_ok [OF assms(1) prod])
  moreover have "unmarshal d = (None, stamp_upstream now conn m)"
    by (rule ws_codec.unmarshal_marshal [OF assms(2) enc])
  moreover have "read_frame unmarshal jsonUnmarshal data m"
    using parsed by (auto simp: parse_upstream_def read_frame_def split: prod.splits option.splits)
  ultimately show ?thesis
    using validateMessage_None [OF valid] by (intro exI [of _ m] exI [of _ "stamp_upstream now conn m"] exI [of _ d]) (simp add: stamp_upstream_fields)
qed

text \<open>What reaches Kafka from a websocket: when \<^verbatim>\<open>handleUpstreamMessage\<close> reports no error, exactly one
  message was produced, to the message topic with its guild as key; it decodes to a message whose
  author is the connection's user (whatever the client claimed), whose guild is the connection's
  guild if it has one, and whose content has 1 to 2000 bytes.  Every error other than Kafka's own
  leaves Kafka untouched.\<close>

theorem upstream_authentic:
  assumes "kafka_broker send log" and "ws_codec marshal unmarshal"
    and "handleUpstreamMessage unmarshal jsonUnmarshal marshal send kcfg now conn data k = (res, k')"
  shows "case res of
      None \<Rightarrow> \<exists>m d. log k' = log k @ [\<lparr>pm_Topic = tp_Message (kf_Topics kcfg), pm_Key = Some (w_GuildId m), pm_Value = d\<rparr>] \<and>
        unmarshal d = (None, m) \<and> w_UserId m = cn_UserID conn \<and>
        (cn_GuildID conn \<noteq> [] \<longrightarrow> w_GuildId m = cn_GuildID conn) \<and>
        w_Content m \<noteq> [] \<and> length (w_Content m) \<le> 2000 \<and> w_Timestamp m = now div 10 ^ 6
    | Some e \<Rightarrow> k' = k \<or> (\<exists>e'. e = Wrap ''failed to send message to kafka'' e')"
proof (cases res)
  case None
  with handleUpstreamMessage_ok [OF assms(1,2)] assms(3) show ?thesis by fastforce
next
  case (Some e)
  with assms(3) show ?thesis
    by (auto simp: handleUpstreamMessage_def Let_def split: sum.splits option.splits prod.splits)
qed

text \<open>A heartbeat check removes and closes exactly the registered connections whose last heartbeat
  is at least the timeout ago; all others stay registered.\<close>

theorem checkHeartbeats_exact:
  assumes "gw_inv g"
  shows "GetConnection u (checkHeartbeats cfg t now timeout g) =
      (case GetConnection u g of None \<Rightarrow> None
       | Some i \<Rightarrow> if now - cn_lastHeartbeat (gw_heap g ! i) < timeout then Some i else None) \<and>
    (\<forall>i. GetConnection u g = Some i \<and> timeout \<le> now - cn_lastHeartbeat (gw_heap g ! i) \<longrightarrow>
      \<not> open_conn i (checkHeartbeats cfg t now timeout g))"
  using checkHeartbeats_get [OF assms, of u cfg t now timeout] checkHeartbeats_closes [OF assms]
  by (auto simp: IsAlive_def GetLastHeartbeat_def open_conn_def not_less split: option.splits)

section \<open>Examples\<close>

definition demo_manager :: "(bool \<times> rstate) manager_config" where
  "demo_manager = \<lparr>mc_exec = demo_exec, mc_HeartbeatInterval = 30, mc_nodeID = ''gw1'',
     mc_sockWrite = (\<lambda>_ _ _. None), mc_sockClose = (\<lambda>_. None)\<rparr>"

definition demo_gw0 :: "(bool \<times> rstate) gateway" where
  "demo_gw0 = NewConnectionManager (True, empty_redis)"

definition demo_gw1 :: "(bool \<times> rstate) gateway" where
  "demo_gw1 = snd (AddConnection demo_manager 0 0 ''ann'' ''g'' demo_gw0)"

definition demo_gw2 :: "(bool \<times> rstate) gateway" where
  "demo_gw2 = snd (AddConnection demo_manager 50 50 ''bob'' ''h'' demo_gw1)"

lemma demo_gw_simps:
  "gw_conns demo_gw1 = [(''ann'', 0)]" "gw_conns demo_gw2 = [(''ann'', 0), (''bob'', 1)]"
  "gw_heap demo_gw1 = [NewConnection 0 ''ann'' ''g'']"
  "gw_heap demo_gw2 = [NewConnection 0 ''ann'' ''g'', NewConnection 50 ''bob'' ''h'']"
  by (simp_all add: demo_gw2_def demo_gw1_def demo_gw0_def AddConnection_conns AddConnection_heap
      NewConnectionManager_def)

lemma demo_gw_reach: "(gateway_step demo_manager)\<^sup>*\<^sup>* (NewConnectionManager (True, empty_redis)) demo_gw2"
proof -
  have "gateway_step demo_manager (NewConnectionManager (True, empty_redis)) demo_gw1"
    unfolding demo_gw1_def demo_gw0_def by (rule step_add)
  moreover have "gateway_step demo_manager demo_gw1 demo_gw2" unfolding demo_gw2_def by (rule step_add)
  ultimately show ?thesis using rtranclp_trans [OF r_into_rtranclp r_into_rtranclp] by metis
qed

lemma demo_gw_inv: "gw_inv demo_gw1" "gw_inv demo_gw2"
  by (simp_all add: demo_gw2_def demo_gw1_def demo_gw0_def gw_inv_AddConnection)

definition demo_ws :: ws_message where
  "demo_ws = empty_ws\<lparr>w_UserId := ''eve'', w_GuildId := ''g'', w_Content := ''hi''\<rparr>"

theorem gateway_invariant_witness:
  "handleDownstreamMessage demo_unmarshal demo_marshal ''?'' demo_gw2 \<noteq> Panics"
  using gateway_invariant [OF demo_gw_reach] by blast

theorem stale_disconnect_evicts_witness:
  "GetConnection ''ann'' (handleDisconnect demo_manager 9 0 (snd (AddConnection demo_manager 5 5 ''ann'' ''h'' demo_gw1))) = None"
proof -
  have "fst (AddConnection demo_manager 0 0 ''ann'' ''g'' demo_gw0) = 0"
    by (simp add: AddConnection_fst demo_gw0_def NewConnectionManager_def)
  then have "AddConnection demo_manager 0 0 ''ann'' ''g'' demo_gw0 = (0, demo_gw1)"
    by (simp add: demo_gw1_def prod_eq_iff)
  moreover have "AddConnection demo_manager 5 5 ''ann'' ''h'' demo_gw1 =
      (1, snd (AddConnection demo_manager 5 5 ''ann'' ''h'' demo_gw1))"
    by (simp add: prod_eq_iff AddConnection_fst demo_gw_simps)
  ultimately show ?thesis
    using stale_disconnect_evicts [of demo_gw0 demo_manager 0 0 "''ann''" "''g''" 0 demo_gw1 5 5 "''h''"]
    by (simp add: demo_gw0_def)
qed

theorem downstream_delivery_witness:
  "\<exists>d g'. handleDownstreamMessage demo_unmarshal demo_marshal d demo_gw2 = Returns (None, g') \<and>
     cn_Send (gw_heap g' ! 0) = [d] \<and> cn_Send (gw_heap g' ! 1) = []"
proof -
  obtain d where d: "demo_marshal demo_ws = Inr d" by (simp add: demo_marshal_def)
  from downstream_delivery [of demo_gw2 demo_unmarshal d demo_ws demo_marshal d, OF demo_gw_inv(2)
      demo_codec.unmarshal_marshal [OF d] d]
  obtain g' where "handleDownstreamMessage demo_unmarshal demo_marshal d demo_gw2 = Returns (None, g')"
    and "\<forall>j < length (gw_heap demo_gw2). gw_heap g' ! j =
       (if GetConnection (cn_UserID (gw_heap demo_gw2 ! j)) demo_gw2 = Some j \<and>
           cn_GuildID (gw_heap demo_gw2 ! j) = w_GuildId demo_ws
        then delivered d (gw_heap demo_gw2 ! j) else gw_heap demo_gw2 ! j)" by blast
  then show ?thesis
    by (intro exI [of _ d] exI [of _ g'])
      (simp add: demo_gw_simps less_Suc_eq NewConnection_def GetConnection_def demo_ws_def empty_ws_def
        delivered_def send_capacity_def)
qed

theorem upstream_authentic_witness:
  "\<exists>d k'. handleUpstreamMessage demo_unmarshal (\<lambda>_ m. (None, m)) demo_marshal demo_send demo_kafka 0
       (NewConnection 0 ''ann'' ''g'') d (0, []) = (None, k') \<and>
     (\<exists>(m :: ws_message) v. snd k' = [\<lparr>pm_Topic = ''chat_messages'', pm_Key = Some (w_GuildId m), pm_Value = v\<rparr>] \<and> w_UserId m = ''ann'')"
proof -
  obtain d where d: "demo_marshal demo_ws = Inr d" by (simp add: demo_marshal_def)
  let ?up = "handleUpstreamMessage demo_unmarshal (\<lambda>_ m. (None, m)) demo_marshal demo_send demo_kafka 0
       (NewConnection 0 ''ann'' ''g'') d (0, [])"
  have ok: "fst ?up = None"
    by (simp add: handleUpstreamMessage_def parse_upstream_def demo_codec.unmarshal_marshal [OF d]
        validateMessage_def demo_ws_def empty_ws_def NewConnection_def stamp_upstream_def Produce_def demo_marshal_def Let_def)
  have up: "?up = (None, snd ?up)" using ok by (simp add: prod_eq_iff)
  from upstream_authentic [OF demo_broker.kafka_broker_axioms demo_codec.ws_codec_axioms up]
  obtain m :: ws_message and v where "snd (snd ?up) = snd (0 :: nat, []) @
      [\<lparr>pm_Topic = tp_Message (kf_Topics demo_kafka), pm_Key = Some (w_GuildId m), pm_Value = v\<rparr>]"
    "w_UserId m = cn_UserID (NewConnection 0 ''ann'' ''g'')" unfolding option.case by blast
  moreover have "tp_Message (kf_Topics demo_kafka) = ''chat_messages''"
    "cn_UserID (NewConnection 0 ''ann'' ''g'') = ''ann''" "snd (0 :: nat, []) = []"
    by (simp_all add: demo_kafka_def NewConnection_def)
  ultimately have "snd (snd ?up) = [\<lparr>pm_Topic = ''chat_messages'', pm_Key = Some (w_GuildId m), pm_Value = v\<rparr>]"
    "w_UserId m = ''ann''" by simp_all
  with up show ?thesis by blast
qed

theorem checkHeartbeats_exact_witness:
  "GetConnection ''ann'' (checkHeartbeats demo_manager 70 70 60 demo_gw2) = None \<and>
   GetConnection ''bob'' (checkHeartbeats demo_manager 70 70 60 demo_gw2) = Some 1"
  using checkHeartbeats_exact [OF demo_gw_inv(2), of "''ann''" demo_manager 70 70 60]
    checkHeartbeats_exact [OF demo_gw_inv(2), of "''bob''" demo_manager 70 70 60]
  by (simp add: GetConnection_def demo_gw_simps NewConnection_def)

text \<open>The connections are collected under the lock, but the sends happen after it is released: if a
  target is closed in between, the send panics.\<close>

lemma push_after_close_panics:
  "push_all (GetConnectionsByGuild ''g'' demo_gw2) ''m'' (handleDisconnect demo_manager 9 0 demo_gw2) = Panics"
proof -
  have "GetConnectionsByGuild ''g'' demo_gw2 = [0]"
    by (simp add: GetConnectionsByGuild_def demo_gw_simps NewConnection_def)
  moreover have "cn_closed (gw_heap (handleDisconnect demo_manager 9 0 demo_gw2) ! 0)"
    using RemoveConnection_heap_mono [OF demo_gw_inv(2), of 0 demo_manager 9]
    by (simp add: handleDisconnect_gw close_conn_nth demo_gw_simps)
  moreover have "conn_ok (gw_heap (handleDisconnect demo_manager 9 0 demo_gw2) ! 0)"
  proof (rule gw_inv_heap)
    show "gw_inv (handleDisconnect demo_manager 9 0 demo_gw2)"
      by (rule handleDisconnect_inv) (simp_all add: demo_gw_inv demo_gw_simps)
    show "gw_heap (handleDisconnect demo_manager 9 0 demo_gw2) ! 0 \<in> set (gw_heap (handleDisconnect demo_manager 9 0 demo_gw2))"
      using RemoveConnection_heap_mono [OF demo_gw_inv(2), of 0 demo_manager 9]
      by (intro nth_mem) (simp add: handleDisconnect_gw demo_gw_simps)
  qed
  ultimately show ?thesis by (simp add: try_send_def Let_def conn_ok_def)
qed

end
