(* ===== verification/Model.thy ===== *)
theory Model
  imports Prelude
begin

text \<open>
  The persistent models of \<^verbatim>\<open>internal/model\<close>: one record per struct with its table name.  Times are
  nanoseconds since the epoch; 0 stands for the zero time.
\<close>

record user =
  u_ID :: string
  u_UserName :: string
  u_Email :: string
  u_PasswordHash :: string
  u_AvatarURL :: string
  u_Status :: string
  u_HubID :: string
  u_CreatedAt :: int
  u_UpdatedAt :: int

record guild =
  g_ID :: string
  g_Name :: string
  g_OwnerID :: string
  g_InviteCode :: string
  g_CreatedAt :: int
  g_UpdatedAt :: int

record guild_member =
  gm_ID :: string
  gm_GuildID :: string
  gm_UserID :: string
  gm_JoinedAt :: int

record message =
  m_ID :: string
  m_UserID :: string
  m_GuildID :: string
  m_Content :: string
  m_SeqID :: int
  m_CreatedAt :: int

record invite =
  i_ID :: nat
  i_GuildID :: nat
  i_Code :: string
  i_CreatorID :: nat
  i_ExpiresAt :: int
  i_CreatedAt :: int
  i_DeletedAt :: "int option"

definition user_TableName :: string where "user_TableName = ''users''"
definition guild_TableName :: string where "guild_TableName = ''guilds''"
definition guild_member_TableName :: string where "guild_member_TableName = ''guild_members''"
definition message_TableName :: string where "message_TableName = ''messages''"
definition invite_TableName :: string where "invite_TableName = ''invites''"

lemma table_names_distinct:
  "distinct [user_TableName, guild_TableName, guild_member_TableName, message_TableName, invite_TableName]"
  by (simp add: user_TableName_def guild_TableName_def guild_member_TableName_def message_TableName_def
      invite_TableName_def)

end
