(* ===== verification/Storage.thy ===== *)
theory Storage
  imports Model "HOL-Library.Multiset"
begin

text \<open>
  The repositories of \<^verbatim>\<open>internal/repository\<close>.  GORM and PostgreSQL are a parameter \<open>db\<close> that executes
  one statement at a time of the database clock.  What SQL and the models' tags say about the
  statements the repositories build is the reference database \<open>sql_step\<close> on four tables, with the
  primary keys and unique indexes of the models; the locale \<open>sql_database\<close> is the contract: success
  means the effect and the rows of the reference database, and an error means that the statement had no
  effect, except that an insert may have been committed before the connection broke.
\<close>

section \<open>Statements\<close>

datatype stmt =
    InsertUser user
  | SaveUser user
  | FirstUserById string
  | FirstUserByName string
  | FindUsersByIds "string list"
  | InsertGuild guild
  | FirstGuildById string
  | FirstGuildByCode string
  | InsertMember guild_member
  | GuildsOfUser string
  | UsersOfGuild string
  | MembersOfGuild string
  | CountMember string string
  | InsertMessage message
  | FirstMessageById string
  | MessagesOfGuild string "int option" int

datatype rows =
    NoRows
  | UserRows "user list"
  | GuildRows "guild list"
  | MemberRows "guild_member list"
  | MessageRows "message list"
  | CountRow int

type_synonym 'd database = "int \<Rightarrow> stmt \<Rightarrow> 'd \<Rightarrow> rows result \<times> 'd"

definition ErrRecordNotFound :: go_error where
  "ErrRecordNotFound = Err ''record not found''"

fun user_rows :: "rows \<Rightarrow> user list" where
  "user_rows (UserRows us) = us"
| "user_rows _ = []"

fun guild_rows :: "rows \<Rightarrow> guild list" where
  "guild_rows (GuildRows gs) = gs"
| "guild_rows _ = []"

fun member_rows :: "rows \<Rightarrow> guild_member list" where
  "member_rows (MemberRows ms) = ms"
| "member_rows _ = []"

fun message_rows :: "rows \<Rightarrow> message list" where
  "message_rows (MessageRows ms) = ms"
| "message_rows _ = []"

fun count_row :: "rows \<Rightarrow> int" where
  "count_row (CountRow n) = n"
| "count_row _ = 0"

text \<open>Running a statement and reading its rows; \<^verbatim>\<open>First\<close> reports a missing row as an error.\<close>

definition query :: "'d database \<Rightarrow> int \<Rightarrow> stmt \<Rightarrow> (rows \<Rightarrow> 'a) \<Rightarrow> 'd \<Rightarrow> 'a result \<times> 'd" where
  "query db t q read d =
     (case db t q d of (Inl e, d') \<Rightarrow> (Inl e, d') | (Inr rs, d') \<Rightarrow> (Inr (read rs), d'))"

definition query_first :: "'d database \<Rightarrow> int \<Rightarrow> stmt \<Rightarrow> (rows \<Rightarrow> 'a list) \<Rightarrow> 'd \<Rightarrow> 'a result \<times> 'd" where
  "query_first db t q read d =
     (case db t q d of
        (Inl e, d') \<Rightarrow> (Inl e, d')
      | (Inr rs, d') \<Rightarrow> (case read rs of [] \<Rightarrow> (Inl ErrRecordNotFound, d') | x # _ \<Rightarrow> (Inr x, d')))"

section \<open>The user repository\<close>

text \<open>\<^verbatim>\<open>Create\<close> fills the defaults of the struct it is given: it returns the struct as stored.\<close>

definition user_Create :: "'d database \<Rightarrow> int \<Rightarrow> user \<Rightarrow> 'd \<Rightarrow> user result \<times> 'd" where
  "user_Create db t u = query_first db t (InsertUser u) user_rows"

definition user_FindByID :: "'d database \<Rightarrow> int \<Rightarrow> string \<Rightarrow> 'd \<Rightarrow> user result \<times> 'd" where
  "user_FindByID db t i = query_first db t (FirstUserById i) user_rows"

definition user_FindByIDs :: "'d database \<Rightarrow> int \<Rightarrow> string list \<Rightarrow> 'd \<Rightarrow> (string \<times> user) list result \<times> 'd" where
  "user_FindByIDs db t is = query db t (FindUsersByIds is)
     (\<lambda>rs. fold (\<lambda>u m. AList.update (u_ID u) u m) (user_rows rs) [])"

definition user_FindByUsername :: "'d database \<Rightarrow> int \<Rightarrow> string \<Rightarrow> 'd \<Rightarrow> user result \<times> 'd" where
  "user_FindByUsername db t n = query_first db t (FirstUserByName n) user_rows"

definition user_Update :: "'d database \<Rightarrow> int \<Rightarrow> user \<Rightarrow> 'd \<Rightarrow> unit result \<times> 'd" where
  "user_Update db t u = query db t (SaveUser u) (\<lambda>_. ())"

section \<open>The guild repository\<close>

definition guild_Create :: "'d database \<Rightarrow> int \<Rightarrow> guild \<Rightarrow> 'd \<Rightarrow> guild result \<times> 'd" where
  "guild_Create db t g = query_first db t (InsertGuild g) guild_rows"

definition guild_FindByID :: "'d database \<Rightarrow> int \<Rightarrow> string \<Rightarrow> 'd \<Rightarrow> guild result \<times> 'd" where
  "guild_FindByID db t i = query_first db t (FirstGuildById i) guild_rows"

definition FindByInviteCode :: "'d database \<Rightarrow> int \<Rightarrow> string \<Rightarrow> 'd \<Rightarrow> guild result \<times> 'd" where
  "FindByInviteCode db t code = query_first db t (FirstGuildByCode code) guild_rows"

definition generateID :: "string \<Rightarrow> string" where
  "generateID uuid = ''temp_'' @ uuid"

definition AddMember :: "'d database \<Rightarrow> int \<Rightarrow> string \<Rightarrow> string \<Rightarrow> string \<Rightarrow> 'd \<Rightarrow> unit result \<times> 'd" where
  "AddMember db t uuid guildID userID =
     query db t (InsertMember \<lparr>gm_ID = generateID uuid, gm_GuildID = guildID, gm_UserID = userID, gm_JoinedAt = 0\<rparr>) (\<lambda>_. ())"

definition GetMemberGuilds :: "'d database \<Rightarrow> int \<Rightarrow> string \<Rightarrow> 'd \<Rightarrow> guild list result \<times> 'd" where
  "GetMemberGuilds db t userID = query db t (GuildsOfUser userID) guild_rows"

definition repo_GetGuildMembers :: "'d database \<Rightarrow> int \<Rightarrow> string \<Rightarrow> 'd \<Rightarrow> user list result \<times> 'd" where
  "repo_GetGuildMembers db t guildID = query db t (UsersOfGuild guildID) user_rows"

definition GetMembers :: "'d database \<Rightarrow> int \<Rightarrow> string \<Rightarrow> 'd \<Rightarrow> guild_member list result \<times> 'd" where
  "GetMembers db t guildID = query db t (MembersOfGuild guildID) member_rows"

definition repo_IsMember :: "'d database \<Rightarrow> int \<Rightarrow> string \<Rightarrow> string \<Rightarrow> 'd \<Rightarrow> bool result \<times> 'd" where
  "repo_IsMember db t guildID userID = query db t (CountMember guildID userID) (\<lambda>rs. 0 < count_row rs)"

section \<open>The message repository\<close>

definition message_Create :: "'d database \<Rightarrow> int \<Rightarrow> message \<Rightarrow> 'd \<Rightarrow> message result \<times> 'd" where
  "message_Create db t m = query_first db t (InsertMessage m) message_rows"

definition FindByGuild :: "'d database \<Rightarrow> int \<Rightarrow> string \<Rightarrow> int \<Rightarrow> int \<Rightarrow> 'd \<Rightarrow> message list result \<times> 'd" where
  "FindByGuild db t guildID afterSeqID limit =
     query db t (MessagesOfGuild guildID (if 0 < afterSeqID then Some afterSeqID else None) limit) message_rows"

definition message_FindByID :: "'d database \<Rightarrow> int \<Rightarrow> string \<Rightarrow> 'd \<Rightarrow> message result \<times> 'd" where
  "message_FindByID db t i = query_first db t (FirstMessageById i) message_rows"

section \<open>The documented behaviour of the database\<close>

record tables =
  t_users :: "user list"
  t_guilds :: "guild list"
  t_members :: "guild_member list"
  t_messages :: "message list"

definition empty_tables :: tables where
  "empty_tables = \<lparr>t_users = [], t_guilds = [], t_members = [], t_messages = []\<rparr>"

text \<open>Defaults that GORM fills in on insert.\<close>

definition fill_user :: "int \<Rightarrow> user \<Rightarrow> user" where
  "fill_user t u = u\<lparr>u_Status := (if u_Status u = [] then ''offline'' else u_Status u),
     u_CreatedAt := (if u_CreatedAt u = 0 then t else u_CreatedAt u),
     u_UpdatedAt := (if u_UpdatedAt u = 0 then t else u_UpdatedAt u)\<rparr>"

definition fill_guild :: "int \<Rightarrow> guild \<Rightarrow> guild" where
  "fill_guild t g = g\<lparr>g_CreatedAt := (if g_CreatedAt g = 0 then t else g_CreatedAt g),
     g_UpdatedAt := (if g_UpdatedAt g = 0 then t else g_UpdatedAt g)\<rparr>"

definition fill_message :: "int \<Rightarrow> message \<Rightarrow> message" where
  "fill_message t m = m\<lparr>m_CreatedAt := (if m_CreatedAt m = 0 then t else m_CreatedAt m)\<rparr>"

definition user_conflict :: "user \<Rightarrow> user \<Rightarrow> bool" where
  "user_conflict u v \<longleftrightarrow> u_ID u = u_ID v \<or> u_UserName u = u_UserName v \<or> u_Email u = u_Email v"

definition guild_conflict :: "guild \<Rightarrow> guild \<Rightarrow> bool" where
  "guild_conflict g h \<longleftrightarrow> g_ID g = g_ID h \<or> g_InviteCode g = g_InviteCode h"

definition duplicate_key :: go_error where
  "duplicate_key = Err ''duplicate key value violates unique constraint''"

definition order_messages :: "int option \<Rightarrow> message list \<Rightarrow> message list" where
  "order_messages after ms =
     (case after of None \<Rightarrow> rev (sort_key m_SeqID ms)
      | Some s \<Rightarrow> sort_key m_SeqID (filter (\<lambda>m. s < m_SeqID m) ms))"

fun sql_step :: "int \<Rightarrow> stmt \<Rightarrow> tables \<Rightarrow> rows result \<times> tables" where
  "sql_step t (InsertUser u) d =
     (if \<exists>v \<in> set (t_users d). user_conflict u v then (Inl duplicate_key, d)
      else (Inr (UserRows [fill_user t u]), d\<lparr>t_users := t_users d @ [fill_user t u]\<rparr>))"
| "sql_step t (SaveUser u) d =
     (if \<exists>v \<in> set (t_users d). user_conflict u v \<and> u_ID u \<noteq> u_ID v then (Inl duplicate_key, d)
      else if \<exists>v \<in> set (t_users d). u_ID v = u_ID u
      then (Inr NoRows, d\<lparr>t_users := map (\<lambda>v. if u_ID v = u_ID u then u\<lparr>u_UpdatedAt := t\<rparr> else v) (t_users d)\<rparr>)
      else (Inr NoRows, d\<lparr>t_users := t_users d @ [fill_user t u]\<rparr>))"
| "sql_step t (FirstUserById i) d = (Inr (UserRows (filter (\<lambda>u. u_ID u = i) (t_users d))), d)"
| "sql_step t (FirstUserByName n) d = (Inr (UserRows (filter (\<lambda>u. u_UserName u = n) (t_users d))), d)"
| "sql_step t (FindUsersByIds is) d = (Inr (UserRows (filter (\<lambda>u. u_ID u \<in> set is) (t_users d))), d)"
| "sql_step t (InsertGuild g) d =
     (if \<exists>h \<in> set (t_guilds d). guild_conflict g h then (Inl duplicate_key, d)
      else (Inr (GuildRows [fill_guild t g]), d\<lparr>t_guilds := t_guilds d @ [fill_guild t g]\<rparr>))"
| "sql_step t (FirstGuildById i) d = (Inr (GuildRows (filter (\<lambda>g. g_ID g = i) (t_guilds d))), d)"
| "sql_step t (FirstGuildByCode c) d = (Inr (GuildRows (filter (\<lambda>g. g_InviteCode g = c) (t_guilds d))), d)"
| "sql_step t (InsertMember m) d =
     (if \<exists>k \<in> set (t_members d). gm_ID k = gm_ID m then (Inl duplicate_key, d)
      else (Inr NoRows, d\<lparr>t_members := t_members d @ [if gm_JoinedAt m = 0 then m\<lparr>gm_JoinedAt := t\<rparr> else m]\<rparr>))"
| "sql_step t (GuildsOfUser u) d =
     (Inr (GuildRows (concat (map (\<lambda>g. map (\<lambda>_. g)
        (filter (\<lambda>m. gm_GuildID m = g_ID g \<and> gm_UserID m = u) (t_members d))) (t_guilds d)))), d)"
| "sql_step t (UsersOfGuild g) d =
     (Inr (UserRows (concat (map (\<lambda>u. map (\<lambda>_. u)
        (filter (\<lambda>m. gm_UserID m = u_ID u \<and> gm_GuildID m = g) (t_members d))) (t_users d)))), d)"
| "sql_step t (MembersOfGuild g) d = (Inr (MemberRows (filter (\<lambda>m. gm_GuildID m = g) (t_members d))), d)"
| "sql_step t (CountMember g u) d =
     (Inr (CountRow (int (length (filter (\<lambda>m. gm_GuildID m = g \<and> gm_UserID m = u) (t_members d))))), d)"
| "sql_step t (InsertMessage m) d =
     (if \<exists>k \<in> set (t_messages d). m_ID k = m_ID m then (Inl duplicate_key, d)
      else (Inr (MessageRows [fill_message t m]), d\<lparr>t_messages := t_messages d @ [fill_message t m]\<rparr>))"
| "sql_step t (FirstMessageById i) d = (Inr (MessageRows (filter (\<lambda>m. m_ID m = i) (t_messages d))), d)"
| "sql_step t (MessagesOfGuild g after limit) d =
     (Inr (MessageRows ((if limit < 0 then id else take (nat limit))
        (order_messages after (filter (\<lambda>m. m_GuildID m = g) (t_messages d))))), d)"

text \<open>Integrity: the primary keys and unique indexes of the models.\<close>

definition db_integrity :: "tables \<Rightarrow> bool" where
  "db_integrity d \<longleftrightarrow>
     distinct (map u_ID (t_users d)) \<and> distinct (map u_UserName (t_users d)) \<and> distinct (map u_Email (t_users d)) \<and>
     distinct (map g_ID (t_guilds d)) \<and> distinct (map g_InviteCode (t_guilds d)) \<and>
     distinct (map gm_ID (t_members d)) \<and> distinct (map m_ID (t_messages d))"

text \<open>SQL leaves the order of rows open where the statement does not order them, and among messages
  with equal sequence numbers.\<close>

fun rows_agree :: "rows \<Rightarrow> rows \<Rightarrow> bool" where
  "rows_agree (UserRows a) (UserRows b) = (mset a = mset b)"
| "rows_agree (GuildRows a) (GuildRows b) = (mset a = mset b)"
| "rows_agree (MemberRows a) (MemberRows b) = (mset a = mset b)"
| "rows_agree a b = (a = b)"

fun determined :: "stmt \<Rightarrow> tables \<Rightarrow> bool" where
  "determined (MessagesOfGuild g after limit) d =
     distinct (map m_SeqID (filter (\<lambda>m. m_GuildID m = g) (t_messages d)))"
| "determined _ d = True"

locale sql_database =
  fixes db :: "'d database" and view :: "'d \<Rightarrow> tables"
  assumes db_ok: "db t q d = (Inr rs, d') \<Longrightarrow>
      \<exists>rs'. sql_step t q (view d) = (Inr rs', view d') \<and> (determined q (view d) \<longrightarrow> rows_agree rs rs')"
    and db_err: "db t q d = (Inl e, d') \<Longrightarrow>
      (view d' = view d \<or> view d' = snd (sql_step t q (view d))) \<and> \<not> errors_Is e ErrRecordNotFound"

text \<open>A database that is up answers as the reference database does, for values its columns take for
  sure: ASCII text without NUL of at most the declared length (a \<^verbatim>\<open>varchar\<close> counts characters, and PostgreSQL
  refuses NUL and invalid UTF-8).\<close>

definition ascii_text :: "string \<Rightarrow> bool" where
  "ascii_text s \<longleftrightarrow> (\<forall>c \<in> set s. (0 :: nat) < of_char c \<and> of_char c < (128 :: nat))"

definition varchar :: "nat \<Rightarrow> string \<Rightarrow> bool" where
  "varchar n s \<longleftrightarrow> ascii_text s \<and> length s \<le> n"

definition user_fits :: "user \<Rightarrow> bool" where
  "user_fits u \<longleftrightarrow> varchar 64 (u_ID u) \<and> varchar 255 (u_UserName u) \<and> varchar 255 (u_Email u) \<and>
     varchar 255 (u_PasswordHash u) \<and> ascii_text (u_AvatarURL u) \<and> ascii_text (u_Status u) \<and> varchar 64 (u_HubID u)"

fun storable :: "stmt \<Rightarrow> bool" where
  "storable (InsertUser u) = user_fits u"
| "storable (SaveUser u) = user_fits u"
| "storable (FirstUserById i) = ascii_text i"
| "storable (FirstUserByName n) = ascii_text n"
| "storable (FindUsersByIds is) = list_all ascii_text is"
| "storable (InsertGuild g) = (ascii_text (g_ID g) \<and> varchar 255 (g_Name g) \<and> ascii_text (g_OwnerID g) \<and> varchar 32 (g_InviteCode g))"
| "storable (FirstGuildById i) = ascii_text i"
| "storable (FirstGuildByCode c) = ascii_text c"
| "storable (InsertMember m) = (varchar 64 (gm_ID m) \<and> varchar 64 (gm_GuildID m) \<and> varchar 64 (gm_UserID m))"
| "storable (GuildsOfUser u) = ascii_text u"
| "storable (UsersOfGuild g) = ascii_text g"
| "storable (MembersOfGuild g) = ascii_text g"
| "storable (CountMember g u) = (ascii_text g \<and> ascii_text u)"
| "storable (InsertMessage m) = (varchar 64 (m_ID m) \<and> varchar 64 (m_UserID m) \<and> varchar 64 (m_GuildID m) \<and> ascii_text (m_Content m))"
| "storable (FirstMessageById i) = ascii_text i"
| "storable (MessagesOfGuild g after limit) = ascii_text g"

locale healthy_database = sql_database +
  assumes db_exact: "storable q \<Longrightarrow> map_prod id view (db t q d) = sql_step t q (view d)"

lemma sql_step_not_RecordNotFound: "sql_step t q d = (Inl e, d') \<Longrightarrow> e = duplicate_key \<and> d' = d"
  by (cases q) (auto split: if_splits)

lemma rows_agree_refl [simp]: "rows_agree rs rs"
  by (cases rs) auto

interpretation ref_db: healthy_database sql_step id
proof unfold_locales
  fix t q d e d' assume "sql_step t q d = (Inl e, d')"
  from sql_step_not_RecordNotFound [OF this]
  show "(id d' = id d \<or> id d' = snd (sql_step t q (id d))) \<and> \<not> errors_Is e ErrRecordNotFound"
    by (simp add: duplicate_key_def ErrRecordNotFound_def)
qed (auto simp: prod.map_id0)

text \<open>The reference database behind a connection that can be down.\<close>

fun demo_db :: "(bool \<times> tables) database" where
  "demo_db t q (up, d) =
     (if up then (let (rs, d') = sql_step t q d in (rs, (up, d'))) else (Inl (Err ''connection refused''), (up, d)))"

interpretation demo_db: sql_database demo_db snd
proof unfold_locales
  fix t q d rs d' assume "demo_db t q d = (Inr rs, d')"
  then show "\<exists>rs'. sql_step t q (snd d) = (Inr rs', snd d') \<and> (determined q (snd d) \<longrightarrow> rows_agree rs rs')"
    by (cases d) (auto split: if_splits prod.splits)
next
  fix t q d e d' assume "demo_db t q d = (Inl e, d')"
  then show "(snd d' = snd d \<or> snd d' = snd (sql_step t q (snd d))) \<and> \<not> errors_Is e ErrRecordNotFound"
    by (cases d) (auto simp: ErrRecordNotFound_def duplicate_key_def split: if_splits prod.splits
        dest: sql_step_not_RecordNotFound)
qed

section \<open>Integrity\<close>

lemma fill_simps [simp]:
  "u_ID (fill_user t u) = u_ID u" "u_UserName (fill_user t u) = u_UserName u" "u_Email (fill_user t u) = u_Email u"
  "u_PasswordHash (fill_user t u) = u_PasswordHash u" "u_HubID (fill_user t u) = u_HubID u"
  "g_ID (fill_guild t g) = g_ID g" "g_InviteCode (fill_guild t g) = g_InviteCode g"
  "g_OwnerID (fill_guild t g) = g_OwnerID g" "g_Name (fill_guild t g) = g_Name g"
  "m_ID (fill_message t m) = m_ID m" "m_SeqID (fill_message t m) = m_SeqID m"
  "m_GuildID (fill_message t m) = m_GuildID m" "m_UserID (fill_message t m) = m_UserID m"
  "m_Content (fill_message t m) = m_Content m"
  by (simp_all add: fill_user_def fill_guild_def fill_message_def)

lemma distinct_replace_row:
  assumes "distinct (map key xs)" and "distinct (map f xs)" and "\<And>x. x \<in> set xs \<Longrightarrow> key x \<noteq> k \<Longrightarrow> f x \<noteq> f y"
  shows "distinct (map (\<lambda>x. f (if key x = k then y else x)) xs)"
  using assms
proof (induction xs)
  case (Cons a xs)
  have IH: "distinct (map (\<lambda>x. f (if key x = k then y else x)) xs)" using Cons by simp
  have "f (if key a = k then y else a) \<noteq> f (if key x = k then y else x)" if "x \<in> set xs" for x
  proof -
    have ne: "key a \<noteq> key x" "f a \<noteq> f x" using Cons.prems(1,2) that by (auto simp: image_iff)
    show ?thesis using ne Cons.prems(3) [of a] Cons.prems(3) [of x] that
      by (cases "key a = k"; cases "key x = k") (auto dest: sym)
  qed
  with IH show ?case by (auto simp: image_iff)
qed simp

lemma sql_step_integrity:
  assumes "db_integrity d"
  shows "db_integrity (snd (sql_step t q d))"
proof (cases q)
  case (SaveUser u)
  let ?y = "u\<lparr>u_UpdatedAt := t\<rparr>"
  have "distinct (map (\<lambda>v. f (if u_ID v = u_ID u then ?y else v)) (t_users d))"
    if "\<not> (\<exists>v \<in> set (t_users d). user_conflict u v \<and> u_ID u \<noteq> u_ID v)" "f \<in> {u_ID, u_UserName, u_Email}" for f
  proof (rule distinct_replace_row)
    show "distinct (map u_ID (t_users d))" "distinct (map f (t_users d))"
      using assms that(2) by (auto simp: db_integrity_def)
    show "f x \<noteq> f ?y" if "x \<in> set (t_users d)" "u_ID x \<noteq> u_ID u" for x
      using \<open>f \<in> {u_ID, u_UserName, u_Email}\<close> \<open>\<not> (\<exists>v \<in> set (t_users d). user_conflict u v \<and> u_ID u \<noteq> u_ID v)\<close> that
      unfolding user_conflict_def by force
  qed
  note replaced = this [of u_ID] this [of u_UserName] this [of u_Email]
  have appended: "db_integrity (d\<lparr>t_users := t_users d @ [fill_user t u]\<rparr>)"
    if "\<not> (\<exists>v \<in> set (t_users d). user_conflict u v \<and> u_ID u \<noteq> u_ID v)" "\<not> (\<exists>v \<in> set (t_users d). u_ID v = u_ID u)"
    using assms that by (force simp: db_integrity_def user_conflict_def)
  have "db_integrity (d\<lparr>t_users := map (\<lambda>v. if u_ID v = u_ID u then ?y else v) (t_users d)\<rparr>)"
    if "\<not> (\<exists>v \<in> set (t_users d). user_conflict u v \<and> u_ID u \<noteq> u_ID v)"
    using assms replaced [OF that] by (simp add: db_integrity_def comp_def)
  with appended assms show ?thesis by (simp add: SaveUser)
qed (use assms in \<open>auto simp: db_integrity_def user_conflict_def guild_conflict_def\<close>)

context sql_database
begin

lemma db_integrity_kept: "db_integrity (view d) \<Longrightarrow> db_integrity (view (snd (db t q d)))"
proof -
  assume inv: "db_integrity (view d)"
  obtain res d' where res: "db t q d = (res, d')" by fastforce
  show ?thesis
  proof (cases res)
    case (Inl e)
    then show ?thesis using db_err [of t q d e d'] res inv sql_step_integrity [OF inv, of t q] by auto
  next
    case (Inr rs)
    then show ?thesis using db_ok [of t q d rs d'] res sql_step_integrity [OF inv, of t q] by auto
  qed
qed

section \<open>What the repositories return\<close>

lemma select_ok:
  assumes "db t q d = (Inr rs, d')" and "sql_step t q (view d) = (Inr rs0, view d)" and "determined q (view d)"
  shows "view d' = view d" and "rows_agree rs rs0"
  using db_ok [OF assms(1)] assms(2,3) by auto

lemma select_err:
  assumes "db t q d = (Inl e, d')" and "sql_step t q (view d) = (Inr rs0, view d)"
  shows "view d' = view d" and "\<not> errors_Is e ErrRecordNotFound"
  using db_err [OF assms(1)] assms(2) by auto

lemma user_rows_agree: "rows_agree rs (UserRows us) \<Longrightarrow> \<exists>us'. rs = UserRows us' \<and> mset us' = mset us"
  by (cases rs) auto

lemma guild_rows_agree: "rows_agree rs (GuildRows gs) \<Longrightarrow> \<exists>gs'. rs = GuildRows gs' \<and> mset gs' = mset gs"
  by (cases rs) auto

lemma message_rows_agree: "rows_agree rs (MessageRows ms) \<Longrightarrow> rs = MessageRows ms"
  by (cases rs) auto

lemma first_row:
  assumes "query_first db t q read d = (res, d')"
    and "sql_step t q (view d) = (Inr rs0, view d)" and "determined q (view d)"
    and "\<And>rs. rows_agree rs rs0 \<Longrightarrow> mset (read rs) = mset (read rs0)" and "set (read rs0) = S"
  shows "view d' = view d"
    and "res = Inr x \<Longrightarrow> x \<in> S"
    and "res = Inl e \<Longrightarrow> errors_Is e ErrRecordNotFound \<Longrightarrow> S = {}"
proof -
  obtain r d1 where db: "db t q d = (r, d1)" by fastforce
  have "view d' = view d \<and> (\<forall>x. res = Inr x \<longrightarrow> x \<in> S) \<and>
      (\<forall>e. res = Inl e \<longrightarrow> errors_Is e ErrRecordNotFound \<longrightarrow> S = {})"
  proof (cases r)
    case (Inl e)
    then show ?thesis using assms(1) db select_err [OF _ assms(2), of e d1] by (auto simp: query_first_def)
  next
    case (Inr rs)
    note ok = select_ok [OF db [unfolded Inr] assms(2,3)]
    have "set (read rs) = S" using assms(4) [OF ok(2)] assms(5) by (metis mset_eq_setD)
    then show ?thesis using assms(1) db Inr ok(1)
      by (cases "read rs") (auto simp: query_first_def)
  qed
  then show "view d' = view d"
    and "res = Inr x \<Longrightarrow> x \<in> S"
    and "res = Inl e \<Longrightarrow> errors_Is e ErrRecordNotFound \<Longrightarrow> S = {}" by blast+
qed

lemma mset_user_rows: "rows_agree rs (UserRows us) \<Longrightarrow> mset (user_rows rs) = mset (user_rows (UserRows us))"
  by (cases rs) auto

lemma mset_guild_rows: "rows_agree rs (GuildRows gs) \<Longrightarrow> mset (guild_rows rs) = mset (guild_rows (GuildRows gs))"
  by (cases rs) auto

lemma mset_message_rows: "rows_agree rs (MessageRows ms) \<Longrightarrow> mset (message_rows rs) = mset (message_rows (MessageRows ms))"
  by (cases rs) auto

lemma FindByID_user:
  assumes "user_FindByID db t i d = (res, d')"
  shows "view d' = view d" and "res = Inr u \<Longrightarrow> u \<in> set (t_users (view d)) \<and> u_ID u = i"
    and "res = Inl e \<Longrightarrow> errors_Is e ErrRecordNotFound \<Longrightarrow> \<forall>u \<in> set (t_users (view d)). u_ID u \<noteq> i"
  using first_row [OF assms [unfolded user_FindByID_def] sql_step.simps(3) _ mset_user_rows refl]
  by auto

lemma FindByUsername_user:
  assumes "user_FindByUsername db t n d = (res, d')"
  shows "view d' = view d" and "res = Inr u \<Longrightarrow> u \<in> set (t_users (view d)) \<and> u_UserName u = n"
    and "res = Inl e \<Longrightarrow> errors_Is e ErrRecordNotFound \<Longrightarrow> \<forall>u \<in> set (t_users (view d)). u_UserName u \<noteq> n"
  using first_row [OF assms [unfolded user_FindByUsername_def] sql_step.simps(4) _ mset_user_rows refl]
  by auto

lemma FindByID_guild:
  assumes "guild_FindByID db t i d = (res, d')"
  shows "view d' = view d" and "res = Inr g \<Longrightarrow> g \<in> set (t_guilds (view d)) \<and> g_ID g = i"
    and "res = Inl e \<Longrightarrow> errors_Is e ErrRecordNotFound \<Longrightarrow> \<forall>g \<in> set (t_guilds (view d)). g_ID g \<noteq> i"
  using first_row [OF assms [unfolded guild_FindByID_def] sql_step.simps(7) _ mset_guild_rows refl]
  by auto

lemma FindByInviteCode_guild:
  assumes "FindByInviteCode db t c d = (res, d')"
  shows "view d' = view d" and "res = Inr g \<Longrightarrow> g \<in> set (t_guilds (view d)) \<and> g_InviteCode g = c"
    and "res = Inl e \<Longrightarrow> errors_Is e ErrRecordNotFound \<Longrightarrow> \<forall>g \<in> set (t_guilds (view d)). g_InviteCode g \<noteq> c"
  using first_row [OF assms [unfolded FindByInviteCode_def] sql_step.simps(8) _ mset_guild_rows refl]
  by auto

lemma FindByID_message:
  assumes "message_FindByID db t i d = (res, d')"
  shows "view d' = view d" and "res = Inr m \<Longrightarrow> m \<in> set (t_messages (view d)) \<and> m_ID m = i"
    and "res = Inl e \<Longrightarrow> errors_Is e ErrRecordNotFound \<Longrightarrow> \<forall>m \<in> set (t_messages (view d)). m_ID m \<noteq> i"
  using first_row [OF assms [unfolded message_FindByID_def] sql_step.simps(15) _ mset_message_rows refl]
  by auto

text \<open>Membership as the join sees it.\<close>

lemma GetMemberGuilds_set:
  assumes "GetMemberGuilds db t u d = (res, d')"
  shows "view d' = view d"
    and "res = Inr gs \<Longrightarrow> set gs = {g \<in> set (t_guilds (view d)). \<exists>m \<in> set (t_members (view d)).
      gm_GuildID m = g_ID g \<and> gm_UserID m = u}"
proof -
  obtain r d1 where db: "db t (GuildsOfUser u) d = (r, d1)" by fastforce
  have "view d' = view d \<and> (\<forall>gs. res = Inr gs \<longrightarrow> set gs = {g \<in> set (t_guilds (view d)). \<exists>m \<in> set (t_members (view d)).
      gm_GuildID m = g_ID g \<and> gm_UserID m = u})"
  proof (cases r)
    case (Inl e)
    note err = select_err [OF db [unfolded Inl] sql_step.simps(10)]
    moreover have "res = Inl e" "d' = d1" using assms db Inl by (auto simp: GetMemberGuilds_def query_def)
    ultimately show ?thesis by simp
  next
    case (Inr rs)
    note ok = select_ok [OF db [unfolded Inr] sql_step.simps(10)]
    define js where "js = concat (map (\<lambda>g. map (\<lambda>_. g)
        (filter (\<lambda>m. gm_GuildID m = g_ID g \<and> gm_UserID m = u) (t_members (view d)))) (t_guilds (view d)))"
    have "rows_agree rs (GuildRows js)" using ok(2) by (simp add: js_def)
    then have "mset (guild_rows rs) = mset js" using mset_guild_rows by fastforce
    then have "set (guild_rows rs) = set js" by (rule mset_eq_setD)
    also have "set js = {g \<in> set (t_guilds (view d)). \<exists>m \<in> set (t_members (view d)).
        gm_GuildID m = g_ID g \<and> gm_UserID m = u}" by (auto simp: js_def)
    finally have "set (guild_rows rs) = {g \<in> set (t_guilds (view d)). \<exists>m \<in> set (t_members (view d)).
        gm_GuildID m = g_ID g \<and> gm_UserID m = u}" .
    moreover have "res = Inr (guild_rows rs)" "d' = d1"
      using assms db Inr by (auto simp: GetMemberGuilds_def query_def)
    ultimately show ?thesis using ok(1) by simp
  qed
  then show "view d' = view d"
    and "res = Inr gs \<Longrightarrow> set gs = {g \<in> set (t_guilds (view d)). \<exists>m \<in> set (t_members (view d)).
      gm_GuildID m = g_ID g \<and> gm_UserID m = u}" by blast+
qed

lemma user_Create_ok:
  assumes "user_Create db t u d = (Inr u', d')"
  shows "u' = fill_user t u" and "view d' = (view d)\<lparr>t_users := t_users (view d) @ [u']\<rparr>"
    and "\<forall>v \<in> set (t_users (view d)). \<not> user_conflict u v"
proof -
  obtain rs where db: "db t (InsertUser u) d = (Inr rs, d')" "user_rows rs \<noteq> []" "hd (user_rows rs) = u'"
    using assms by (auto simp: user_Create_def query_first_def split: prod.splits sum.splits list.splits)
  from db_ok [OF db(1)] have "u' = fill_user t u \<and> view d' = (view d)\<lparr>t_users := t_users (view d) @ [u']\<rparr> \<and>
      (\<forall>v \<in> set (t_users (view d)). \<not> user_conflict u v)"
    using db(2,3) by (auto split: if_splits dest!: user_rows_agree)
  then show "u' = fill_user t u" and "view d' = (view d)\<lparr>t_users := t_users (view d) @ [u']\<rparr>"
    and "\<forall>v \<in> set (t_users (view d)). \<not> user_conflict u v" by auto
qed

lemma guild_Create_ok:
  assumes "guild_Create db t g d = (Inr g', d')"
  shows "g' = fill_guild t g" and "view d' = (view d)\<lparr>t_guilds := t_guilds (view d) @ [g']\<rparr>"
    and "\<forall>h \<in> set (t_guilds (view d)). \<not> guild_conflict g h"
proof -
  obtain rs where db: "db t (InsertGuild g) d = (Inr rs, d')" "guild_rows rs \<noteq> []" "hd (guild_rows rs) = g'"
    using assms by (auto simp: guild_Create_def query_first_def split: prod.splits sum.splits list.splits)
  from db_ok [OF db(1)] have "g' = fill_guild t g \<and> view d' = (view d)\<lparr>t_guilds := t_guilds (view d) @ [g']\<rparr> \<and>
      (\<forall>h \<in> set (t_guilds (view d)). \<not> guild_conflict g h)"
    using db(2,3) by (auto split: if_splits dest!: guild_rows_agree)
  then show "g' = fill_guild t g" and "view d' = (view d)\<lparr>t_guilds := t_guilds (view d) @ [g']\<rparr>"
    and "\<forall>h \<in> set (t_guilds (view d)). \<not> guild_conflict g h" by auto
qed

end

end
