(* ===== verification/Jwt.thy ===== *)
theory Jwt
  imports Prelude
begin

text \<open>
  The token manager of \<^verbatim>\<open>middleware/jwt/jwt.go\<close>.  The golang-jwt library is a parameter: \<open>sign\<close> is
  \<^verbatim>\<open>SignedString\<close> with HS256, \<open>parse secret hmac_only validate now token\<close> is \<^verbatim>\<open>ParseWithClaims\<close> with a key
  function that returns the secret (and, if \<open>hmac_only\<close>, refuses other algorithms), with or without
  claims validation.  Its contract is the locale \<open>jwt_library\<close>.  The registered dates have the
  library's precision of a second; times are nanoseconds.
\<close>

record claims =
  c_UserID :: string
  c_UserName :: string
  c_UserEmail :: string
  c_ExpiresAt :: "int option"
  c_IssuedAt :: "int option"
  c_NotBefore :: "int option"

record token_manager =
  secret :: string
  expireDur :: int
  refreshDur :: int

definition ErrInvalidToken :: go_error where "ErrInvalidToken = Err ''invalid token''"
definition ErrExpiredToken :: go_error where "ErrExpiredToken = Err ''token has expired''"
definition ErrTokenNotYetValid :: go_error where "ErrTokenNotYetValid = Err ''token not yet valid''"

text \<open>The library's sentinels; a parse error can join several.\<close>

definition jwt_ErrTokenExpired :: go_error where "jwt_ErrTokenExpired = Err ''token is expired''"
definition jwt_ErrTokenNotValidYet :: go_error where "jwt_ErrTokenNotValidYet = Err ''token is not valid yet''"

type_synonym jwt_parse = "string \<Rightarrow> bool \<Rightarrow> bool \<Rightarrow> int \<Rightarrow> string \<Rightarrow> go_error list + claims"
type_synonym jwt_sign = "string \<Rightarrow> claims \<Rightarrow> string result"

definition JoinedIs :: "go_error list \<Rightarrow> go_error \<Rightarrow> bool" where
  "JoinedIs es target \<longleftrightarrow> (\<exists>e \<in> set es. errors_Is e target)"

definition NewTokenManager :: "string \<Rightarrow> int \<Rightarrow> int \<Rightarrow> token_manager" where
  "NewTokenManager s expireHours refreshHours =
     \<lparr>secret = s, expireDur = wrap64 (expireHours * (3600 * 10 ^ 9)), refreshDur = wrap64 (refreshHours * (3600 * 10 ^ 9))\<rparr>"

text \<open>\<^verbatim>\<open>jwt.NewNumericDate\<close> truncates to seconds.\<close>

definition NewNumericDate :: "int \<Rightarrow> int" where
  "NewNumericDate t = t div 10 ^ 9"

definition token_claims :: "token_manager \<Rightarrow> int \<Rightarrow> string \<Rightarrow> string \<Rightarrow> string \<Rightarrow> claims" where
  "token_claims tm now userID username email =
     \<lparr>c_UserID = userID, c_UserName = username, c_UserEmail = email,
      c_ExpiresAt = Some (NewNumericDate (now + expireDur tm)), c_IssuedAt = Some (NewNumericDate now),
      c_NotBefore = Some (NewNumericDate now)\<rparr>"

definition GenerateToken :: "jwt_sign \<Rightarrow> token_manager \<Rightarrow> int \<Rightarrow> string \<Rightarrow> string \<Rightarrow> string \<Rightarrow> string result" where
  "GenerateToken sign tm now userID username email = sign (secret tm) (token_claims tm now userID username email)"

definition ParseToken :: "jwt_parse \<Rightarrow> token_manager \<Rightarrow> int \<Rightarrow> string \<Rightarrow> claims result" where
  "ParseToken parse tm now tokenString =
     (case parse (secret tm) True True now tokenString of
        Inl es \<Rightarrow>
          if JoinedIs es jwt_ErrTokenExpired then Inl ErrExpiredToken
          else if JoinedIs es jwt_ErrTokenNotValidYet then Inl ErrTokenNotYetValid
          else Inl ErrInvalidToken
      | Inr c \<Rightarrow> Inr c)"

definition RefreshToken :: "jwt_sign \<Rightarrow> jwt_parse \<Rightarrow> token_manager \<Rightarrow> int \<Rightarrow> string \<Rightarrow> string result" where
  "RefreshToken sign parse tm now tokenString =
     (case parse (secret tm) True False now tokenString of
        Inl es \<Rightarrow> Inl ErrInvalidToken
      | Inr c \<Rightarrow>
          (case c_ExpiresAt c of
             None \<Rightarrow> Inl ErrInvalidToken
           | Some x \<Rightarrow>
               (let expiryTime = x * 10 ^ 9
                in if expiryTime < now then
                     (if refreshDur tm < now - expiryTime then Inl (Err ''token expired beyond refresh window'')
                      else GenerateToken sign tm now (c_UserID c) (c_UserName c) (c_UserEmail c))
                   else
                     (if refreshDur tm < expiryTime - now then Inl (Err ''token not yet eligible for refresh'')
                      else GenerateToken sign tm now (c_UserID c) (c_UserName c) (c_UserEmail c)))))"

definition GetUserIDFromToken :: "jwt_parse \<Rightarrow> token_manager \<Rightarrow> int \<Rightarrow> string \<Rightarrow> (go_error list + string)" where
  "GetUserIDFromToken parse tm now tokenString =
     (case parse (secret tm) False False now tokenString of Inl es \<Rightarrow> Inl es | Inr c \<Rightarrow> Inr (c_UserID c))"

section \<open>The contract of the library\<close>

text \<open>Claims validation: expired from the second of the expiry on, not valid before the second of
  the start.\<close>

definition claim_errors :: "int \<Rightarrow> claims \<Rightarrow> go_error list" where
  "claim_errors now c =
     (case c_ExpiresAt c of Some x \<Rightarrow> if x * 10 ^ 9 \<le> now then [jwt_ErrTokenExpired] else [] | None \<Rightarrow> []) @
     (case c_NotBefore c of Some b \<Rightarrow> if now < b * 10 ^ 9 then [jwt_ErrTokenNotValidYet] else [] | None \<Rightarrow> [])"

text \<open>Claims travel as JSON, whose encoder replaces bytes that are not UTF-8: a text field is read back as it was written
  if it is valid UTF-8 (\<^verbatim>\<open>utf8.Valid\<close>), the dates always.\<close>

fun valid_utf8 :: "string \<Rightarrow> bool" where
  "valid_utf8 [] = True"
| "valid_utf8 (a # s) =
     (let x = of_char a :: nat; cont = (\<lambda>b :: char. (0x80 :: nat) \<le> of_char b \<and> of_char b \<le> (0xBF :: nat))
      in if x < 0x80 then valid_utf8 s
         else case s of [] \<Rightarrow> False | b # s1 \<Rightarrow>
           if 0xC2 \<le> x \<and> x \<le> 0xDF then cont b \<and> valid_utf8 s1
           else case s1 of [] \<Rightarrow> False | c # s2 \<Rightarrow>
             if 0xE0 \<le> x \<and> x \<le> 0xEF then
               cont b \<and> cont c \<and> (x = 0xE0 \<longrightarrow> (0xA0 :: nat) \<le> of_char b) \<and> (x = 0xED \<longrightarrow> of_char b \<le> (0x9F :: nat)) \<and> valid_utf8 s2
             else case s2 of [] \<Rightarrow> False | d # s3 \<Rightarrow>
               0xF0 \<le> x \<and> x \<le> 0xF4 \<and> cont b \<and> cont c \<and> cont d \<and>
               (x = 0xF0 \<longrightarrow> (0x90 :: nat) \<le> of_char b) \<and> (x = 0xF4 \<longrightarrow> of_char b \<le> (0x8F :: nat)) \<and> valid_utf8 s3)"

lemma valid_utf8_ascii: "(\<forall>c \<in> set s. of_char c < (128 :: nat)) \<Longrightarrow> valid_utf8 s"
  by (induction s) (auto simp: Let_def)

definition reads_back :: "claims \<Rightarrow> claims \<Rightarrow> bool" where
  "reads_back c c' \<longleftrightarrow>
     (\<forall>field \<in> {c_UserID, c_UserName, c_UserEmail}. valid_utf8 (field c) \<longrightarrow> field c' = field c) \<and>
     c_ExpiresAt c' = c_ExpiresAt c \<and> c_IssuedAt c' = c_IssuedAt c \<and> c_NotBefore c' = c_NotBefore c"

lemma reads_back_refl [simp]: "reads_back c c"
  by (simp add: reads_back_def)

lemma reads_back_utf8:
  "reads_back c c' \<Longrightarrow> valid_utf8 (c_UserID c) \<Longrightarrow> valid_utf8 (c_UserName c) \<Longrightarrow> valid_utf8 (c_UserEmail c) \<Longrightarrow> c' = c"
  by (cases c; cases c') (simp add: reads_back_def)

locale jwt_library =
  fixes sign :: jwt_sign and parse :: jwt_parse
  assumes parse_signed: "sign s c = Inr tok \<Longrightarrow> \<exists>c'. parse s hmac_only False now tok = Inr c' \<and> reads_back c c'"
    and parse_validates: "parse s h False now tok = Inr c \<Longrightarrow>
      parse s h True now tok = (if claim_errors now c = [] then Inr c else Inl (claim_errors now c))"
    and parse_refuses: "parse s h False now tok = Inl es \<Longrightarrow>
      \<exists>es'. parse s h True now tok = Inl es' \<and> \<not> JoinedIs es' jwt_ErrTokenExpired \<and> \<not> JoinedIs es' jwt_ErrTokenNotValidYet"
begin

lemma parse_generated:
  assumes "GenerateToken sign tm now0 u n e = Inr tok"
  obtains c where "parse (secret tm) True False now tok = Inr c" and "reads_back (token_claims tm now0 u n e) c"
  using parse_signed [OF assms [unfolded GenerateToken_def], of True now] by blast

lemma ParseToken_reads:
  assumes "GenerateToken sign tm now0 u n e = Inr tok"
  obtains c where "reads_back (token_claims tm now0 u n e) c" and
    "ParseToken parse tm now tok =
      (if NewNumericDate (now0 + expireDur tm) * 10 ^ 9 \<le> now then Inl ErrExpiredToken
       else if now < NewNumericDate now0 * 10 ^ 9 then Inl ErrTokenNotYetValid
       else Inr c)"
proof -
  obtain c where c: "parse (secret tm) True False now tok = Inr c" "reads_back (token_claims tm now0 u n e) c"
    by (rule parse_generated [OF assms])
  from parse_validates [OF c(1)] c(2) show ?thesis
    by (intro that [of c]) (auto simp: ParseToken_def claim_errors_def reads_back_def token_claims_def JoinedIs_def
        jwt_ErrTokenExpired_def jwt_ErrTokenNotValidYet_def)
qed

lemma ParseToken_generated:
  assumes "GenerateToken sign tm now0 u n e = Inr tok" and "valid_utf8 u" and "valid_utf8 n" and "valid_utf8 e"
  shows "ParseToken parse tm now tok =
    (if NewNumericDate (now0 + expireDur tm) * 10 ^ 9 \<le> now then Inl ErrExpiredToken
     else if now < NewNumericDate now0 * 10 ^ 9 then Inl ErrTokenNotYetValid
     else Inr (token_claims tm now0 u n e))"
proof (rule ParseToken_reads [OF assms(1), of now])
  fix c assume "reads_back (token_claims tm now0 u n e) c"
  then have "c = token_claims tm now0 u n e" using reads_back_utf8 assms(2-4) by (simp add: token_claims_def)
  then show "ParseToken parse tm now tok =
      (if NewNumericDate (now0 + expireDur tm) * 10 ^ 9 \<le> now then Inl ErrExpiredToken
       else if now < NewNumericDate now0 * 10 ^ 9 then Inl ErrTokenNotYetValid else Inr c) \<Longrightarrow> ?thesis" by simp
qed

lemma RefreshToken_generated:
  assumes "GenerateToken sign tm now0 u n e = Inr tok" and "valid_utf8 u" and "valid_utf8 n" and "valid_utf8 e"
  shows "RefreshToken sign parse tm now tok =
    (let expiry = NewNumericDate (now0 + expireDur tm) * 10 ^ 9
     in if \<bar>now - expiry\<bar> \<le> refreshDur tm then GenerateToken sign tm now u n e
        else Inl (Err (if expiry < now then ''token expired beyond refresh window''
                       else ''token not yet eligible for refresh'')))"
proof -
  obtain c where c: "parse (secret tm) True False now tok = Inr c" "reads_back (token_claims tm now0 u n e) c"
    by (rule parse_generated [OF assms(1)])
  then have "c = token_claims tm now0 u n e" using reads_back_utf8 assms(2-4) by (simp add: token_claims_def)
  then show ?thesis using c(1) by (simp add: RefreshToken_def token_claims_def Let_def abs_if)
qed

lemma ParseToken_valid:
  assumes "ParseToken parse tm now tok = Inr c"
  shows "parse (secret tm) True False now tok = Inr c" and "claim_errors now c = []"
proof -
  have "parse (secret tm) True False now tok = Inr c \<and> claim_errors now c = []"
  proof (cases "parse (secret tm) True False now tok")
    case (Inl es)
    then show ?thesis using parse_refuses [OF Inl] assms by (auto simp: ParseToken_def)
  next
    case (Inr c')
    then show ?thesis using parse_validates [OF Inr] assms by (auto simp: ParseToken_def split: if_splits)
  qed
  then show "parse (secret tm) True False now tok = Inr c" and "claim_errors now c = []" by auto
qed

end

section \<open>A library for examples\<close>

text \<open>Tokens that carry the secret and the claims in clear, for witnesses only.\<close>

fun enc_opt :: "int option \<Rightarrow> string" where
  "enc_opt None = []"
| "enc_opt (Some i) = FormatInt i"

definition dec_opt :: "string \<Rightarrow> int option" where
  "dec_opt s = (if s = [] then None else ParseInt s)"

lemma FormatInt_not_Nil: "FormatInt i \<noteq> []"
  by (simp add: FormatInt_def dec_not_Nil)

lemma dec_enc_opt [simp]: "dec_opt (enc_opt x) = x"
  by (cases x) (auto simp: dec_opt_def FormatInt_not_Nil)

definition demo_sign :: jwt_sign where
  "demo_sign s c = Inr (concat (map enc_field [s, c_UserID c, c_UserName c, c_UserEmail c,
     enc_opt (c_ExpiresAt c), enc_opt (c_IssuedAt c), enc_opt (c_NotBefore c)]))"

definition demo_parse :: jwt_parse where
  "demo_parse s hmac_only validate now tok =
     (case dec_fields 7 tok of
        Some [s', u, n, e, x, i, b] \<Rightarrow>
          (let c = \<lparr>c_UserID = u, c_UserName = n, c_UserEmail = e, c_ExpiresAt = dec_opt x,
                    c_IssuedAt = dec_opt i, c_NotBefore = dec_opt b\<rparr>
           in if s' \<noteq> s then Inl [Err ''token signature is invalid'']
              else if validate \<and> claim_errors now c \<noteq> [] then Inl (claim_errors now c)
              else Inr c)
      | _ \<Rightarrow> Inl [Err ''token is malformed''])"

lemma demo_parse_signed: "demo_sign s c = Inr tok \<Longrightarrow> demo_parse s h False now tok = Inr c"
proof -
  assume tok: "demo_sign s c = Inr tok"
  define fs where "fs = [s, c_UserID c, c_UserName c, c_UserEmail c,
     enc_opt (c_ExpiresAt c), enc_opt (c_IssuedAt c), enc_opt (c_NotBefore c)]"
  have len: "length fs = 7" by (simp add: fs_def)
  have "dec_fields 7 tok = Some fs"
    using dec_enc_fields [of fs] tok unfolding len by (simp add: demo_sign_def fs_def)
  then show ?thesis by (simp add: demo_parse_def fs_def)
qed

lemma demo_parse_cases:
  "(\<exists>c. demo_parse s h False now tok = Inr c \<and>
      demo_parse s h True now tok = (if claim_errors now c = [] then Inr c else Inl (claim_errors now c))) \<or>
   (\<exists>m. demo_parse s h False now tok = Inl [Err m] \<and> demo_parse s h True now tok = Inl [Err m] \<and>
      m \<in> {''token signature is invalid'', ''token is malformed''})"
  by (auto simp: demo_parse_def Let_def split: option.split list.split)

interpretation demo_jwt: jwt_library demo_sign demo_parse
proof unfold_locales
  fix s c tok h now
  show "demo_sign s c = Inr tok \<Longrightarrow> \<exists>c'. demo_parse s h False now tok = Inr c' \<and> reads_back c c'"
    using demo_parse_signed by fastforce
next
  fix s h now tok c assume "demo_parse s h False now tok = Inr c"
  then show "demo_parse s h True now tok = (if claim_errors now c = [] then Inr c else Inl (claim_errors now c))"
    using demo_parse_cases [of s h now tok] by auto
next
  fix s h now tok es assume "demo_parse s h False now tok = Inl es"
  then show "\<exists>es'. demo_parse s h True now tok = Inl es' \<and> \<not> JoinedIs es' jwt_ErrTokenExpired \<and>
      \<not> JoinedIs es' jwt_ErrTokenNotValidYet"
    using demo_parse_cases [of s h now tok]
    by (auto simp: JoinedIs_def jwt_ErrTokenExpired_def jwt_ErrTokenNotValidYet_def)
qed

section \<open>Properties\<close>

text \<open>An expired token is refreshed as well, for as long after its expiry as the refresh duration.\<close>

lemma RefreshToken_expired:
  assumes "jwt_library sign parse" and "GenerateToken sign tm now0 u n e = Inr tok"
    and "valid_utf8 u" and "valid_utf8 n" and "valid_utf8 e" and "NewNumericDate (now0 + expireDur tm) * 10 ^ 9 \<le> now"
    and "now - NewNumericDate (now0 + expireDur tm) * 10 ^ 9 \<le> refreshDur tm"
  shows "ParseToken parse tm now tok = Inl ErrExpiredToken \<and> RefreshToken sign parse tm now tok = GenerateToken sign tm now u n e"
  using jwt_library.ParseToken_generated [OF assms(1-5)] jwt_library.RefreshToken_generated [OF assms(1-5)] assms(6,7)
  by (simp add: Let_def)

text \<open>C33. A token generated for a user whose data is UTF-8 parses back to the claims it was generated for, from the second it was
  issued until (excluding) the second of its expiry; from then on it is reported as expired, before as not yet valid.
  While it is valid, it is exchanged for a new token of the same user if it expires within the refresh
  duration, and refused as not yet eligible if not; when it has been expired for longer than that, it is refused as expired beyond the window.\<close>

theorem token_lifecycle:
  assumes "jwt_library sign parse" and "GenerateToken sign tm now0 u n e = Inr tok"
    and "valid_utf8 u" and "valid_utf8 n" and "valid_utf8 e"
  shows "let expiry = NewNumericDate (now0 + expireDur tm) * 10 ^ 9; issued = NewNumericDate now0 * 10 ^ 9
    in ParseToken parse tm now tok =
        (if expiry \<le> now then Inl ErrExpiredToken
         else if now < issued then Inl ErrTokenNotYetValid
         else Inr (token_claims tm now0 u n e)) \<and>
      (issued \<le> now \<and> now < expiry \<longrightarrow>
         RefreshToken sign parse tm now tok =
           (if expiry - now \<le> refreshDur tm then GenerateToken sign tm now u n e
            else Inl (Err ''token not yet eligible for refresh''))) \<and>
      (expiry \<le> now \<and> refreshDur tm < now - expiry \<longrightarrow>
         isl (RefreshToken sign parse tm now tok) \<and>
         (expiry < now \<longrightarrow> RefreshToken sign parse tm now tok = Inl (Err ''token expired beyond refresh window'')))"
  using jwt_library.ParseToken_generated [OF assms] jwt_library.RefreshToken_generated [OF assms] by (simp add: Let_def abs_if)

definition demo_tm :: token_manager where
  "demo_tm = \<lparr>secret = ''k'', expireDur = 24 * 3600 * 10 ^ 9, refreshDur = 168 * 3600 * 10 ^ 9\<rparr>"

theorem token_lifecycle_witness:
  "\<exists>tok. GenerateToken demo_sign demo_tm 0 ''1'' ''ann'' ''a@x'' = Inr tok \<and>
     ParseToken demo_parse demo_tm (24 * 3600 * 10 ^ 9) tok = Inl ErrExpiredToken \<and>
     RefreshToken demo_sign demo_parse demo_tm 1 tok = GenerateToken demo_sign demo_tm 1 ''1'' ''ann'' ''a@x''"
proof -
  obtain tok where tok: "GenerateToken demo_sign demo_tm 0 ''1'' ''ann'' ''a@x'' = Inr tok"
    by (simp add: GenerateToken_def demo_sign_def)
  have "valid_utf8 ''1''" "valid_utf8 ''ann''" "valid_utf8 ''a@x''" by (simp_all add: valid_utf8_ascii)
  with token_lifecycle [OF demo_jwt.jwt_library_axioms tok, of "24 * 3600 * 10 ^ 9"]
    token_lifecycle [OF demo_jwt.jwt_library_axioms tok, of 1] tok
  show ?thesis by (simp add: demo_tm_def NewNumericDate_def Let_def)
qed

end
