(* ===== verification/AuthService.thy ===== *)
theory AuthService
  imports Storage Jwt
begin

text \<open>
  The authentication service of \<^verbatim>\<open>internal/service/auth.go\<close> over the user repository and the token
  manager.  bcrypt is a parameter: \<open>gen\<close> is \<^verbatim>\<open>GenerateFromPassword\<close> and \<open>cmp\<close> is
  \<^verbatim>\<open>CompareHashAndPassword\<close>; the fresh UUID of a registration is an argument.
\<close>

section \<open>Operations\<close>

definition ErrUserAlreadyExists :: go_error where "ErrUserAlreadyExists = Err ''username already exists''"
definition ErrInvalidCredentials :: go_error where "ErrInvalidCredentials = Err ''invalid username or password''"
definition auth_ErrInvalidToken :: go_error where "auth_ErrInvalidToken = Err ''invalid token''"

record register_request =
  rr_Username :: string
  rr_Password :: string
  rr_Email :: string

record login_request =
  lr_Username :: string
  lr_Password :: string

record login_response =
  lp_Token :: string
  lp_User :: user

type_synonym bcrypt_gen = "string \<Rightarrow> int \<Rightarrow> string result"
type_synonym bcrypt_cmp = "string \<Rightarrow> string \<Rightarrow> go_error option"

definition DefaultCost :: int where "DefaultCost = 10"

definition hashPassword :: "bcrypt_gen \<Rightarrow> string \<Rightarrow> string result" where
  "hashPassword gen password = gen password DefaultCost"

definition verifyPassword :: "bcrypt_cmp \<Rightarrow> string \<Rightarrow> string \<Rightarrow> go_error option" where
  "verifyPassword cmp hashedPassword password = cmp hashedPassword password"

definition assignHub :: string where
  "assignHub = ''hub_001''"

definition new_user :: "string \<Rightarrow> string \<Rightarrow> register_request \<Rightarrow> user" where
  "new_user uuid hash req =
     \<lparr>u_ID = uuid, u_UserName = rr_Username req, u_Email = rr_Email req, u_PasswordHash = hash,
      u_AvatarURL = [], u_Status = [], u_HubID = assignHub, u_CreatedAt = 0, u_UpdatedAt = 0\<rparr>"

definition create_user :: "'d database \<Rightarrow> bcrypt_gen \<Rightarrow> int \<Rightarrow> string \<Rightarrow> register_request \<Rightarrow> 'd \<Rightarrow> user result \<times> 'd" where
  "create_user db gen t uuid req d =
     (case hashPassword gen (rr_Password req) of
        Inl e \<Rightarrow> (Inl (Wrap ''failed to hash password'' e), d)
      | Inr hash \<Rightarrow>
          (case user_Create db t (new_user uuid hash req) d of
             (Inl e, d') \<Rightarrow> (Inl (Wrap ''failed to create user'' e), d')
           | (Inr u, d') \<Rightarrow> (Inr u, d')))"

definition Register :: "'d database \<Rightarrow> bcrypt_gen \<Rightarrow> int \<Rightarrow> string \<Rightarrow> register_request \<Rightarrow> 'd \<Rightarrow> user result \<times> 'd" where
  "Register db gen t uuid req d =
     (case user_FindByUsername db t (rr_Username req) d of
        (Inr existingUser, d1) \<Rightarrow> (Inl ErrUserAlreadyExists, d1)
      | (Inl e, d1) \<Rightarrow>
          if \<not> errors_Is e ErrRecordNotFound then (Inl (Wrap ''failed to check existing user'' e), d1)
          else create_user db gen t uuid req d1)"

definition Login :: "'d database \<Rightarrow> bcrypt_cmp \<Rightarrow> jwt_sign \<Rightarrow> token_manager \<Rightarrow> int \<Rightarrow> int \<Rightarrow> login_request \<Rightarrow> 'd
    \<Rightarrow> login_response result \<times> 'd" where
  "Login db cmp sign tm t now req d =
     (case user_FindByUsername db t (lr_Username req) d of
        (Inl e, d1) \<Rightarrow>
          if errors_Is e ErrRecordNotFound then (Inl ErrInvalidCredentials, d1)
          else (Inl (Wrap ''failed to find user'' e), d1)
      | (Inr u, d1) \<Rightarrow>
          (case verifyPassword cmp (u_PasswordHash u) (lr_Password req) of
             Some e \<Rightarrow> (Inl ErrInvalidCredentials, d1)
           | None \<Rightarrow>
               (case GenerateToken sign tm now (u_ID u) (u_UserName u) (u_Email u) of
                  Inl e \<Rightarrow> (Inl (Wrap ''failed to generate token'' e), d1)
                | Inr token \<Rightarrow> (Inr \<lparr>lp_Token = token, lp_User = u\<rparr>, d1))))"

definition ValidateToken :: "'d database \<Rightarrow> jwt_parse \<Rightarrow> token_manager \<Rightarrow> int \<Rightarrow> int \<Rightarrow> string \<Rightarrow> 'd \<Rightarrow> user result \<times> 'd" where
  "ValidateToken db parse tm t now token d =
     (case ParseToken parse tm now token of
        Inl e \<Rightarrow> (Inl auth_ErrInvalidToken, d)
      | Inr c \<Rightarrow>
          (case user_FindByID db t (c_UserID c) d of
             (Inl e, d1) \<Rightarrow>
               if errors_Is e ErrRecordNotFound then (Inl auth_ErrInvalidToken, d1)
               else (Inl (Wrap ''failed to find user'' e), d1)
           | (Inr u, d1) \<Rightarrow> (Inr u, d1)))"

section \<open>bcrypt\<close>

text \<open>A hash accepts its password.  It accepts no other, as far as bcrypt can tell passwords apart: it
  ignores what follows the 72nd byte and reads its input cyclically with a NUL at the end.\<close>

definition plain_password :: "string \<Rightarrow> bool" where
  "plain_password p \<longleftrightarrow> length p \<le> 72 \<and> CHR 0x00 \<notin> set p"

locale bcrypt_library =
  fixes gen :: bcrypt_gen and cmp :: bcrypt_cmp
  assumes gen_cmp: "gen password cost = Inr h \<Longrightarrow> cmp h password = None"
    and gen_cmp_only: "gen password cost = Inr h \<Longrightarrow> cmp h password' = None \<Longrightarrow>
      plain_password password \<Longrightarrow> plain_password password' \<Longrightarrow> password' = password"

definition demo_bcrypt_gen :: bcrypt_gen where
  "demo_bcrypt_gen password cost =
     (if length password > 72 then Inl (Err ''bcrypt: password length exceeds 72 bytes'') else Inr (CHR ''$'' # password))"

definition demo_bcrypt_cmp :: bcrypt_cmp where
  "demo_bcrypt_cmp h password = (if h = CHR ''$'' # password then None
     else Some (Err ''crypto/bcrypt: hashedPassword is not the hash of the given password''))"

interpretation demo_bcrypt: bcrypt_library demo_bcrypt_gen demo_bcrypt_cmp
  by unfold_locales (auto simp: demo_bcrypt_gen_def demo_bcrypt_cmp_def split: if_splits)

section \<open>Registration\<close>

lemma new_user_simps [simp]:
  "u_ID (new_user uuid hash req) = uuid" "u_UserName (new_user uuid hash req) = rr_Username req"
  "u_Email (new_user uuid hash req) = rr_Email req" "u_PasswordHash (new_user uuid hash req) = hash"
  "u_HubID (new_user uuid hash req) = assignHub"
  by (simp_all add: new_user_def)

context sql_database
begin

text \<open>A failed insert has no effect, or the whole effect.\<close>

lemma user_Create_err:
  assumes "user_Create db t u d = (Inl e, d')"
  shows "view d' = view d \<or>
    view d' = (view d)\<lparr>t_users := t_users (view d) @ [fill_user t u]\<rparr> \<and> (\<forall>v \<in> set (t_users (view d)). \<not> user_conflict u v)"
proof -
  obtain r d1 where db: "db t (InsertUser u) d = (r, d1)" by fastforce
  have d1: "d1 = d'" using assms db by (auto simp: user_Create_def query_first_def split: sum.splits list.splits)
  show ?thesis
  proof (cases r)
    case (Inl e')
    then show ?thesis using db_err [OF db [unfolded Inl]] d1 by (auto split: if_splits)
  next
    case (Inr rs)
    then show ?thesis using db_ok [OF db [unfolded Inr]] d1 by (auto split: if_splits)
  qed
qed

lemma create_user_ok:
  assumes "create_user db gen t uuid req d = (Inr u, d')"
  shows "\<exists>hash. gen (rr_Password req) DefaultCost = Inr hash \<and> u = fill_user t (new_user uuid hash req) \<and>
    view d' = (view d)\<lparr>t_users := t_users (view d) @ [u]\<rparr> \<and>
    (\<forall>v \<in> set (t_users (view d)). \<not> user_conflict (new_user uuid hash req) v)"
proof -
  obtain hash where hash: "gen (rr_Password req) DefaultCost = Inr hash"
      and cr: "user_Create db t (new_user uuid hash req) d = (Inr u, d')"
    using assms by (auto simp: create_user_def hashPassword_def split: sum.splits prod.splits)
  show ?thesis using hash user_Create_ok [OF cr] by blast
qed

lemma create_user_err:
  assumes "create_user db gen t uuid req d = (Inl e, d')"
  shows "view d' = view d \<or> (\<exists>hash. gen (rr_Password req) DefaultCost = Inr hash \<and>
    view d' = (view d)\<lparr>t_users := t_users (view d) @ [fill_user t (new_user uuid hash req)]\<rparr>)"
    and "e \<noteq> ErrUserAlreadyExists"
  using assms user_Create_err
  by (auto simp: create_user_def hashPassword_def ErrUserAlreadyExists_def split: sum.splits prod.splits) blast

lemma Register_ok:
  assumes "Register db gen t uuid req d = (Inr u, d')"
  shows "\<exists>hash. gen (rr_Password req) DefaultCost = Inr hash \<and> u = fill_user t (new_user uuid hash req) \<and>
    view d' = (view d)\<lparr>t_users := t_users (view d) @ [u]\<rparr> \<and>
    (\<forall>v \<in> set (t_users (view d)). u_UserName v \<noteq> rr_Username req)"
proof -
  obtain e d1 where f: "user_FindByUsername db t (rr_Username req) d = (Inl e, d1)" "errors_Is e ErrRecordNotFound"
      and cr: "create_user db gen t uuid req d1 = (Inr u, d')"
    using assms by (auto simp: Register_def split: sum.splits prod.splits if_splits)
  show ?thesis
    using create_user_ok [OF cr] FindByUsername_user(1) [OF f(1)] FindByUsername_user(3) [OF f(1) refl f(2)] by auto
qed

lemma Register_effect:
  assumes "Register db gen t uuid req d = (res, d')"
  shows "view d' = view d \<or> (\<exists>u. view d' = (view d)\<lparr>t_users := t_users (view d) @ [u]\<rparr>)"
proof (cases "\<exists>d1. view d1 = view d \<and> create_user db gen t uuid req d1 = (res, d')")
  case True
  then obtain d1 where d1: "view d1 = view d" "create_user db gen t uuid req d1 = (res, d')" by blast
  then show ?thesis using create_user_ok create_user_err(1) by (cases res) (metis d1)+
next
  case False
  obtain r d1 where f: "user_FindByUsername db t (rr_Username req) d = (r, d1)" by fastforce
  with False assms FindByUsername_user(1) [OF f] show ?thesis
    by (cases r) (auto simp: Register_def split: if_splits)
qed

lemma Register_integrity:
  assumes "db_integrity (view d)" and "Register db gen t uuid req d = (res, d')"
  shows "db_integrity (view d')"
proof -
  obtain r d1 where f: "user_FindByUsername db t (rr_Username req) d = (r, d1)" by fastforce
  have inv1: "db_integrity (view d1)" using FindByUsername_user(1) [OF f] assms(1) by simp
  have "db_integrity (view (snd (create_user db gen t uuid req d1)))"
    using inv1 db_integrity_kept [OF inv1, of t "InsertUser (new_user uuid hash req)" for hash]
    by (auto simp: create_user_def user_Create_def query_first_def split: sum.splits prod.splits list.splits)
      (metis snd_conv)+
  then show ?thesis using assms(2) f inv1 by (auto simp: Register_def split: sum.splits if_splits prod.splits)
qed

end

section \<open>Accounts in a database that is up\<close>

lemma distinct_filter_key:
  "distinct (map f xs) \<Longrightarrow> x \<in> set xs \<Longrightarrow> filter (\<lambda>y. f y = f x) xs = [x]"
  by (induction xs) (auto simp: filter_empty_conv image_iff)

context healthy_database
begin

lemma first_exact:
  assumes "storable q" and "sql_step t q (view d) = (Inr rs, view d)"
  shows "\<exists>d'. query_first db t q read d =
    ((case read rs of [] \<Rightarrow> Inl ErrRecordNotFound | x # _ \<Rightarrow> Inr x), d') \<and> view d' = view d"
  using db_exact [of q t d] assms
  by (cases "db t q d") (auto simp: query_first_def split: list.split)

lemma FindByUsername_exact:
  assumes "db_integrity (view d)" and "u \<in> set (t_users (view d))" and "ascii_text (u_UserName u)"
  shows "\<exists>d'. user_FindByUsername db t (u_UserName u) d = (Inr u, d') \<and> view d' = view d"
proof -
  have "filter (\<lambda>v. u_UserName v = u_UserName u) (t_users (view d)) = [u]"
    using assms by (intro distinct_filter_key) (auto simp: db_integrity_def)
  then show ?thesis
    using first_exact [of "FirstUserByName (u_UserName u)" t d, OF _ sql_step.simps(4), of user_rows] assms(3)
    by (simp add: user_FindByUsername_def)
qed

lemma FindByID_exact:
  assumes "db_integrity (view d)" and "u \<in> set (t_users (view d))" and "ascii_text (u_ID u)"
  shows "\<exists>d'. user_FindByID db t (u_ID u) d = (Inr u, d') \<and> view d' = view d"
proof -
  have "filter (\<lambda>v. u_ID v = u_ID u) (t_users (view d)) = [u]"
    using assms by (intro distinct_filter_key) (auto simp: db_integrity_def)
  then show ?thesis
    using first_exact [of "FirstUserById (u_ID u)" t d, OF _ sql_step.simps(3), of user_rows] assms(3)
    by (simp add: user_FindByID_def)
qed

lemma Login_exact:
  assumes "db_integrity (view d)" and "u \<in> set (t_users (view d))" and "ascii_text (u_UserName u)"
  shows "\<exists>d'. Login db cmp sign tm t now \<lparr>lr_Username = u_UserName u, lr_Password = p\<rparr> d =
      ((if cmp (u_PasswordHash u) p \<noteq> None then Inl ErrInvalidCredentials
        else case GenerateToken sign tm now (u_ID u) (u_UserName u) (u_Email u) of
            Inl e \<Rightarrow> Inl (Wrap ''failed to generate token'' e)
          | Inr token \<Rightarrow> Inr \<lparr>lp_Token = token, lp_User = u\<rparr>), d') \<and> view d' = view d"
  using FindByUsername_exact [OF assms, of t]
  by (auto simp: Login_def verifyPassword_def split: sum.split option.split)

lemma ValidateToken_exact:
  assumes "db_integrity (view d)" and "u \<in> set (t_users (view d))" and "ascii_text (u_ID u)"
  shows "\<exists>d'. ValidateToken db parse tm t now token d =
      (case ParseToken parse tm now token of Inl e \<Rightarrow> (Inl auth_ErrInvalidToken, d')
       | Inr c \<Rightarrow> if c_UserID c = u_ID u then (Inr u, d') else ValidateToken db parse tm t now token d) \<and>
     view d' = view d"
  using FindByID_exact [OF assms, of t]
  by (auto simp: ValidateToken_def split: sum.split)

end

section \<open>Properties\<close>

text \<open>C34. What \<^verbatim>\<open>Register\<close> does on every branch, in a database with integrity: success means the name was
  free and exactly the new user, with the bcrypt hash of the password and the default hub, was added;
  ``username already exists'' means that it does and nothing changed; every other error leaves the tables as they
  were or, when the connection broke after the commit, holds the complete new user.  Integrity (unique
  ids, names and e-mail addresses) is kept on every branch.\<close>

theorem Register_spec:
  assumes "sql_database db view" and "db_integrity (view d)" and "Register db gen t uuid req d = (res, d')"
  shows "db_integrity (view d') \<and>
    (case res of
       Inr u \<Rightarrow> (\<forall>v \<in> set (t_users (view d)). u_UserName v \<noteq> rr_Username req) \<and>
         view d' = (view d)\<lparr>t_users := t_users (view d) @ [u]\<rparr> \<and>
         (\<exists>hash. gen (rr_Password req) DefaultCost = Inr hash \<and> u = fill_user t (new_user uuid hash req))
     | Inl e \<Rightarrow>
         if e = ErrUserAlreadyExists
         then view d' = view d \<and> (\<exists>v \<in> set (t_users (view d)). u_UserName v = rr_Username req)
         else view d' = view d \<or> (\<exists>hash. gen (rr_Password req) DefaultCost = Inr hash \<and>
           view d' = (view d)\<lparr>t_users := t_users (view d) @ [fill_user t (new_user uuid hash req)]\<rparr>))"
proof -
  note db = sql_database.FindByUsername_user [OF assms(1)] sql_database.create_user_err [OF assms(1)]
  obtain r d1 where f: "user_FindByUsername db t (rr_Username req) d = (r, d1)" by fastforce
  note found = db(1-3) [OF f]
  show ?thesis
  proof (rule conjI)
    show "db_integrity (view d')" by (rule sql_database.Register_integrity [OF assms])
    show "case res of
       Inr u \<Rightarrow> (\<forall>v \<in> set (t_users (view d)). u_UserName v \<noteq> rr_Username req) \<and>
         view d' = (view d)\<lparr>t_users := t_users (view d) @ [u]\<rparr> \<and>
         (\<exists>hash. gen (rr_Password req) DefaultCost = Inr hash \<and> u = fill_user t (new_user uuid hash req))
     | Inl e \<Rightarrow>
         if e = ErrUserAlreadyExists
         then view d' = view d \<and> (\<exists>v \<in> set (t_users (view d)). u_UserName v = rr_Username req)
         else view d' = view d \<or> (\<exists>hash. gen (rr_Password req) DefaultCost = Inr hash \<and>
           view d' = (view d)\<lparr>t_users := t_users (view d) @ [fill_user t (new_user uuid hash req)]\<rparr>)"
    proof (cases "\<exists>e. r = Inl e \<and> errors_Is e ErrRecordNotFound")
      case True
      then have cr: "create_user db gen t uuid req d1 = (res, d')" using assms(3) f by (auto simp: Register_def)
      show ?thesis
      proof (cases res)
        case (Inl e)
        with db(4,5) [OF cr [unfolded Inl]] found(1) show ?thesis by simp
      next
        case (Inr u)
        with sql_database.Register_ok [OF assms(1) assms(3) [unfolded Inr]] show ?thesis by auto
      qed
    next
      case False
      with assms(3) f found show ?thesis
        by (cases r) (auto simp: Register_def ErrUserAlreadyExists_def)
    qed
  qed
qed

definition demo_request :: register_request where
  "demo_request = \<lparr>rr_Username = ''ann'', rr_Password = ''secret-1'', rr_Email = ''a@x''\<rparr>"

definition demo_account :: user where
  "demo_account = fill_user 5 (new_user ''id-1'' (CHR ''$'' # ''secret-1'') demo_request)"

lemma demo_Register:
  "Register sql_step demo_bcrypt_gen 5 ''id-1'' demo_request empty_tables =
     (Inr demo_account, empty_tables\<lparr>t_users := [demo_account]\<rparr>)"
  by (simp add: Register_def create_user_def user_FindByUsername_def user_Create_def query_first_def hashPassword_def
      demo_bcrypt_gen_def demo_request_def demo_account_def empty_tables_def ErrRecordNotFound_def)

lemma empty_tables_integrity: "db_integrity empty_tables"
  by (simp add: db_integrity_def empty_tables_def)

theorem Register_spec_witness:
  "db_integrity (empty_tables\<lparr>t_users := [demo_account]\<rparr>) \<and> u_PasswordHash demo_account = CHR ''$'' # ''secret-1''"
  using Register_spec [OF ref_db.sql_database_axioms, of empty_tables, unfolded id_apply, OF empty_tables_integrity demo_Register, THEN conjunct1]
  by (simp add: demo_account_def)

text \<open>C16. A user with an ASCII name (the README allows letters and digits) that registered can log in with the password it registered
  with and gets a token that validates to this user until it expires; with any other password, if bcrypt can tell the two
  apart (at most 72 bytes, without NUL), the login is refused as invalid credentials.\<close>

theorem account_round_trip:
  assumes "healthy_database db view" and "bcrypt_library gen cmp" and "jwt_library sign parse"
    and "db_integrity (view d)" and "Register db gen t uuid req d = (Inr u, d1)"
    and "ascii_text uuid" and "ascii_text (rr_Username req)"
    and "GenerateToken sign tm now (u_ID u) (u_UserName u) (u_Email u) = Inr token"
  shows "(\<exists>d2. Login db cmp sign tm t1 now \<lparr>lr_Username = rr_Username req, lr_Password = rr_Password req\<rparr> d1 =
        (Inr \<lparr>lp_Token = token, lp_User = u\<rparr>, d2) \<and> view d2 = view d1 \<and>
      fst (ValidateToken db parse tm t2 now' token d2) =
        (if NewNumericDate now * 10 ^ 9 \<le> now' \<and> now' < NewNumericDate (now + expireDur tm) * 10 ^ 9
         then Inr u else Inl auth_ErrInvalidToken)) \<and>
    (\<forall>p. plain_password (rr_Password req) \<longrightarrow> plain_password p \<longrightarrow> p \<noteq> rr_Password req \<longrightarrow>
      fst (Login db cmp sign tm t1 now \<lparr>lr_Username = rr_Username req, lr_Password = p\<rparr> d1) = Inl ErrInvalidCredentials)"
proof -
  have reg: "sql_database db view" by (rule healthy_database.axioms(1) [OF assms(1)])
  obtain hash where hash: "gen (rr_Password req) DefaultCost = Inr hash" "u = fill_user t (new_user uuid hash req)"
      and d1: "view d1 = (view d)\<lparr>t_users := t_users (view d) @ [u]\<rparr>"
    using sql_database.Register_ok [OF reg assms(5)] by blast
  have inv: "db_integrity (view d1)" by (rule sql_database.Register_integrity [OF reg assms(4,5)])
  have u: "u \<in> set (t_users (view d1))" "u_UserName u = rr_Username req" "u_PasswordHash u = hash"
    using d1 hash by simp_all
  have ascii: "ascii_text (u_UserName u)" "ascii_text (u_ID u)" using assms(6,7) hash(2) by simp_all
  note login = healthy_database.Login_exact [OF assms(1) inv u(1) ascii(1), of cmp sign tm t1 now, unfolded u(2,3)]
  obtain d2 where d2: "Login db cmp sign tm t1 now \<lparr>lr_Username = rr_Username req, lr_Password = rr_Password req\<rparr> d1 =
      (Inr \<lparr>lp_Token = token, lp_User = u\<rparr>, d2)" "view d2 = view d1"
    using login [of "rr_Password req"] bcrypt_library.gen_cmp [OF assms(2) hash(1)] assms(8) by (auto simp: u(2))
  obtain c where c: "reads_back (token_claims tm now (u_ID u) (u_UserName u) (u_Email u)) c" and
    "ParseToken parse tm now' token =
    (if NewNumericDate (now + expireDur tm) * 10 ^ 9 \<le> now' then Inl ErrExpiredToken
     else if now' < NewNumericDate now * 10 ^ 9 then Inl ErrTokenNotYetValid
     else Inr c)"
    by (rule jwt_library.ParseToken_reads [OF assms(3,8)])
  moreover have "c_UserID c = u_ID u"
    using c valid_utf8_ascii [of "u_ID u"] ascii(2) by (simp add: reads_back_def token_claims_def ascii_text_def)
  ultimately have "fst (ValidateToken db parse tm t2 now' token d2) =
      (if NewNumericDate now * 10 ^ 9 \<le> now' \<and> now' < NewNumericDate (now + expireDur tm) * 10 ^ 9
       then Inr u else Inl auth_ErrInvalidToken)"
    using healthy_database.ValidateToken_exact [OF assms(1), of d2 u parse tm t2 now' token] inv u(1) d2(2) ascii(2)
    by (auto split: if_splits)
  moreover have "fst (Login db cmp sign tm t1 now \<lparr>lr_Username = rr_Username req, lr_Password = p\<rparr> d1) = Inl ErrInvalidCredentials"
    if "plain_password (rr_Password req)" "plain_password p" "p \<noteq> rr_Password req" for p
  proof -
    have "cmp hash p \<noteq> None" using bcrypt_library.gen_cmp_only [OF assms(2) hash(1) _ that(1,2)] that(3) by blast
    then show ?thesis using login [of p] by auto
  qed
  ultimately show ?thesis using d2 by blast
qed

theorem account_round_trip_witness:
  "\<exists>token d2. Login sql_step demo_bcrypt_cmp demo_sign demo_tm 6 0 \<lparr>lr_Username = ''ann'', lr_Password = ''secret-1''\<rparr>
        (empty_tables\<lparr>t_users := [demo_account]\<rparr>) = (Inr \<lparr>lp_Token = token, lp_User = demo_account\<rparr>, d2) \<and>
      fst (ValidateToken sql_step demo_parse demo_tm 7 1 token d2) = Inr demo_account \<and>
      fst (Login sql_step demo_bcrypt_cmp demo_sign demo_tm 6 0 \<lparr>lr_Username = ''ann'', lr_Password = ''secret-2''\<rparr>
        (empty_tables\<lparr>t_users := [demo_account]\<rparr>)) = Inl ErrInvalidCredentials"
proof -
  obtain token where tok: "GenerateToken demo_sign demo_tm 0 (u_ID demo_account) (u_UserName demo_account)
      (u_Email demo_account) = Inr token"
    by (simp add: GenerateToken_def demo_sign_def)
  have rq: "rr_Username demo_request = ''ann''" "rr_Password demo_request = ''secret-1''"
    by (simp_all add: demo_request_def)
  note rt = account_round_trip [OF ref_db.healthy_database_axioms demo_bcrypt.bcrypt_library_axioms
      demo_jwt.jwt_library_axioms, of empty_tables, unfolded id_apply, OF empty_tables_integrity demo_Register _ _ tok,
      of 6 7 1, unfolded rq]
  have "plain_password ''secret-1''" "plain_password ''secret-2''" by (simp_all add: plain_password_def)
  moreover have "ascii_text ''id-1''" "ascii_text ''ann''" by (simp_all add: ascii_text_def)
  moreover have "NewNumericDate 0 * 10 ^ 9 \<le> 1 \<and> 1 < NewNumericDate (0 + expireDur demo_tm) * 10 ^ 9"
    by (simp add: NewNumericDate_def demo_tm_def)
  ultimately show ?thesis using rt by (intro exI [of _ token]) auto
qed

end
