(* ===== verification/GuildService.thy ===== *)
theory GuildService
  imports AuthService
begin

text \<open>
  The guild service of \<^verbatim>\<open>internal/service/guild.go\<close> over the user and guild repositories.  Randomness is
  an argument: \<open>src i\<close> is what attempt \<open>i\<close> draws, the four bytes of \<^verbatim>\<open>rand.Read\<close> (or its failure) and the
  UUID the fallback would use.
\<close>

section \<open>Operations\<close>

definition ErrGuildNotFound :: go_error where "ErrGuildNotFound = Err ''guild not found''"
definition ErrInvalidInviteCode :: go_error where "ErrInvalidInviteCode = Err ''invalid invite code''"
definition ErrAlreadyMember :: go_error where "ErrAlreadyMember = Err ''user is already a member of this guild''"
definition ErrNotMember :: go_error where "ErrNotMember = Err ''user is not a member of this guild''"
definition user_not_found :: go_error where "user_not_found = Err ''user not found''"

type_synonym draw = "8 word list option \<times> string"

definition hex_digit :: "nat \<Rightarrow> char" where
  "hex_digit n = ''0123456789abcdef'' ! n"

definition hex_EncodeToString :: "8 word list \<Rightarrow> string" where
  "hex_EncodeToString bs = concat (map (\<lambda>b. [hex_digit (unat b div 16), hex_digit (unat b mod 16)]) bs)"

definition generateInviteCode :: "draw \<Rightarrow> string" where
  "generateInviteCode dr =
     (case dr of
        (None, uuid) \<Rightarrow> take 8 uuid
      | (Some bs, uuid) \<Rightarrow> hex_EncodeToString bs)"

definition maxAttempts :: nat where "maxAttempts = 10"

function generateUniqueInviteCode_loop :: "'d database \<Rightarrow> int \<Rightarrow> (nat \<Rightarrow> draw) \<Rightarrow> nat \<Rightarrow> 'd \<Rightarrow> string result \<times> 'd" where
  "generateUniqueInviteCode_loop db t src i d =
     (if i < maxAttempts then
        (let code = generateInviteCode (src i)
         in case FindByInviteCode db t code d of
              (Inl e, d1) \<Rightarrow>
                if errors_Is e ErrRecordNotFound then (Inr code, d1)
                else (Inl (Wrap ''failed to check invite code'' e), d1)
            | (Inr g, d1) \<Rightarrow> generateUniqueInviteCode_loop db t src (i + 1) d1)
      else (Inl (Err ''failed to generate unique invite code after maximum attempts''), d))"
  by pat_completeness auto
termination
  by (relation "measure (\<lambda>(db, t, src, i, d). maxAttempts - i)") auto

declare generateUniqueInviteCode_loop.simps [simp del]

definition generateUniqueInviteCode :: "'d database \<Rightarrow> int \<Rightarrow> (nat \<Rightarrow> draw) \<Rightarrow> 'd \<Rightarrow> string result \<times> 'd" where
  "generateUniqueInviteCode db t src d = generateUniqueInviteCode_loop db t src 0 d"

definition new_guild :: "string \<Rightarrow> string \<Rightarrow> string \<Rightarrow> string \<Rightarrow> guild" where
  "new_guild uuid name ownerID code =
     \<lparr>g_ID = uuid, g_Name = name, g_OwnerID = ownerID, g_InviteCode = code, g_CreatedAt = 0, g_UpdatedAt = 0\<rparr>"

text \<open>\<open>uuid\<close> becomes the guild's id, \<open>uuidm\<close> the id of the membership row.\<close>

definition CreateGuild :: "'d database \<Rightarrow> int \<Rightarrow> (nat \<Rightarrow> draw) \<Rightarrow> string \<Rightarrow> string \<Rightarrow> string \<Rightarrow> string \<Rightarrow> 'd \<Rightarrow> guild result \<times> 'd" where
  "CreateGuild db t src uuid uuidm userID name d =
     (case user_FindByID db t userID d of
        (Inl e, d1) \<Rightarrow>
          if errors_Is e ErrRecordNotFound then (Inl user_not_found, d1)
          else (Inl (Wrap ''failed to find user'' e), d1)
      | (Inr user, d1) \<Rightarrow>
          (case generateUniqueInviteCode db t src d1 of
             (Inl e, d2) \<Rightarrow> (Inl (Wrap ''failed to generate invite code'' e), d2)
           | (Inr inviteCode, d2) \<Rightarrow>
               (case guild_Create db t (new_guild uuid name (u_ID user) inviteCode) d2 of
                  (Inl e, d3) \<Rightarrow> (Inl (Wrap ''failed to create guild'' e), d3)
                | (Inr guild, d3) \<Rightarrow>
                    (case AddMember db t uuidm (g_ID guild) userID d3 of
                       (Inl e, d4) \<Rightarrow> (Inl (Wrap ''failed to add creator as member'' e), d4)
                     | (Inr _, d4) \<Rightarrow> (Inr guild, d4)))))"

definition IsMember :: "'d database \<Rightarrow> int \<Rightarrow> string \<Rightarrow> string \<Rightarrow> 'd \<Rightarrow> bool result \<times> 'd" where
  "IsMember db t userID guildID d =
     (case GetMemberGuilds db t userID d of
        (Inl e, d1) \<Rightarrow> (Inl (Wrap ''failed to get user guilds'' e), d1)
      | (Inr guilds, d1) \<Rightarrow> (Inr (list_ex (\<lambda>g. g_ID g = guildID) guilds), d1))"

text \<open>\<^verbatim>\<open>JoinGuild\<close> up to its membership check, and the rest: another request can run between the two.\<close>

definition join_check :: "'d database \<Rightarrow> int \<Rightarrow> string \<Rightarrow> string \<Rightarrow> 'd \<Rightarrow> (guild \<times> user) result \<times> 'd" where
  "join_check db t userID inviteCode d =
     (case user_FindByID db t userID d of
        (Inl e, d1) \<Rightarrow>
          if errors_Is e ErrRecordNotFound then (Inl user_not_found, d1)
          else (Inl (Wrap ''failed to find user'' e), d1)
      | (Inr user, d1) \<Rightarrow>
          (case FindByInviteCode db t inviteCode d1 of
             (Inl e, d2) \<Rightarrow>
               if errors_Is e ErrRecordNotFound then (Inl ErrInvalidInviteCode, d2)
               else (Inl (Wrap ''failed to find guild'' e), d2)
           | (Inr guild, d2) \<Rightarrow>
               (case IsMember db t (u_ID user) (g_ID guild) d2 of
                  (Inl e, d3) \<Rightarrow> (Inl (Wrap ''failed to check membership'' e), d3)
                | (Inr isMember, d3) \<Rightarrow> if isMember then (Inl ErrAlreadyMember, d3) else (Inr (guild, user), d3))))"

definition JoinGuild :: "'d database \<Rightarrow> int \<Rightarrow> string \<Rightarrow> string \<Rightarrow> string \<Rightarrow> 'd \<Rightarrow> unit result \<times> 'd" where
  "JoinGuild db t uuidm userID inviteCode d =
     (case join_check db t userID inviteCode d of
        (Inl e, d3) \<Rightarrow> (Inl e, d3)
      | (Inr (guild, user), d3) \<Rightarrow>
          (case AddMember db t uuidm (g_ID guild) (u_ID user) d3 of
             (Inl e, d4) \<Rightarrow> (Inl (Wrap ''failed to add member'' e), d4)
           | (Inr _, d4) \<Rightarrow> (Inr (), d4)))"

definition GetUserGuilds :: "'d database \<Rightarrow> int \<Rightarrow> string \<Rightarrow> 'd \<Rightarrow> guild list result \<times> 'd" where
  "GetUserGuilds db t userID d =
     (case user_FindByID db t userID d of
        (Inl e, d1) \<Rightarrow>
          if errors_Is e ErrRecordNotFound then (Inl user_not_found, d1)
          else (Inl (Wrap ''failed to find user'' e), d1)
      | (Inr _, d1) \<Rightarrow>
          (case GetMemberGuilds db t userID d1 of
             (Inl e, d2) \<Rightarrow> (Inl (Wrap ''failed to get user guilds'' e), d2)
           | (Inr guilds, d2) \<Rightarrow> (Inr guilds, d2)))"

definition GetGuildMembers :: "'d database \<Rightarrow> int \<Rightarrow> string \<Rightarrow> 'd \<Rightarrow> user list result \<times> 'd" where
  "GetGuildMembers db t guildID d =
     (case guild_FindByID db t guildID d of
        (Inl e, d1) \<Rightarrow>
          if errors_Is e ErrRecordNotFound then (Inl ErrGuildNotFound, d1)
          else (Inl (Wrap ''failed to find guild'' e), d1)
      | (Inr _, d1) \<Rightarrow>
          (case repo_GetGuildMembers db t guildID d1 of
             (Inl e, d2) \<Rightarrow> (Inl (Wrap ''failed to get guild members'' e), d2)
           | (Inr members, d2) \<Rightarrow> (Inr members, d2)))"

section \<open>Invite codes\<close>

lemma hex_digit_in: "n < 16 \<Longrightarrow> hex_digit n \<in> set ''0123456789abcdef''"
  unfolding hex_digit_def by (rule nth_mem) simp

lemma unat_div_16: "unat (b :: 8 word) div 16 < 16"
  using unsigned_less [of b, where ?'a = nat] by (simp add: less_mult_imp_div_less)

lemma generateInviteCode_format:
  assumes "src = (Some bs, uuid)" and "length bs = 4"
  shows "length (generateInviteCode src) = 8" and "set (generateInviteCode src) \<subseteq> set ''0123456789abcdef''"
proof -
  have "length (hex_EncodeToString bs) = 2 * length bs" for bs
    by (induction bs) (simp_all add: hex_EncodeToString_def)
  then show "length (generateInviteCode src) = 8" using assms by (simp add: generateInviteCode_def)
  have "set (hex_EncodeToString bs) \<subseteq> set ''0123456789abcdef''"
  proof
    fix x assume "x \<in> set (hex_EncodeToString bs)"
    then obtain b :: "8 word" where "x = hex_digit (unat b div 16) \<or> x = hex_digit (unat b mod 16)"
      by (auto simp: hex_EncodeToString_def)
    then show "x \<in> set ''0123456789abcdef''"
      using hex_digit_in [OF unat_div_16, of b] hex_digit_in [of "unat b mod 16"] by (metis mod_less_divisor zero_less_numeral)
  qed
  then show "set (generateInviteCode src) \<subseteq> set ''0123456789abcdef''" using assms by (simp add: generateInviteCode_def)
qed

definition member_of :: "tables \<Rightarrow> string \<Rightarrow> string \<Rightarrow> bool" where
  "member_of d g u \<longleftrightarrow> (\<exists>m \<in> set (t_members d). gm_GuildID m = g \<and> gm_UserID m = u)"

text \<open>When a user may join the guild of an invite code, and what each refusal says about the tables.\<close>

definition may_join :: "tables \<Rightarrow> string \<Rightarrow> string \<Rightarrow> guild \<Rightarrow> bool" where
  "may_join d u code g \<longleftrightarrow> (\<exists>v \<in> set (t_users d). u_ID v = u) \<and> g \<in> set (t_guilds d) \<and> g_InviteCode g = code \<and>
     \<not> member_of d (g_ID g) u"

definition join_refused :: "tables \<Rightarrow> string \<Rightarrow> string \<Rightarrow> go_error \<Rightarrow> bool" where
  "join_refused d u code e \<longleftrightarrow>
     (e = user_not_found \<longrightarrow> (\<forall>v \<in> set (t_users d). u_ID v \<noteq> u)) \<and>
     (e = ErrInvalidInviteCode \<longrightarrow> (\<forall>g \<in> set (t_guilds d). g_InviteCode g \<noteq> code)) \<and>
     (e = ErrAlreadyMember \<longrightarrow> (\<exists>g \<in> set (t_guilds d). g_InviteCode g = code \<and> member_of d (g_ID g) u))"

definition may_create :: "tables \<Rightarrow> int \<Rightarrow> (nat \<Rightarrow> draw) \<Rightarrow> string \<Rightarrow> string \<Rightarrow> string \<Rightarrow> guild \<Rightarrow> bool" where
  "may_create d t src uuid u name g \<longleftrightarrow> (\<exists>v \<in> set (t_users d). u_ID v = u) \<and>
     (\<exists>j < maxAttempts. g = fill_guild t (new_guild uuid name u (generateInviteCode (src j)))) \<and>
     (\<forall>h \<in> set (t_guilds d). g_ID h \<noteq> uuid \<and> g_InviteCode h \<noteq> g_InviteCode g)"

definition new_member :: "int \<Rightarrow> string \<Rightarrow> string \<Rightarrow> string \<Rightarrow> guild_member" where
  "new_member t uuid g u = \<lparr>gm_ID = generateID uuid, gm_GuildID = g, gm_UserID = u, gm_JoinedAt = t\<rparr>"

text \<open>The effect of a new membership row.\<close>

definition joined :: "tables \<Rightarrow> int \<Rightarrow> string \<Rightarrow> string \<Rightarrow> string \<Rightarrow> tables \<Rightarrow> bool" where
  "joined d t uuid g u d' \<longleftrightarrow> (\<forall>k \<in> set (t_members d). gm_ID k \<noteq> generateID uuid) \<and>
     d' = d\<lparr>t_members := t_members d @ [new_member t uuid g u]\<rparr>"

definition add_guild :: "tables \<Rightarrow> guild \<Rightarrow> tables" where
  "add_guild d g = d\<lparr>t_guilds := t_guilds d @ [g]\<rparr>"

context sql_database
begin

lemma generateUniqueInviteCode_loop_spec:
  assumes "generateUniqueInviteCode_loop db t src i d = (res, d')"
  shows "view d' = view d \<and> (\<forall>code. res = Inr code \<longrightarrow>
    (\<exists>j < maxAttempts. code = generateInviteCode (src j)) \<and> (\<forall>g \<in> set (t_guilds (view d)). g_InviteCode g \<noteq> code))"
  using assms
proof (induction "maxAttempts - i" arbitrary: i d rule: less_induct)
  case less
  obtain r d1 where f: "FindByInviteCode db t (generateInviteCode (src i)) d = (r, d1)" by fastforce
  note found = FindByInviteCode_guild [OF f]
  show ?case
  proof (cases "i < maxAttempts \<and> (\<exists>g. r = Inr g)")
    case True
    then have "generateUniqueInviteCode_loop db t src (i + 1) d1 = (res, d')"
      using less.prems f by (auto simp: generateUniqueInviteCode_loop.simps [of db t src i d])
    moreover have "maxAttempts - (i + 1) < maxAttempts - i" using True by auto
    ultimately show ?thesis using less.hyps [of "i + 1" d1] found(1) by simp
  next
    case False
    with less.prems f found show ?thesis
      by (cases r) (auto simp: generateUniqueInviteCode_loop.simps [of db t src i d] Let_def split: if_splits)
  qed
qed

section \<open>Membership\<close>

lemma IsMember_set:
  assumes "IsMember db t u g d = (res, d')"
  shows "view d' = view d"
    and "res = Inr b \<Longrightarrow> b \<longleftrightarrow> member_of (view d) g u \<and> (\<exists>h \<in> set (t_guilds (view d)). g_ID h = g)"
    and "\<not> (\<exists>m. res = Inl (Err m))"
proof -
  obtain r d1 where f: "GetMemberGuilds db t u d = (r, d1)" by fastforce
  note gs = GetMemberGuilds_set [OF f]
  show "view d' = view d" "\<not> (\<exists>m. res = Inl (Err m))"
    using assms f gs(1) by (cases r; auto simp: IsMember_def)+
  assume "res = Inr b"
  then show "b \<longleftrightarrow> member_of (view d) g u \<and> (\<exists>h \<in> set (t_guilds (view d)). g_ID h = g)"
    using assms f gs(2) by (cases r) (auto simp: IsMember_def list_ex_iff member_of_def)
qed

lemma AddMember_ok:
  assumes "AddMember db t uuid g u d = (Inr x, d')"
  shows "joined (view d) t uuid g u (view d')"
proof -
  obtain rs where "db t (InsertMember \<lparr>gm_ID = generateID uuid, gm_GuildID = g, gm_UserID = u, gm_JoinedAt = 0\<rparr>) d = (Inr rs, d')"
    using assms by (auto simp: AddMember_def query_def split: prod.splits sum.splits)
  from db_ok [OF this] show ?thesis by (auto simp: joined_def new_member_def split: if_splits)
qed

lemma AddMember_err:
  assumes "AddMember db t uuid g u d = (Inl e, d')"
  shows "view d' = view d \<or> joined (view d) t uuid g u (view d')"
proof -
  have "db t (InsertMember \<lparr>gm_ID = generateID uuid, gm_GuildID = g, gm_UserID = u, gm_JoinedAt = 0\<rparr>) d = (Inl e, d')"
    using assms by (auto simp: AddMember_def query_def split: prod.splits sum.splits)
  from db_err [OF this] show ?thesis by (auto simp: joined_def new_member_def split: if_splits)
qed

lemma guild_Create_err:
  assumes "guild_Create db t g d = (Inl e, d')"
  shows "view d' = view d \<or> view d' = (view d)\<lparr>t_guilds := t_guilds (view d) @ [fill_guild t g]\<rparr> \<and>
    (\<forall>h \<in> set (t_guilds (view d)). \<not> guild_conflict g h)"
proof -
  obtain r where db: "db t (InsertGuild g) d = (r, d')"
    using assms by (auto simp: guild_Create_def query_first_def split: prod.splits sum.splits list.splits)
  show ?thesis
  proof (cases r)
    case (Inl e')
    then show ?thesis using db_err [OF db [unfolded Inl]] by (auto split: if_splits)
  next
    case (Inr rs)
    then show ?thesis using db_ok [OF db [unfolded Inr]] by (auto split: if_splits)
  qed
qed

lemma join_check_spec:
  assumes "join_check db t u code d = (res, d')"
  shows "view d' = view d \<and>
    (case res of Inr (g, v) \<Rightarrow> u_ID v = u \<and> may_join (view d) u code g | Inl e \<Rightarrow> join_refused (view d) u code e)"
proof -
  obtain r1 d1 where f1: "user_FindByID db t u d = (r1, d1)" by fastforce
  obtain r2 d2 where f2: "FindByInviteCode db t code d1 = (r2, d2)" by fastforce
  note u1 = FindByID_user [OF f1] and g2 = FindByInviteCode_guild [OF f2, unfolded u1(1)]
  note defs = join_check_def join_refused_def may_join_def user_not_found_def ErrInvalidInviteCode_def ErrAlreadyMember_def
  show ?thesis
  proof (cases r1)
    case (Inl e)
    then show ?thesis using assms f1 u1(1,3) by (auto simp: defs split: if_splits)
  next
    case (Inr v)
    note v = this u1(2) [OF this]
    show ?thesis
    proof (cases r2)
      case (Inl e)
      then show ?thesis using assms f1 f2 v g2(1,3) by (auto simp: defs split: if_splits)
    next
      case (Inr g)
      note g = this g2(2) [OF this]
      obtain r3 d3 where f3: "IsMember db t (u_ID v) (g_ID g) d2 = (r3, d3)" by fastforce
      note m = IsMember_set [OF f3, unfolded g2(1)]
      show ?thesis using assms f1 f2 f3 v g m
        by (cases r3) (auto simp: defs split: if_splits)
    qed
  qed
qed

lemma JoinGuild_cases:
  assumes "JoinGuild db t uuidm u code d = (res, d')"
  shows "case res of
      Inr _ \<Rightarrow> \<exists>g. may_join (view d) u code g \<and> joined (view d) t uuidm (g_ID g) u (view d')
    | Inl e \<Rightarrow> join_refused (view d) u code e \<and>
        (view d' = view d \<or> e \<notin> {user_not_found, ErrInvalidInviteCode, ErrAlreadyMember} \<and>
          (\<exists>g. may_join (view d) u code g \<and> joined (view d) t uuidm (g_ID g) u (view d')))"
proof -
  obtain r d3 where c: "join_check db t u code d = (r, d3)" by fastforce
  note chk = join_check_spec [OF c]
  show ?thesis
  proof (cases r)
    case (Inl e)
    then show ?thesis using assms c chk by (auto simp: JoinGuild_def)
  next
    case (Inr gv)
    then obtain g v where gv: "r = Inr (g, v)" by (cases gv) auto
    obtain r4 d4 where a: "AddMember db t uuidm (g_ID g) (u_ID v) d3 = (r4, d4)" by fastforce
    show ?thesis
    proof (cases r4)
      case (Inl e)
      then show ?thesis using assms c chk gv a AddMember_err [OF a [unfolded Inl]]
        by (auto simp: JoinGuild_def join_refused_def user_not_found_def ErrInvalidInviteCode_def ErrAlreadyMember_def)
    next
      case (Inr x)
      then show ?thesis using assms c chk gv a AddMember_ok [OF a [unfolded Inr]] by (auto simp: JoinGuild_def)
    qed
  qed
qed

lemma guild_with_owner:
  assumes "guild_Create db t g0 d = (Inr g, d1)" and "AddMember db t uuidm (g_ID g) u d1 = (r, d2)"
  shows "(isl r \<and> view d2 = add_guild (view d) g) \<or> joined (add_guild (view d) g) t uuidm (g_ID g) u (view d2)"
  using guild_Create_ok [OF assms(1)] AddMember_err [of t uuidm "g_ID g" u d1 _ d2] AddMember_ok [of t uuidm "g_ID g" u d1 _ d2] assms(2)
  by (cases r) (auto simp: add_guild_def)

lemma CreateGuild_cases:
  assumes "CreateGuild db t src uuid uuidm u name d = (res, d')"
  shows "case res of
      Inr g \<Rightarrow> may_create (view d) t src uuid u name g \<and> joined (add_guild (view d) g) t uuidm uuid u (view d')
    | Inl e \<Rightarrow> (e = user_not_found \<longrightarrow> view d' = view d \<and> (\<forall>v \<in> set (t_users (view d)). u_ID v \<noteq> u)) \<and>
        (view d' = view d \<or> (\<exists>g. may_create (view d) t src uuid u name g \<and>
          (view d' = add_guild (view d) g \<or> joined (add_guild (view d) g) t uuidm uuid u (view d'))))"
proof -
  obtain r1 d1 where f1: "user_FindByID db t u d = (r1, d1)" by fastforce
  obtain r2 d2 where f2: "generateUniqueInviteCode db t src d1 = (r2, d2)" by fastforce
  note u1 = FindByID_user [OF f1]
    and c2 = generateUniqueInviteCode_loop_spec [OF f2 [unfolded generateUniqueInviteCode_def], unfolded u1(1)]
  consider e where "r1 = Inl e" | v e where "r1 = Inr v" "r2 = Inl e" | v code where "r1 = Inr v" "r2 = Inr code"
    by (cases r1; cases r2) auto
  then show ?thesis
  proof cases
    case 1
    then show ?thesis using assms f1 u1(1,3) by (auto simp: CreateGuild_def user_not_found_def split: if_splits)
  next
    case 2
    then show ?thesis using assms f1 f2 u1(1) c2 by (auto simp: CreateGuild_def user_not_found_def)
  next
    case (3 v code)
    let ?g = "new_guild uuid name (u_ID v) code"
    have v: "v \<in> set (t_users (view d))" "u_ID v = u" using u1(2) 3 by auto
    have may: "may_create (view d) t src uuid u name (fill_guild t ?g)"
      if "\<forall>h \<in> set (t_guilds (view d)). \<not> guild_conflict ?g h"
      using that v c2 3 by (auto simp: may_create_def guild_conflict_def new_guild_def)
    obtain r3 d3 where f3: "guild_Create db t ?g d2 = (r3, d3)" by fastforce
    show ?thesis
    proof (cases r3)
      case (Inl e)
      then have "res = Inl (Wrap ''failed to create guild'' e)" "d' = d3"
        using assms f1 f2 f3 3 by (auto simp: CreateGuild_def)
      with guild_Create_err [OF f3 [unfolded Inl]] may c2 show ?thesis
        by (auto simp: user_not_found_def add_guild_def)
    next
      case (Inr g)
      note created = guild_Create_ok [OF f3 [unfolded Inr]]
      have g: "g = fill_guild t ?g" "may_create (view d) t src uuid u name g"
        using created(1,3) may c2 by auto
      obtain r4 d4 where f4: "AddMember db t uuidm (g_ID g) u d3 = (r4, d4)" by fastforce
      have owner: "(isl r4 \<and> view d4 = add_guild (view d) g) \<or> joined (add_guild (view d) g) t uuidm uuid u (view d4)"
        using guild_with_owner [OF f3 [unfolded Inr] f4] g(1) c2 by (simp add: new_guild_def)
      show ?thesis
      proof (cases r4)
        case (Inl e)
        then have "res = Inl (Wrap ''failed to add creator as member'' e)" "d' = d4"
          using assms f1 f2 f3 f4 3 Inr by (auto simp: CreateGuild_def)
        with owner g(2) show ?thesis by (auto simp: user_not_found_def)
      next
        case Inr4: (Inr x)
        then have "res = Inr g" "d' = d4" using assms f1 f2 f3 f4 3 Inr by (auto simp: CreateGuild_def)
        with owner g(2) Inr4 show ?thesis by simp
      qed
    qed
  qed
qed

end

section \<open>The membership invariant\<close>

text \<open>Every membership refers to a user and a guild, no user has two memberships in a guild, and the owner of
  a guild is a user.  The database enforces only the keys of \<open>db_integrity\<close>; the rest is up to the services.\<close>

definition membership_inv :: "tables \<Rightarrow> bool" where
  "membership_inv d \<longleftrightarrow> db_integrity d \<and>
     distinct (map (\<lambda>m. (gm_GuildID m, gm_UserID m)) (t_members d)) \<and>
     (\<forall>m \<in> set (t_members d). gm_GuildID m \<in> g_ID ` set (t_guilds d) \<and> gm_UserID m \<in> u_ID ` set (t_users d)) \<and>
     (\<forall>g \<in> set (t_guilds d). g_OwnerID g \<in> u_ID ` set (t_users d))"

lemma new_member_simps [simp]:
  "gm_ID (new_member t uuid g u) = generateID uuid" "gm_GuildID (new_member t uuid g u) = g"
  "gm_UserID (new_member t uuid g u) = u"
  by (simp_all add: new_member_def)

lemma membership_inv_joined:
  assumes "membership_inv d" and "joined d t uuidm (g_ID g) u d'" and "g \<in> set (t_guilds d)"
    and "\<exists>v \<in> set (t_users d). u_ID v = u" and "\<not> member_of d (g_ID g) u"
  shows "membership_inv d'"
  using assms by (auto simp: membership_inv_def joined_def db_integrity_def member_of_def)

lemma membership_inv_add_guild:
  assumes "membership_inv d" and "may_create d t src uuid u name g"
  shows "membership_inv (add_guild d g)" and "\<not> member_of (add_guild d g) uuid u"
    and "g \<in> set (t_guilds (add_guild d g))" and "g_ID g = uuid"
    and "\<exists>v \<in> set (t_users (add_guild d g)). u_ID v = u"
  using assms by (fastforce simp: membership_inv_def may_create_def db_integrity_def member_of_def add_guild_def new_guild_def)+

lemma membership_inv_add_user:
  assumes "membership_inv d" and "db_integrity (d\<lparr>t_users := t_users d @ [u]\<rparr>)"
  shows "membership_inv (d\<lparr>t_users := t_users d @ [u]\<rparr>)"
  using assms by (auto simp: membership_inv_def)

context sql_database
begin

lemma JoinGuild_inv:
  assumes "membership_inv (view d)" and "JoinGuild db t uuidm u code d = (res, d')"
  shows "membership_inv (view d')"
proof -
  have "view d' = view d \<or> (\<exists>g. may_join (view d) u code g \<and> joined (view d) t uuidm (g_ID g) u (view d'))"
    using JoinGuild_cases [OF assms(2)] by (cases res) auto
  then show ?thesis using assms(1) membership_inv_joined [OF assms(1)] unfolding may_join_def by metis
qed

lemma CreateGuild_inv:
  assumes "membership_inv (view d)" and "CreateGuild db t src uuid uuidm u name d = (res, d')"
  shows "membership_inv (view d')"
proof -
  have "view d' = view d \<or> (\<exists>g. may_create (view d) t src uuid u name g \<and>
      (view d' = add_guild (view d) g \<or> joined (add_guild (view d) g) t uuidm uuid u (view d')))"
    using CreateGuild_cases [OF assms(2)] by (cases res) auto
  then show ?thesis
  proof (elim disjE exE conjE)
    fix g assume may: "may_create (view d) t src uuid u name g"
    note g = membership_inv_add_guild [OF assms(1) may]
    { assume "view d' = add_guild (view d) g" then show ?thesis using g(1) by simp }
    assume "joined (add_guild (view d) g) t uuidm uuid u (view d')"
    then show ?thesis using membership_inv_joined [OF g(1)] g by blast
  qed (use assms(1) in simp)
qed

lemma Register_inv:
  assumes "membership_inv (view d)" and "Register db gen t uuid req d = (res, d')"
  shows "membership_inv (view d')"
proof -
  have int: "db_integrity (view d')" using assms Register_integrity by (auto simp: membership_inv_def)
  have "view d' = view d \<or> (\<exists>u. view d' = (view d)\<lparr>t_users := t_users (view d) @ [u]\<rparr>)"
    by (rule Register_effect [OF assms(2)])
  then show ?thesis using assms(1) int membership_inv_add_user by auto
qed

lemma repo_IsMember_count:
  assumes "repo_IsMember db t g u d = (Inr b, d')"
  shows "b \<longleftrightarrow> member_of (view d) g u"
proof -
  obtain rs where db: "db t (CountMember g u) d = (Inr rs, d')" and b: "b = (0 < count_row rs)"
    using assms by (auto simp: repo_IsMember_def query_def split: prod.splits sum.splits)
  from select_ok(2) [OF db sql_step.simps(13)]
  have "rs = CountRow (int (length (filter (\<lambda>m. gm_GuildID m = g \<and> gm_UserID m = u) (t_members (view d)))))"
    by (cases rs) auto
  then show ?thesis using b by (auto simp: member_of_def filter_empty_conv length_greater_0_conv [symmetric] simp del: length_greater_0_conv)
qed

end

text \<open>Requests that are served one after the other, each with any arguments and any outcome.\<close>

inductive served :: "'d database \<Rightarrow> bcrypt_gen \<Rightarrow> 'd \<Rightarrow> 'd \<Rightarrow> bool" for db gen where
  served_none: "served db gen d d"
| served_Register: "served db gen d d1 \<Longrightarrow> Register db gen t uuid req d1 = (res, d2) \<Longrightarrow> served db gen d d2"
| served_CreateGuild: "served db gen d d1 \<Longrightarrow> CreateGuild db t src uuid uuidm u name d1 = (res, d2) \<Longrightarrow> served db gen d d2"
| served_JoinGuild: "served db gen d d1 \<Longrightarrow> JoinGuild db t uuidm u code d1 = (res, d2) \<Longrightarrow> served db gen d d2"

section \<open>Properties\<close>

text \<open>C35. \<^verbatim>\<open>JoinGuild\<close> on every branch.  Success means that the user exists, the invite code is the
  code of a guild the user was not a member of, and that exactly one membership row was added.  Each of the
  three refusals is right about the tables and changes nothing; any other error leaves the tables as they were or, when
  the connection broke after the commit, with the complete membership of a user who was allowed to join.\<close>

theorem JoinGuild_spec:
  assumes "sql_database db view" and "JoinGuild db t uuidm u code d = (res, d')"
  shows "case res of
      Inr _ \<Rightarrow> \<exists>g. may_join (view d) u code g \<and> joined (view d) t uuidm (g_ID g) u (view d') \<and>
        member_of (view d') (g_ID g) u
    | Inl e \<Rightarrow> join_refused (view d) u code e \<and>
        (view d' = view d \<or> e \<notin> {user_not_found, ErrInvalidInviteCode, ErrAlreadyMember} \<and>
          (\<exists>g. may_join (view d) u code g \<and> joined (view d) t uuidm (g_ID g) u (view d')))"
proof -
  have "member_of (view d') g u" if "joined (view d) t uuidm g u (view d')" for g
    using that by (simp add: joined_def member_of_def)
  then show ?thesis using sql_database.JoinGuild_cases [OF assms] by (cases res) auto
qed

definition demo_guild :: guild where
  "demo_guild = fill_guild 6 (new_guild ''g-1'' ''lobby'' ''id-1'' ''0a0b0c0d'')"

definition demo_user2 :: user where
  "demo_user2 = demo_account\<lparr>u_ID := ''id-2'', u_UserName := ''bob'', u_Email := ''b@x''\<rparr>"

definition demo_tables :: tables where
  "demo_tables = \<lparr>t_users = [demo_account, demo_user2], t_guilds = [demo_guild],
     t_members = [new_member 6 ''m-1'' ''g-1'' ''id-1''], t_messages = []\<rparr>"

lemma demo_ids [simp]:
  "u_ID demo_account = ''id-1''" "u_ID demo_user2 = ''id-2''" "g_ID demo_guild = ''g-1''"
  "g_InviteCode demo_guild = ''0a0b0c0d''" "g_OwnerID demo_guild = ''id-1''"
  "u_UserName demo_account = ''ann''" "u_UserName demo_user2 = ''bob''" "u_Email demo_account = ''a@x''"
  "u_Email demo_user2 = ''b@x''"
  by (simp_all add: demo_account_def demo_user2_def demo_guild_def new_guild_def demo_request_def)

lemma demo_membership_inv: "membership_inv demo_tables"
  by (simp add: membership_inv_def db_integrity_def demo_tables_def)

lemma demo_join_check:
  "join_check sql_step t ''id-2'' ''0a0b0c0d'' demo_tables = (Inr (demo_guild, demo_user2), demo_tables)"
  by (simp add: join_check_def IsMember_def user_FindByID_def FindByInviteCode_def GetMemberGuilds_def query_first_def
      query_def demo_tables_def)

lemma demo_AddMember:
  "\<forall>k \<in> set (t_members d). gm_ID k \<noteq> generateID uuid \<Longrightarrow>
   AddMember sql_step t uuid g u d = (Inr (), d\<lparr>t_members := t_members d @ [new_member t uuid g u]\<rparr>)"
  by (auto simp: AddMember_def query_def new_member_def)

lemma demo_JoinGuild:
  "JoinGuild sql_step 7 ''m-2'' ''id-2'' ''0a0b0c0d'' demo_tables =
     (Inr (), demo_tables\<lparr>t_members := t_members demo_tables @ [new_member 7 ''m-2'' ''g-1'' ''id-2'']\<rparr>)"
  by (simp add: JoinGuild_def demo_join_check demo_AddMember) (simp add: demo_tables_def demo_AddMember generateID_def)

theorem JoinGuild_spec_witness:
  "\<exists>g. may_join demo_tables ''id-2'' ''0a0b0c0d'' g \<and> member_of
     (demo_tables\<lparr>t_members := t_members demo_tables @ [new_member 7 ''m-2'' ''g-1'' ''id-2'']\<rparr>) (g_ID g) ''id-2''"
  using JoinGuild_spec [OF ref_db.sql_database_axioms demo_JoinGuild] by auto

text \<open>C36. \<^verbatim>\<open>CreateGuild\<close> on every branch.  Success means that the user exists, that the new guild has the name, the
  user as owner and one of the at most ten codes drawn, which no guild had, and that exactly the guild
  and the owner's membership were added.  ``user not found'' is right and changes nothing.  Every other error leaves the
  tables as they were, or with the new guild, with or without the owner's membership: the two inserts are not
  one transaction.\<close>

theorem CreateGuild_spec:
  assumes "sql_database db view" and "CreateGuild db t src uuid uuidm u name d = (res, d')"
  shows "case res of
      Inr g \<Rightarrow> may_create (view d) t src uuid u name g \<and> joined (add_guild (view d) g) t uuidm uuid u (view d') \<and>
        g_OwnerID g = u \<and> g_Name g = name \<and> member_of (view d') (g_ID g) u
    | Inl e \<Rightarrow> (e = user_not_found \<longrightarrow> view d' = view d \<and> (\<forall>v \<in> set (t_users (view d)). u_ID v \<noteq> u)) \<and>
        (view d' = view d \<or> (\<exists>g. may_create (view d) t src uuid u name g \<and>
          (view d' = add_guild (view d) g \<or> joined (add_guild (view d) g) t uuidm uuid u (view d'))))"
proof -
  have "g_OwnerID g = u \<and> g_Name g = name \<and> g_ID g = uuid" if "may_create (view d) t src uuid u name g" for g
    using that by (auto simp: may_create_def new_guild_def)
  moreover have "member_of (view d') uuid u" if "joined d0 t uuidm uuid u (view d')" for d0
    using that by (simp add: joined_def member_of_def)
  ultimately show ?thesis using sql_database.CreateGuild_cases [OF assms] by (cases res) auto
qed

definition demo_src :: "nat \<Rightarrow> draw" where
  "demo_src i = (Some (replicate 4 (word_of_nat (10 + i))), [])"

definition demo_users :: tables where
  "demo_users = \<lparr>t_users = [demo_account], t_guilds = [], t_members = [], t_messages = []\<rparr>"

definition demo_created :: guild where
  "demo_created = fill_guild 6 (new_guild ''g-1'' ''lobby'' ''id-1'' ''0a0a0a0a'')"

lemma demo_hex: "replicate 4 x = [x, x, x, x]" "hex_digit 0 = CHR ''0''" "hex_digit 10 = CHR ''a''"
  by (simp_all add: numeral_eq_Suc hex_digit_def)

lemma demo_CreateGuild:
  "CreateGuild sql_step 6 demo_src ''g-1'' ''m-1'' ''id-1'' ''lobby'' demo_users =
     (Inr demo_created, demo_users\<lparr>t_guilds := [demo_created], t_members := [new_member 6 ''m-1'' ''g-1'' ''id-1'']\<rparr>)"
proof -
  have code: "generateInviteCode (demo_src 0) = ''0a0a0a0a''"
    by (simp add: generateInviteCode_def demo_src_def hex_EncodeToString_def demo_hex)
  have "generateUniqueInviteCode sql_step 6 demo_src demo_users = (Inr ''0a0a0a0a'', demo_users)"
    by (simp add: generateUniqueInviteCode_def generateUniqueInviteCode_loop.simps [of _ _ _ 0] code maxAttempts_def Let_def
        FindByInviteCode_def query_first_def demo_users_def ErrRecordNotFound_def)
  then show ?thesis
    by (simp add: CreateGuild_def user_FindByID_def query_first_def guild_Create_def demo_users_def demo_created_def
        demo_AddMember) (simp add: new_guild_def)
qed

theorem CreateGuild_spec_witness:
  "may_create demo_users 6 demo_src ''g-1'' ''id-1'' ''lobby'' demo_created \<and> member_of
     (demo_users\<lparr>t_guilds := [demo_created], t_members := [new_member 6 ''m-1'' ''g-1'' ''id-1'']\<rparr>) (g_ID demo_created) ''id-1''"
  using CreateGuild_spec [OF ref_db.sql_database_axioms demo_CreateGuild] by simp

text \<open>C12. Served one after the other, requests to register, create guilds and join guilds, whatever their arguments and
  however they fail, keep the membership invariant: memberships refer to users and guilds, nobody is
  twice a member of a guild, keys are unique.\<close>

theorem served_membership_inv:
  assumes "sql_database db view" and "served db gen d d'" and "membership_inv (view d)"
  shows "membership_inv (view d')"
  using assms(2,3)
  by (induction rule: served.induct)
    (blast intro: sql_database.Register_inv [OF assms(1)] sql_database.CreateGuild_inv [OF assms(1)]
      sql_database.JoinGuild_inv [OF assms(1)])+

theorem served_membership_inv_witness:
  "membership_inv (demo_tables\<lparr>t_members := t_members demo_tables @ [new_member 7 ''m-2'' ''g-1'' ''id-2'']\<rparr>)"
  using served_membership_inv [OF ref_db.sql_database_axioms
      served_JoinGuild [OF served_none demo_JoinGuild, of demo_bcrypt_gen]] demo_membership_inv by simp

text \<open>Two requests of the same user whose checks both run before the inserts both succeed: the pair of columns has
  no unique index.\<close>

lemma JoinGuild_race:
  "join_check sql_step 7 ''id-2'' ''0a0b0c0d'' demo_tables = (Inr (demo_guild, demo_user2), demo_tables)"
  "\<not> membership_inv (snd (AddMember sql_step 8 ''m-3'' ''g-1'' ''id-2''
      (snd (AddMember sql_step 7 ''m-2'' ''g-1'' ''id-2'' demo_tables))))"
proof -
  show "join_check sql_step 7 ''id-2'' ''0a0b0c0d'' demo_tables = (Inr (demo_guild, demo_user2), demo_tables)"
    by (rule demo_join_check)
  show "\<not> membership_inv (snd (AddMember sql_step 8 ''m-3'' ''g-1'' ''id-2''
      (snd (AddMember sql_step 7 ''m-2'' ''g-1'' ''id-2'' demo_tables))))"
    by (simp add: demo_AddMember generateID_def demo_tables_def membership_inv_def)
qed

text \<open>C39. The service's membership check, which lists the guilds of the user by a join and searches them, agrees
  with the repository's count of membership rows, on tables that satisfy the invariant; both report
  exactly the memberships.\<close>

theorem IsMember_equivalence:
  assumes "sql_database db view" and "membership_inv (view d)"
    and "IsMember db t u g d = (Inr b, d1)" and "repo_IsMember db t' g u d1 = (Inr b', d2)"
  shows "b = b' \<and> b = member_of (view d) g u"
  using sql_database.IsMember_set [OF assms(1,3)] sql_database.repo_IsMember_count [OF assms(1,4)] assms(2)
  by (auto simp: membership_inv_def member_of_def image_iff)

theorem IsMember_equivalence_witness:
  "member_of demo_tables ''g-1'' ''id-1'' \<and> \<not> member_of demo_tables ''g-1'' ''id-2''"
proof -
  have s: "IsMember sql_step 0 u ''g-1'' demo_tables = (Inr (u = ''id-1''), demo_tables)" for u
    by (cases "u = ''id-1''") (simp_all add: IsMember_def GetMemberGuilds_def query_def demo_tables_def)
  have r: "repo_IsMember sql_step 0 ''g-1'' u demo_tables = (Inr (u = ''id-1''), demo_tables)" for u
    by (cases "u = ''id-1''") (simp_all add: repo_IsMember_def query_def demo_tables_def)
  show ?thesis
    using IsMember_equivalence [OF ref_db.sql_database_axioms, unfolded id_apply, OF demo_membership_inv s [of "''id-1''"] r]
      IsMember_equivalence [OF ref_db.sql_database_axioms, unfolded id_apply, OF demo_membership_inv s [of "''id-2''"] r]
    by simp
qed

end
