(* ===== verification/MessageService.thy ===== *)
theory MessageService
  imports GuildService Snowflake Redis Proto
begin

text \<open>
  The message service of \<^verbatim>\<open>internal/service/message.go\<close>.  Its world is the database, the Redis server and the
  snowflake generator with the readings of its clock.  \<^verbatim>\<open>SendMessage\<close> starts two goroutines, one on the
  database and one on Redis, and waits for both: they share no state but the message, which both only
  read (its \<^verbatim>\<open>CreatedAt\<close> is set before), so one order of the two stands for all.  The result is an option
  because \<^verbatim>\<open>NextID\<close> may wait for the clock.
\<close>

section \<open>Operations\<close>

definition ErrMessageNotFound :: go_error where "ErrMessageNotFound = Err ''message not found''"
definition ErrInvalidMessageContent :: go_error where "ErrInvalidMessageContent = Err ''invalid message content''"
definition ErrUserNotInGuild :: go_error where "ErrUserNotInGuild = Err ''user is not a member of this guild''"

record send_message_request =
  sm_UserID :: string
  sm_GuildID :: string
  sm_Content :: string

record get_messages_request =
  gq_GuildID :: string
  gq_LastSeqID :: int
  gq_Limit :: int

record message_with_user =
  mu_Message :: message
  mu_Username :: string

record ('d, 's) msg_world =
  mw_db :: 'd
  mw_redis :: 's
  mw_gen :: generator
  mw_tick :: nat

definition guild_channel :: "string \<Rightarrow> string" where
  "guild_channel guildID = ''guild:'' @ guildID"

definition pb_message :: "message \<Rightarrow> int \<Rightarrow> string \<Rightarrow> ws_message" where
  "pb_message m stamp username =
     \<lparr>w_MessageId = m_ID m, w_UserId = m_UserID m, w_GuildId = m_GuildID m, w_Content = m_Content m, w_SeqId = m_SeqID m,
      w_Timestamp = stamp, w_Type = MessageType_TEXT, w_Username = username\<rparr>"

definition publishMessage :: "'s redis \<Rightarrow> ws_marshal \<Rightarrow> int \<Rightarrow> int \<Rightarrow> message \<Rightarrow> string \<Rightarrow> 's \<Rightarrow> go_error option \<times> 's" where
  "publishMessage exec marshal t stamp message username s =
     (case marshal (pb_message message stamp username) of
        Inl e \<Rightarrow> (Some (Wrap ''failed to marshal message'' e), s)
      | Inr data \<Rightarrow>
          (let channel = guild_channel (m_GuildID message)
           in case Publish exec t channel data s of
                (Some e, s') \<Rightarrow> (Some (Wrap (''failed to publish to channel '' @ channel) e), s')
              | (None, s') \<Rightarrow> (None, s')))"

text \<open>From the fetched username on: the parallel writes.\<close>

definition store_and_publish :: "'d database \<Rightarrow> 's redis \<Rightarrow> ws_marshal \<Rightarrow> int \<Rightarrow> int \<Rightarrow> message \<Rightarrow>
    ('d, 's) msg_world \<Rightarrow> message result \<times> ('d, 's) msg_world" where
  "store_and_publish db exec marshal t stamp message w =
     (let (user, d1) = user_FindByID db t (m_UserID message) (mw_db w);
          username = (case user of Inl e \<Rightarrow> ''Unknown'' | Inr u \<Rightarrow> u_UserName u);
          (dbErr, d2) = message_Create db t message d1;
          (pubsubErr, s1) = publishMessage exec marshal t stamp message username (mw_redis w);
          w' = w\<lparr>mw_db := d2, mw_redis := s1\<rparr>
      in case dbErr of
           Inl e \<Rightarrow> (Inl (Wrap ''failed to save message to database'' e), w')
         | Inr stored \<Rightarrow> (Inr stored, w'))"

definition SendMessage :: "'d database \<Rightarrow> 's redis \<Rightarrow> ws_marshal \<Rightarrow> (nat \<Rightarrow> int) \<Rightarrow> int \<Rightarrow> int \<Rightarrow> int \<Rightarrow> string \<Rightarrow> string \<Rightarrow> string \<Rightarrow>
    ('d, 's) msg_world \<Rightarrow> (message result \<times> ('d, 's) msg_world) option" where
  "SendMessage db exec marshal clock t created stamp userID guildID content w =
     (if length content = 0 then Some (Inl ErrInvalidMessageContent, w)
      else if length content > 2000 then Some (Inl ErrInvalidMessageContent, w)
      else case IsMember db t userID guildID (mw_db w) of
        (Inl e, d1) \<Rightarrow> Some (Inl (Wrap ''failed to check guild membership'' e), w\<lparr>mw_db := d1\<rparr>)
      | (Inr isMember, d1) \<Rightarrow>
          if \<not> isMember then Some (Inl ErrUserNotInGuild, w\<lparr>mw_db := d1\<rparr>)
          else
            (case NextID clock (mw_tick w) (mw_gen w) of
               None \<Rightarrow> None
             | Some (Inl e, g, k) \<Rightarrow>
                 Some (Inl (Wrap ''failed to generate snowflake ID'' (Err (sf_message e))), w\<lparr>mw_db := d1, mw_gen := g, mw_tick := k\<rparr>)
             | Some (Inr snowflakeID, g, k) \<Rightarrow>
                 (case GenerateSeqID exec t guildID (mw_redis w) of
                    (Inl e, s1) \<Rightarrow>
                      Some (Inl (Wrap ''failed to generate seq ID'' e), w\<lparr>mw_db := d1, mw_redis := s1, mw_gen := g, mw_tick := k\<rparr>)
                  | (Inr seqID, s1) \<Rightarrow>
                      Some (store_and_publish db exec marshal t stamp
                        \<lparr>m_ID = FormatInt snowflakeID, m_UserID = userID, m_GuildID = guildID, m_Content = content,
                         m_SeqID = seqID, m_CreatedAt = created\<rparr>
                        (w\<lparr>mw_db := d1, mw_redis := s1, mw_gen := g, mw_tick := k\<rparr>)))))"

definition page_limit :: "int \<Rightarrow> int" where
  "page_limit limit = (let limit = (if limit \<le> 0 then 50 else limit) in if limit > 100 then 100 else limit)"

definition GetMessages :: "'d database \<Rightarrow> int \<Rightarrow> string \<Rightarrow> int \<Rightarrow> int \<Rightarrow> 'd \<Rightarrow> (message list \<times> bool) result \<times> 'd" where
  "GetMessages db t guildID lastSeqID limit0 d =
     (let limit = page_limit limit0
      in case FindByGuild db t guildID lastSeqID (limit + 1) d of
           (Inl e, d1) \<Rightarrow> (Inl (Wrap ''failed to retrieve messages'' e), d1)
         | (Inr msgs, d1) \<Rightarrow>
             (let hasMore = (limit < int (length msgs))
              in (Inr (if hasMore then take (nat limit) msgs else msgs, hasMore), d1)))"

fun collect_users :: "message list \<Rightarrow> string list \<Rightarrow> string list" where
  "collect_users [] userIDs = userIDs"
| "collect_users (m # ms) userIDs =
     collect_users ms (if m_UserID m \<in> set userIDs then userIDs else userIDs @ [m_UserID m])"

definition with_username :: "(string \<times> user) list \<Rightarrow> message \<Rightarrow> message_with_user" where
  "with_username userMap m =
     \<lparr>mu_Message = m, mu_Username = (case map_of userMap (m_UserID m) of Some u \<Rightarrow> u_UserName u | None \<Rightarrow> ''Unknown'')\<rparr>"

definition GetMessagesWithUser :: "'d database \<Rightarrow> int \<Rightarrow> string \<Rightarrow> int \<Rightarrow> int \<Rightarrow> 'd \<Rightarrow> (message_with_user list \<times> bool) result \<times> 'd" where
  "GetMessagesWithUser db t guildID lastSeqID limit d =
     (case GetMessages db t guildID lastSeqID limit d of
        (Inl e, d1) \<Rightarrow> (Inl e, d1)
      | (Inr (msgs, hasMore), d1) \<Rightarrow>
          if msgs = [] then (Inr ([], False), d1)
          else
            (let (res, d2) = user_FindByIDs db t (collect_users msgs []) d1;
                 userMap = (case res of Inl e \<Rightarrow> [] | Inr m \<Rightarrow> m)
             in (Inr (map (with_username userMap) msgs, hasMore), d2)))"

fun batch_loop :: "'d database \<Rightarrow> int \<Rightarrow> string list \<Rightarrow> message list \<Rightarrow> 'd \<Rightarrow> message list \<times> 'd" where
  "batch_loop db t [] msgs d = (msgs, d)"
| "batch_loop db t (i # is) msgs d =
     (case message_FindByID db t i d of
        (Inl e, d1) \<Rightarrow> batch_loop db t is msgs d1
      | (Inr m, d1) \<Rightarrow> batch_loop db t is (msgs @ [m]) d1)"

definition BatchGetMessages :: "'d database \<Rightarrow> int \<Rightarrow> string list \<Rightarrow> 'd \<Rightarrow> message list result \<times> 'd" where
  "BatchGetMessages db t messageIDs d =
     (if messageIDs = [] then (Inr [], d)
      else let (msgs, d') = batch_loop db t messageIDs [] d in (Inr msgs, d'))"

section \<open>Sending\<close>

context sql_database
begin

lemma message_Create_ok:
  assumes "message_Create db t m d = (Inr m', d')"
  shows "m' = fill_message t m \<and> view d' = (view d)\<lparr>t_messages := t_messages (view d) @ [m']\<rparr> \<and>
    (\<forall>k \<in> set (t_messages (view d)). m_ID k \<noteq> m_ID m)"
proof -
  obtain rs where db: "db t (InsertMessage m) d = (Inr rs, d')" "message_rows rs \<noteq> []" "hd (message_rows rs) = m'"
    using assms by (auto simp: message_Create_def query_first_def split: prod.splits sum.splits list.splits)
  from db_ok [OF db(1)] show ?thesis
    using db(2,3) by (auto split: if_splits dest!: message_rows_agree)
qed

lemma message_Create_err:
  assumes "message_Create db t m d = (Inl e, d')"
  shows "view d' = view d \<or> view d' = (view d)\<lparr>t_messages := t_messages (view d) @ [fill_message t m]\<rparr> \<and>
    (\<forall>k \<in> set (t_messages (view d)). m_ID k \<noteq> m_ID m)"
proof -
  obtain r where db: "db t (InsertMessage m) d = (r, d')"
    using assms by (auto simp: message_Create_def query_first_def split: prod.splits sum.splits list.splits)
  show ?thesis
  proof (cases r)
    case (Inl e')
    then show ?thesis using db_err [OF db [unfolded Inl]] by (auto split: if_splits)
  next
    case (Inr rs)
    then show ?thesis using db_ok [OF db [unfolded Inr]] by (auto split: if_splits)
  qed
qed

end

text \<open>What a publication changes in Redis.\<close>

definition published :: "ws_marshal \<Rightarrow> int \<Rightarrow> message \<Rightarrow> string \<Rightarrow> rstate \<Rightarrow> rstate \<Rightarrow> bool" where
  "published marshal stamp m username r r' \<longleftrightarrow> (\<exists>data. marshal (pb_message m stamp username) = Inr data \<and>
     r' = r\<lparr>messages := messages r @ [(guild_channel (m_GuildID m), data)]\<rparr>)"

context redis_server
begin

lemma publishMessage_step:
  assumes "publishMessage exec marshal t stamp m username s = (res, s')"
  shows "(res = None \<longrightarrow> published marshal stamp m username (store s) (store s')) \<and>
    (store s' = store s \<or> published marshal stamp m username (store s) (store s'))"
proof (cases "marshal (pb_message m stamp username)")
  case (Inl e)
  then show ?thesis using assms by (auto simp: publishMessage_def)
next
  case (Inr data)
  show ?thesis
  proof (cases rule: exec_single_cases [of t "PUBLISH (guild_channel (m_GuildID m)) data" s])
    case (1 r s'')
    then show ?thesis using assms Inr by (auto simp: publishMessage_def Publish_def run_cmd_def published_def Let_def)
  next
    case (2 e s'')
    then show ?thesis using assms Inr by (auto simp: publishMessage_def Publish_def run_cmd_def published_def Let_def)
  qed
qed

end

section \<open>The invariant of the message log\<close>

text \<open>No two stored messages of a guild share a sequence number, and the guild's counter is at least every
  number stored.\<close>

definition message_inv :: "tables \<Rightarrow> rstate \<Rightarrow> bool" where
  "message_inv d r \<longleftrightarrow> seq_inv r \<and> (\<forall>m \<in> set (t_messages d). m_SeqID m \<le> seq_value r (m_GuildID m)) \<and>
     distinct (map (\<lambda>m. (m_GuildID m, m_SeqID m)) (t_messages d))"

lemma seq_inv_messages [simp]: "seq_inv (r\<lparr>messages := ms\<rparr>) = seq_inv r" "seq_value (r\<lparr>messages := ms\<rparr>) g = seq_value r g"
  by (simp_all add: seq_inv_def seq_value_def)

lemma message_inv_raise:
  assumes "message_inv d r" and "seq_inv r'" and "\<And>g. seq_value r g \<le> seq_value r' g"
  shows "message_inv d r'"
  using assms by (auto simp: message_inv_def intro: order_trans)

lemma message_inv_append:
  assumes "message_inv d r" and "seq_inv r'" and "\<And>g. seq_value r g \<le> seq_value r' g"
    and "seq_value r (m_GuildID m) < m_SeqID m" and "m_SeqID m = seq_value r' (m_GuildID m)"
  shows "message_inv (d\<lparr>t_messages := t_messages d @ [m]\<rparr>) r'"
  using assms message_inv_raise [OF assms(1-3)] by (force simp: message_inv_def)

text \<open>The state after the numbers are drawn, and the two writes.\<close>

definition log_append :: "tables \<Rightarrow> message \<Rightarrow> tables" where
  "log_append d m = d\<lparr>t_messages := t_messages d @ [m]\<rparr>"

locale message_store = sql_database db view + redis_server exec store
  for db :: "'d database" and view :: "'d \<Rightarrow> tables" and exec :: "'s redis" and store :: "'s \<Rightarrow> rstate"
begin

lemma store_and_publish_spec:
  assumes "store_and_publish db exec marshal t stamp m w = (res, w')"
  shows "mw_gen w' = mw_gen w \<and> mw_tick w' = mw_tick w \<and>
    (case res of
       Inr m' \<Rightarrow> m' = fill_message t m \<and> view (mw_db w') = log_append (view (mw_db w)) m'
     | Inl e \<Rightarrow> (\<exists>e'. e = Wrap ''failed to save message to database'' e') \<and>
         (view (mw_db w') = view (mw_db w) \<or> view (mw_db w') = log_append (view (mw_db w)) (fill_message t m))) \<and>
    (store (mw_redis w') = store (mw_redis w) \<or>
     (\<exists>username. published marshal stamp m username (store (mw_redis w)) (store (mw_redis w'))))"
proof -
  obtain user d1 where u: "user_FindByID db t (m_UserID m) (mw_db w) = (user, d1)" by fastforce
  obtain r d2 where c: "message_Create db t m d1 = (r, d2)" by fastforce
  define username where "username = (case user of Inl e \<Rightarrow> ''Unknown'' | Inr u \<Rightarrow> u_UserName u)"
  obtain pe s1 where p: "publishMessage exec marshal t stamp m username (mw_redis w) = (pe, s1)" by fastforce
  have w': "w' = w\<lparr>mw_db := d2, mw_redis := s1\<rparr>"
      "res = (case r of Inl e \<Rightarrow> Inl (Wrap ''failed to save message to database'' e) | Inr m' \<Rightarrow> Inr m')"
    using assms u c p by (auto simp: store_and_publish_def username_def Let_def split: sum.splits)
  have view: "view d1 = view (mw_db w)" by (rule FindByID_user(1) [OF u])
  have redis: "store s1 = store (mw_redis w) \<or> (\<exists>username. published marshal stamp m username (store (mw_redis w)) (store s1))"
    using publishMessage_step [OF p] by blast
  show ?thesis
  proof (cases r)
    case (Inl e)
    then show ?thesis using w' redis message_Create_err [OF c [unfolded Inl]] view by (simp add: log_append_def) blast
  next
    case (Inr m')
    then show ?thesis using w' redis message_Create_ok [OF c [unfolded Inr]] view by (simp add: log_append_def)
  qed
qed

lemma SendMessage_drawn:
  assumes "SendMessage db exec marshal clock t created stamp u g content w = Some (res, w')"
    and "message_inv (view (mw_db w)) (store (mw_redis w))"
    and "0 < length content" and "length content \<le> 2000"
    and "IsMember db t u g (mw_db w) = (Inr True, d1)"
    and "NextID clock (mw_tick w) (mw_gen w) = Some (Inr i, gen', k')"
    and "GenerateSeqID exec t g (mw_redis w) = (Inr q, s1)"
  shows "message_inv (view (mw_db w')) (store (mw_redis w')) \<and> mw_gen w' = gen' \<and> mw_tick w' = k' \<and>
    (let m = fill_message t \<lparr>m_ID = FormatInt i, m_UserID = u, m_GuildID = g, m_Content = content, m_SeqID = q, m_CreatedAt = created\<rparr>
     in seq_value (store (mw_redis w)) g < q \<and>
      (case res of
         Inr m' \<Rightarrow> m' = m \<and> view (mw_db w') = log_append (view (mw_db w)) m
       | Inl e \<Rightarrow> (\<exists>e'. e = Wrap ''failed to save message to database'' e') \<and>
           (view (mw_db w') = view (mw_db w) \<or> view (mw_db w') = log_append (view (mw_db w)) m)) \<and>
      (store (mw_redis w') = store s1 \<or> (\<exists>username. published marshal stamp m username (store s1) (store (mw_redis w')))))"
proof -
  define m0 where "m0 = \<lparr>m_ID = FormatInt i, m_UserID = u, m_GuildID = g, m_Content = content, m_SeqID = q, m_CreatedAt = created\<rparr>"
  have fields: "m_GuildID m0 = g" "m_SeqID m0 = q" by (simp_all add: m0_def)
  let ?w = "w\<lparr>mw_db := d1, mw_redis := s1, mw_gen := gen', mw_tick := k'\<rparr>"
  have run: "store_and_publish db exec marshal t stamp m0 ?w = (res, w')"
    using assms by (simp add: SendMessage_def m0_def)
  have view: "view d1 = view (mw_db w)" by (rule IsMember_set(1) [OF assms(5)])
  have inv0: "seq_inv (store (mw_redis w))" using assms(2) by (simp add: message_inv_def)
  note seq = GenerateSeqID_step [OF inv0 assms(7)]
  have q: "seq_value (store (mw_redis w)) g < q" "q = seq_value (store s1) g" using seq(3) by auto
  note sp = store_and_publish_spec [OF run]
  have pub: "published marshal stamp m0 un = published marshal stamp (fill_message t m0) un" for un
    by (intro ext) (simp add: published_def pb_message_def)
  have redis: "store (mw_redis w') = store s1 \<or> (\<exists>un. published marshal stamp m0 un (store s1) (store (mw_redis w')))"
    using sp by simp
  have r': "seq_inv (store (mw_redis w'))" "\<And>g'. seq_value (store (mw_redis w')) g' = seq_value (store s1) g'"
    using redis seq(1) by (auto simp: published_def)
  have log: "view (mw_db w') = view (mw_db w) \<or> view (mw_db w') = log_append (view (mw_db w)) (fill_message t m0)"
    using sp view by (cases res) auto
  have "message_inv (view (mw_db w')) (store (mw_redis w'))"
    using log message_inv_raise [OF assms(2) r'(1)] message_inv_append [OF assms(2) r'(1), of "fill_message t m0"] seq(2) q r'(2)
    by (auto simp: log_append_def fields)
  then show ?thesis using sp q(1) redis view pub unfolding m0_def [symmetric] Let_def by (cases res) auto
qed

text \<open>The exits before both numbers are drawn.\<close>

lemma SendMessage_early:
  assumes "SendMessage db exec marshal clock t created stamp u g content w = Some (res, w')"
    and "message_inv (view (mw_db w)) (store (mw_redis w))"
    and "\<And>d1 i gen' k' q s1. \<not> (0 < length content \<and> length content \<le> 2000 \<and> IsMember db t u g (mw_db w) = (Inr True, d1) \<and>
      NextID clock (mw_tick w) (mw_gen w) = Some (Inr i, gen', k') \<and> GenerateSeqID exec t g (mw_redis w) = (Inr q, s1))"
  shows "\<exists>e. res = Inl e \<and> message_inv (view (mw_db w')) (store (mw_redis w')) \<and> view (mw_db w') = view (mw_db w) \<and>
    (e = ErrInvalidMessageContent \<longleftrightarrow> \<not> (0 < length content \<and> length content \<le> 2000)) \<and>
    (e = ErrUserNotInGuild \<longrightarrow> \<not> (member_of (view (mw_db w)) g u \<and> (\<exists>h \<in> set (t_guilds (view (mw_db w))). g_ID h = g))) \<and>
    (e \<in> {ErrInvalidMessageContent, ErrUserNotInGuild} \<longrightarrow>
           view (mw_db w') = view (mw_db w) \<and> mw_redis w' = mw_redis w \<and> mw_gen w' = mw_gen w \<and> mw_tick w' = mw_tick w)"
proof (cases "0 < length content \<and> length content \<le> 2000")
  case False
  then have "res = Inl ErrInvalidMessageContent \<and> w' = w"
    using assms(1) by (cases "content = []") (simp_all add: SendMessage_def)
  then show ?thesis using False assms(2) by (simp add: ErrInvalidMessageContent_def ErrUserNotInGuild_def)
next
  case True
  obtain r d1 where m: "IsMember db t u g (mw_db w) = (r, d1)" by fastforce
  note mem = IsMember_set [OF m]
  note errs = ErrInvalidMessageContent_def ErrUserNotInGuild_def
  show ?thesis
  proof (cases "r = Inr True")
    case False
    then show ?thesis using assms(1,2) True m mem
      by (cases r) (auto simp: SendMessage_def errs)
  next
    case member: True
    obtain x gen' k' where n: "NextID clock (mw_tick w) (mw_gen w) = Some (x, gen', k')"
      using assms(1) True m member by (auto simp: SendMessage_def split: option.splits)
    show ?thesis
    proof (cases x)
      case (Inl e)
      then show ?thesis using assms(1,2) True m member n mem(1) by (auto simp: SendMessage_def errs)
    next
      case (Inr i)
      obtain y s1 where q: "GenerateSeqID exec t g (mw_redis w) = (y, s1)" by fastforce
      obtain e where e: "y = Inl e" using assms(3) [of d1 i gen' k' _ s1] True m member n Inr q by (cases y) auto
      have "seq_inv (store (mw_redis w))" using assms(2) by (simp add: message_inv_def)
      note seq = GenerateSeqID_step [OF this q]
      show ?thesis using assms(1) True m member n Inr q e mem(1) message_inv_raise [OF assms(2) seq(1,2)]
        by (auto simp: SendMessage_def errs)
    qed
  qed
qed

lemma SendMessage_cases:
  assumes "SendMessage db exec marshal clock t created stamp u g content w = Some (res, w')"
    and "message_inv (view (mw_db w)) (store (mw_redis w))"
  shows "message_inv (view (mw_db w')) (store (mw_redis w')) \<and>
    (case res of
       Inr m \<Rightarrow> 0 < length content \<and> length content \<le> 2000 \<and> member_of (view (mw_db w)) g u \<and>
         (\<exists>i. NextID clock (mw_tick w) (mw_gen w) = Some (Inr i, mw_gen w', mw_tick w') \<and> m_ID m = FormatInt i) \<and>
         m_UserID m = u \<and> m_GuildID m = g \<and> m_Content m = content \<and> seq_value (store (mw_redis w)) g < m_SeqID m \<and>
         view (mw_db w') = log_append (view (mw_db w)) m \<and>
         (\<exists>s1 q. GenerateSeqID exec t g (mw_redis w) = (Inr q, s1) \<and> m_SeqID m = q \<and>
           (store (mw_redis w') = store s1 \<or>
            (\<exists>username. published marshal stamp m username (store s1) (store (mw_redis w')))))
     | Inl e \<Rightarrow>
         (e = ErrInvalidMessageContent \<longleftrightarrow> \<not> (0 < length content \<and> length content \<le> 2000)) \<and>
         (e = ErrUserNotInGuild \<longrightarrow> \<not> (member_of (view (mw_db w)) g u \<and> (\<exists>h \<in> set (t_guilds (view (mw_db w))). g_ID h = g))) \<and>
         (e \<in> {ErrInvalidMessageContent, ErrUserNotInGuild} \<longrightarrow>
           view (mw_db w') = view (mw_db w) \<and> mw_redis w' = mw_redis w \<and> mw_gen w' = mw_gen w \<and> mw_tick w' = mw_tick w) \<and>
         (view (mw_db w') = view (mw_db w) \<or> (\<exists>m. view (mw_db w') = log_append (view (mw_db w)) m \<and>
            m_UserID m = u \<and> m_GuildID m = g \<and> m_Content m = content \<and> member_of (view (mw_db w)) g u)))"
proof (cases "\<exists>d1 i gen' k' q s1. 0 < length content \<and> length content \<le> 2000 \<and> IsMember db t u g (mw_db w) = (Inr True, d1) \<and>
      NextID clock (mw_tick w) (mw_gen w) = Some (Inr i, gen', k') \<and> GenerateSeqID exec t g (mw_redis w) = (Inr q, s1)")
  case False
  then have early: "\<not> (0 < length content \<and> length content \<le> 2000 \<and> IsMember db t u g (mw_db w) = (Inr True, d1) \<and>
      NextID clock (mw_tick w) (mw_gen w) = Some (Inr i, gen', k') \<and> GenerateSeqID exec t g (mw_redis w) = (Inr q, s1))"
    for d1 i gen' k' q s1 by blast
  from SendMessage_early [OF assms early] show ?thesis by (elim exE conjE) simp
next
  case True
  then obtain d1 i gen' k' q s1 where ok: "0 < length content" "length content \<le> 2000"
      and m: "IsMember db t u g (mw_db w) = (Inr True, d1)"
      and n: "NextID clock (mw_tick w) (mw_gen w) = Some (Inr i, gen', k')"
      and q: "GenerateSeqID exec t g (mw_redis w) = (Inr q, s1)" by blast
  have "member_of (view (mw_db w)) g u" using IsMember_set(2) [OF m, of True] by simp
  with SendMessage_drawn [OF assms ok m n q] ok n q show ?thesis
    by (cases res) (auto simp: Let_def ErrInvalidMessageContent_def ErrUserNotInGuild_def)
qed

text \<open>Whatever it returns, a call stores at most one message, and only an admissible one.\<close>

lemma SendMessage_stored:
  assumes "SendMessage db exec marshal clock t created stamp u g content w = Some (res, w')"
    and "message_inv (view (mw_db w)) (store (mw_redis w))"
  shows "message_inv (view (mw_db w')) (store (mw_redis w')) \<and>
    (view (mw_db w') = view (mw_db w) \<or> (\<exists>m. view (mw_db w') = log_append (view (mw_db w)) m \<and>
       m_UserID m = u \<and> m_GuildID m = g \<and> m_Content m = content \<and> member_of (view (mw_db w)) g u \<and>
       0 < length content \<and> length content \<le> 2000))"
proof (cases "0 < length content \<and> length content \<le> 2000")
  case True
  then show ?thesis using SendMessage_cases [OF assms] by (cases res) auto
next
  case False
  then have "w' = w" using assms(1) by (cases "length content = 0") (simp_all add: SendMessage_def)
  then show ?thesis using assms(2) by simp
qed

end

section \<open>Reading pages\<close>

definition guild_log :: "tables \<Rightarrow> string \<Rightarrow> message list" where
  "guild_log d g = sort_key m_SeqID (filter (\<lambda>m. m_GuildID m = g) (t_messages d))"

text \<open>The messages of a guild after a sequence number, oldest first.\<close>

definition log_after :: "tables \<Rightarrow> string \<Rightarrow> int \<Rightarrow> message list" where
  "log_after d g s = filter (\<lambda>m. s < m_SeqID m) (guild_log d g)"

lemma page_limit_bounds: "1 \<le> page_limit l" "page_limit l \<le> 100" "1 \<le> l \<Longrightarrow> l \<le> 100 \<Longrightarrow> page_limit l = l"
  by (simp_all add: page_limit_def Let_def)

lemma strict_nth_less:
  fixes f :: "'a \<Rightarrow> 'b::linorder"
  assumes "sorted (map f xs)" and "distinct (map f xs)" and "i < j" and "j < length xs"
  shows "f (xs ! i) < f (xs ! j)"
  using assms sorted_wrt_nth_less [of "(<)" "map f xs" i j] strict_sorted_iff [of "map f xs"] by simp

lemma filter_drop_sorted:
  fixes f :: "'a \<Rightarrow> 'b::linorder"
  assumes "sorted (map f xs)" and "distinct (map f xs)" and "0 < n" and "n \<le> length xs"
  shows "filter (\<lambda>x. f (last (take n xs)) < f x) xs = drop n xs"
proof -
  have last: "last (take n xs) = xs ! (n - 1)" using assms(3,4) by (subst last_conv_nth) auto
  note less = strict_nth_less [OF assms(1,2)]
  have lt: "f (xs ! (n - 1)) < f (xs ! i) \<longleftrightarrow> n \<le> i" if "i < length xs" for i
  proof (cases "n \<le> i")
    case True
    then show ?thesis using less [of "n - 1" i] that assms(3) by simp
  next
    case False
    then have "i = n - 1 \<or> i < n - 1" "n - 1 < length xs" using assms(3,4) by linarith+
    then show ?thesis using less [of i "n - 1"] assms(3,4) False by (auto simp: order_less_not_sym)
  qed
  have "filter (\<lambda>x. f (xs ! (n - 1)) < f x) (take n xs) = []"
    using lt by (auto simp: filter_empty_conv in_set_conv_nth)
  moreover have "filter (\<lambda>x. f (xs ! (n - 1)) < f x) (drop n xs) = drop n xs"
    using lt by (auto simp: filter_id_conv in_set_conv_nth)
  ultimately show ?thesis unfolding last
    by (metis append_take_drop_id filter_append self_append_conv2)
qed

lemma guild_log_distinct:
  assumes "distinct (map (\<lambda>m. (m_GuildID m, m_SeqID m)) (t_messages d))"
  shows "distinct (map m_SeqID (filter (\<lambda>m. m_GuildID m = g) (t_messages d)))" and "distinct (map m_SeqID (guild_log d g))"
proof -
  show 1: "distinct (map m_SeqID (filter (\<lambda>m. m_GuildID m = g) (t_messages d)))"
    using assms by (induction "t_messages d") (auto simp: distinct_map inj_on_def)
  then show "distinct (map m_SeqID (guild_log d g))"
    unfolding guild_log_def by (metis distinct_map distinct_sort set_sort)
qed

context sql_database
begin

lemma FindByGuild_rows:
  assumes "FindByGuild db t g s lim d = (Inr ms, d')" and "0 \<le> lim"
    and "distinct (map (\<lambda>m. (m_GuildID m, m_SeqID m)) (t_messages (view d)))"
  shows "view d' = view d \<and> ms = take (nat lim) (if 0 < s then log_after (view d) g s else rev (guild_log (view d) g))"
proof -
  let ?q = "MessagesOfGuild g (if 0 < s then Some s else None) lim"
  obtain rs where db: "db t ?q d = (Inr rs, d')" and ms: "ms = message_rows rs"
    using assms(1) by (auto simp: FindByGuild_def query_def split: prod.splits sum.splits)
  have det: "determined ?q (view d)" using guild_log_distinct(1) [OF assms(3)] by simp
  note ok = select_ok [OF db sql_step.simps(16) det]
  show ?thesis using ok(1) message_rows_agree [OF ok(2)] ms assms(2)
    by (simp add: order_messages_def log_after_def guild_log_def filter_sort)
qed

lemma GetMessages_page:
  assumes "GetMessages db t g s l d = (Inr (ms, hasMore), d')"
    and "distinct (map (\<lambda>m. (m_GuildID m, m_SeqID m)) (t_messages (view d)))"
  shows "view d' = view d \<and>
    (let all = (if 0 < s then log_after (view d) g s else rev (guild_log (view d) g)); n = nat (page_limit l)
     in ms = take n all \<and> hasMore = (n < length all))"
proof -
  obtain xs where f: "FindByGuild db t g s (page_limit l + 1) d = (Inr xs, d')"
      and r: "hasMore = (page_limit l < int (length xs))" "ms = (if hasMore then take (nat (page_limit l)) xs else xs)"
    using assms(1) by (auto simp: GetMessages_def Let_def split: prod.splits sum.splits)
  define all where "all = (if 0 < s then log_after (view d) g s else rev (guild_log (view d) g))"
  define n where "n = nat (page_limit l)"
  have n: "page_limit l = int n" using page_limit_bounds(1) [of l] by (simp add: n_def)
  have "xs = take (nat (page_limit l + 1)) all" "view d' = view d"
    using FindByGuild_rows [OF f _ assms(2)] page_limit_bounds(1) [of l] by (simp_all add: all_def)
  then have "xs = take (Suc n) all" by (simp add: n nat_add_distrib)
  then have "ms = take n all \<and> hasMore = (n < length all)"
    using r by (auto simp: n min_def)
  then show ?thesis using \<open>view d' = view d\<close> by (simp add: all_def n_def Let_def)
qed

end

lemma log_after_sorted: "sorted (map m_SeqID (log_after d g s))"
  unfolding log_after_def guild_log_def by (simp add: sorted_filter)

lemma log_after_distinct:
  "distinct (map m_SeqID (guild_log d g)) \<Longrightarrow> distinct (map m_SeqID (log_after d g s))"
  by (simp add: log_after_def distinct_map_filter)

text \<open>What follows a page is what comes after its last sequence number.\<close>

lemma log_after_page:
  assumes "distinct (map m_SeqID (guild_log d g))" and "0 < n" and "n < length (log_after d g s)"
  shows "log_after d g (m_SeqID (last (take n (log_after d g s)))) = drop n (log_after d g s)"
proof -
  let ?all = "log_after d g s" and ?s' = "m_SeqID (last (take n (log_after d g s)))"
  have "last (take n ?all) \<in> set ?all" using assms(2,3) by (metis in_set_takeD last_in_set length_greater_0_conv
        length_take less_nat_zero_code min_less_iff_conj not_gr_zero)
  then have "s < ?s'" by (simp add: log_after_def)
  then have "log_after d g ?s' = filter (\<lambda>m. ?s' < m_SeqID m) ?all"
    by (simp add: log_after_def conj_commute) (rule filter_cong, auto)
  then show ?thesis using filter_drop_sorted [OF log_after_sorted log_after_distinct [OF assms(1)] assms(2)] assms(3)
    by simp
qed

section \<open>Properties\<close>

text \<open>C4. \<^verbatim>\<open>SendMessage\<close> on every branch, for any failures of the database and Redis.  Success means that
  the content has 1 to 2000 bytes, the user is a member of the guild, the stored message carries a fresh snowflake
  id and a sequence number above every earlier one of the guild, that it was stored exactly once and
  published at most once, with the same id, author, guild, content and number.  Invalid content and a missing membership are reported
  as such, and then the tables, Redis, the ID generator and its clock are as before; every other error stores nothing or the complete message.  On every branch the
  sequence numbers stored stay unique per guild and below the guild's counter.\<close>

theorem SendMessage_spec:
  assumes "sql_database db view" and "redis_server exec store"
    and "message_inv (view (mw_db w)) (store (mw_redis w))"
    and "SendMessage db exec marshal clock t created stamp u g content w = Some (res, w')"
  shows "message_inv (view (mw_db w')) (store (mw_redis w')) \<and>
    (case res of
       Inr m \<Rightarrow> 0 < length content \<and> length content \<le> 2000 \<and> member_of (view (mw_db w)) g u \<and>
         (\<exists>i. NextID clock (mw_tick w) (mw_gen w) = Some (Inr i, mw_gen w', mw_tick w') \<and> m_ID m = FormatInt i) \<and>
         m_UserID m = u \<and> m_GuildID m = g \<and> m_Content m = content \<and> seq_value (store (mw_redis w)) g < m_SeqID m \<and>
         view (mw_db w') = log_append (view (mw_db w)) m \<and>
         (\<exists>s1 q. GenerateSeqID exec t g (mw_redis w) = (Inr q, s1) \<and> m_SeqID m = q \<and>
           (store (mw_redis w') = store s1 \<or>
            (\<exists>username. published marshal stamp m username (store s1) (store (mw_redis w')))))
     | Inl e \<Rightarrow>
         (e = ErrInvalidMessageContent \<longleftrightarrow> \<not> (0 < length content \<and> length content \<le> 2000)) \<and>
         (e = ErrUserNotInGuild \<longrightarrow> \<not> (member_of (view (mw_db w)) g u \<and> (\<exists>h \<in> set (t_guilds (view (mw_db w))). g_ID h = g))) \<and>
         (e \<in> {ErrInvalidMessageContent, ErrUserNotInGuild} \<longrightarrow>
           view (mw_db w') = view (mw_db w) \<and> mw_redis w' = mw_redis w \<and> mw_gen w' = mw_gen w \<and> mw_tick w' = mw_tick w) \<and>
         (view (mw_db w') = view (mw_db w) \<or> (\<exists>m. view (mw_db w') = log_append (view (mw_db w)) m \<and>
            m_UserID m = u \<and> m_GuildID m = g \<and> m_Content m = content \<and> member_of (view (mw_db w)) g u)))"
  using message_store.SendMessage_cases [OF message_store.intro [OF assms(1,2)] assms(4,3)] .

definition demo_world :: "(tables, rstate) msg_world" where
  "demo_world = \<lparr>mw_db = demo_tables, mw_redis = empty_redis, mw_gen = Snowflake.demo_gen 1 0 0, mw_tick = 0\<rparr>"

definition demo_message :: "int \<Rightarrow> message" where
  "demo_message q = \<lparr>m_ID = ''8388612096'', m_UserID = ''id-1'', m_GuildID = ''g-1'', m_Content = ''hi'', m_SeqID = q, m_CreatedAt = 9\<rparr>"

interpretation ref_store: message_store sql_step id redis_run id
  by (rule message_store.intro [OF ref_db.sql_database_axioms ref_redis.redis_server_axioms])

lemma demo_world_inv: "message_inv (mw_db demo_world) (mw_redis demo_world)"
  by (simp add: message_inv_def demo_world_def demo_tables_def)

lemma demo_SendMessage:
  "\<exists>w'. SendMessage sql_step redis_run demo_marshal demo_clock 7 9 8 ''id-1'' ''g-1'' ''hi'' demo_world = Some (Inr (demo_message 1), w')"
proof -
  have mem: "IsMember sql_step 7 ''id-1'' ''g-1'' demo_tables = (Inr True, demo_tables)"
    by (simp add: IsMember_def GetMemberGuilds_def query_def demo_tables_def)
  have seq: "GenerateSeqID redis_run 7 ''g-1'' empty_redis = (Inr 1, put_entry (seq_key ''g-1'') (Some (FormatInt 1, None)) empty_redis)"
    by (simp add: GenerateSeqID_def redis_incrby_def live_def empty_redis_def int64_range_def)
  have id: "FormatInt 8388612096 = ''8388612096''"
    by (simp add: FormatInt_def dec.simps digit_char_def char_of_def bit_simps)
  have store: "\<exists>w'. store_and_publish sql_step redis_run demo_marshal 7 8 (demo_message q) w = (Inr (demo_message q), w')"
    if "t_messages (mw_db w) = []" for q w
  proof -
    obtain x d1 where u: "user_FindByID sql_step 7 ''id-1'' (mw_db w) = (x, d1)" by fastforce
    have "t_messages d1 = []" using ref_db.FindByID_user(1) [OF u] that by simp
    then show ?thesis
      by (auto simp: store_and_publish_def message_Create_def query_first_def fill_message_def demo_message_def Let_def u
          split: prod.split)
  qed
  show ?thesis
    using store [of "demo_world\<lparr>mw_redis := put_entry (seq_key ''g-1'') (Some (FormatInt 1, None)) empty_redis,
        mw_gen := Snowflake.demo_gen 1 0 1704067202000, mw_tick := 1\<rparr>" 1]
    by (simp add: SendMessage_def demo_world_def mem seq demo_next id demo_message_def) (simp add: demo_tables_def)
qed

theorem SendMessage_spec_witness:
  "\<exists>w'. SendMessage sql_step redis_run demo_marshal demo_clock 7 9 8 ''id-1'' ''g-1'' ''hi'' demo_world = Some (Inr (demo_message 1), w') \<and>
     message_inv (mw_db w') (mw_redis w') \<and> mw_db w' = log_append demo_tables (demo_message 1)"
proof -
  obtain w' where run: "SendMessage sql_step redis_run demo_marshal demo_clock 7 9 8 ''id-1'' ''g-1'' ''hi'' demo_world =
      Some (Inr (demo_message 1), w')" using demo_SendMessage by blast
  from SendMessage_spec [OF ref_db.sql_database_axioms ref_redis.redis_server_axioms _ run] demo_world_inv
  show ?thesis using run by (intro exI [of _ w']) (auto simp: demo_world_def)
qed

text \<open>C13. Pages are complete.  A page after a sequence number is followed, without gap or overlap, by the page after its
  last sequence number, and \<open>hasMore\<close> tells whether there is one: reading on while it holds reads every
  message of the guild after the start, in order.  Without a start the page holds the newest messages, newest
  first.  No page holds more than 100 messages, and reading changes nothing.\<close>

theorem GetMessages_paging:
  assumes "sql_database db view" and "message_inv (view d) r"
    and "GetMessages db t g s l d = (Inr (ms, hasMore), d')"
  shows "view d' = view d \<and> length ms \<le> 100 \<and>
    (if 0 < s
     then log_after (view d) g s = ms @ (if hasMore then log_after (view d) g (m_SeqID (last ms)) else []) \<and>
       (hasMore \<longrightarrow> ms \<noteq> [] \<and> log_after (view d) g (m_SeqID (last ms)) \<noteq> [])
     else \<exists>older. guild_log (view d) g = older @ rev ms \<and> (hasMore \<longleftrightarrow> older \<noteq> []))"
proof -
  have dist: "distinct (map (\<lambda>m. (m_GuildID m, m_SeqID m)) (t_messages (view d)))"
    using assms(2) by (simp add: message_inv_def)
  define n where "n = nat (page_limit l)"
  have n: "0 < n" "n \<le> 100" using page_limit_bounds [of l] by (simp_all add: n_def)
  note page = sql_database.GetMessages_page [OF assms(1,3) dist, unfolded Let_def, folded n_def]
  show ?thesis
  proof (cases "0 < s")
    case True
    let ?all = "log_after (view d) g s"
    have ms: "ms = take n ?all" "hasMore = (n < length ?all)" using page True by simp_all
    have "log_after (view d) g (m_SeqID (last ms)) = drop n ?all" if hasMore
      using log_after_page [OF guild_log_distinct(2) [OF dist] n(1)] that ms by simp
    then show ?thesis using True page n ms by (cases hasMore) auto
  next
    case False
    let ?all = "rev (guild_log (view d) g)"
    have ms: "ms = take n ?all" "hasMore = (n < length ?all)" using page False by simp_all
    have "guild_log (view d) g = rev (drop n ?all) @ rev ms"
      unfolding ms by (metis append_take_drop_id rev_append rev_rev_ident)
    then show ?thesis using False page n ms by (auto intro!: exI [of _ "rev (drop n ?all)"])
  qed
qed

definition demo_log :: tables where
  "demo_log = demo_tables\<lparr>t_messages := [demo_message 3, demo_message 1, demo_message 2]\<rparr>"

theorem GetMessages_paging_witness:
  "log_after demo_log ''g-1'' 1 = [demo_message 2] @ log_after demo_log ''g-1'' 2"
proof -
  define r where "r = put_entry (seq_key ''g-1'') (Some (FormatInt 3, None)) empty_redis"
  have inv: "message_inv (id demo_log) r"
    using seq_put [OF seq_inv_empty, of "''g-1''" 3] by (simp add: r_def message_inv_def demo_log_def demo_message_def)
  have "GetMessages sql_step 0 ''g-1'' 1 1 demo_log = (Inr ([demo_message 2], True), demo_log)"
    by (simp add: GetMessages_def FindByGuild_def query_def page_limit_def order_messages_def demo_log_def demo_message_def)
  from GetMessages_paging [OF ref_db.sql_database_axioms inv this] show ?thesis by (simp add: demo_message_def)
qed

text \<open>The first message of a guild (sequence number 1) is on no page once the guild has more than 100 messages: a
  start must be positive, and a page after a start excludes it.\<close>

lemma first_message_unreachable:
  assumes "sql_database db view" and "message_inv (view d) r" and "100 < length (guild_log (view d) g)"
    and "\<forall>m' \<in> set (guild_log (view d) g). 1 \<le> m_SeqID m'" and "m_SeqID m = 1"
    and "GetMessages db t g s l d = (Inr (ms, hasMore), d')"
  shows "m \<notin> set ms"
proof -
  have dist: "distinct (map (\<lambda>m. (m_GuildID m, m_SeqID m)) (t_messages (view d)))"
    using assms(2) by (simp add: message_inv_def)
  define n where "n = nat (page_limit l)"
  have n: "n \<le> 100" using page_limit_bounds [of l] by (simp add: n_def)
  note page = sql_database.GetMessages_page [OF assms(1,6) dist, unfolded Let_def, folded n_def]
  show ?thesis
  proof (cases "0 < s")
    case True
    then show ?thesis using page assms(5) by (auto simp: log_after_def dest!: in_set_takeD)
  next
    case False
    let ?log = "guild_log (view d) g"
    have sorted: "sorted (map m_SeqID ?log)" "distinct (map m_SeqID ?log)"
      using guild_log_distinct(2) [OF dist] by (simp_all add: guild_log_def)
    have ms: "ms = take n (rev ?log)" using page False by simp
    show ?thesis
    proof
      assume "m \<in> set ms"
      then obtain i where i: "i < n" "i < length ?log" "m = ?log ! (length ?log - 1 - i)"
        unfolding ms by (auto simp: in_set_conv_nth rev_nth)
      have pos: "0 < length ?log - 1 - i" using i(1) n assms(3) by linarith
      have "m_SeqID (?log ! 0) < m_SeqID (?log ! (length ?log - 1 - i))"
        using strict_nth_less [OF sorted pos] i(2) by simp
      moreover have "1 \<le> m_SeqID (?log ! 0)" using assms(4) nth_mem [of 0 ?log] assms(3) by fastforce
      ultimately show False using i(3) assms(5) by simp
    qed
  qed
qed

end
