(* ===== verification/Http.thy ===== *)
theory Http
  imports MessageService RateLimit
begin

text \<open>
  The HTTP middleware: \<^verbatim>\<open>internal/api/middleware.go\<close> and \<^verbatim>\<open>middleware/auth/auth.go\<close>.  A gin context is a
  record of the request, the keys handlers set, and the response written so far; a handler maps context and world to the
  context and world after it, panics, or hangs.  \<^verbatim>\<open>c.Next()\<close> runs the rest of the chain, so a middleware
  is a function on handlers; one that returns without it has aborted the chain.  Log lines are kept as level and text.
\<close>

section \<open>Contexts and handlers\<close>

datatype body =
    ErrorBody string
  | RateBody int int
  | UserBody user
  | LoginBody login_response
  | GuildBody guild
  | GuildsBody "guild list"
  | UsersBody "user list"
  | MessageBody message
  | PageBody "message_with_user list" bool
  | InfoBody string

record gin_context =
  rq_method :: string
  rq_path :: string
  rq_query :: "(string \<times> string) list"
  rq_params :: "(string \<times> string) list"
  rq_header :: "(string \<times> string) list"
  rq_body :: string
  rq_ip :: string
  k_user_id :: "string option"
  k_username :: "string option"
  k_email :: "string option"
  rs_status :: "int option"
  rs_header :: "(string \<times> string) list"
  rs_bodies :: "body list"
  rs_aborted :: bool
  logs :: "(string \<times> string) list"

datatype 'w ran = Done gin_context 'w | Panicked gin_context 'w | Hangs

type_synonym 'w handler = "gin_context \<Rightarrow> 'w \<Rightarrow> 'w ran"
type_synonym 'w middleware = "'w handler \<Rightarrow> 'w handler"

text \<open>The empty string stands for a missing header, query value or path parameter, as in gin.\<close>

definition lookup_str :: "(string \<times> string) list \<Rightarrow> string \<Rightarrow> string" where
  "lookup_str m k = (case map_of m k of None \<Rightarrow> [] | Some v \<Rightarrow> v)"

definition GetString_user_id :: "gin_context \<Rightarrow> string" where
  "GetString_user_id c = (case k_user_id c of None \<Rightarrow> [] | Some v \<Rightarrow> v)"

text \<open>\<^verbatim>\<open>c.JSON\<close>: the first status written stays.\<close>

definition json :: "int \<Rightarrow> body \<Rightarrow> gin_context \<Rightarrow> gin_context" where
  "json code b c = c\<lparr>rs_status := (case rs_status c of None \<Rightarrow> Some code | Some s \<Rightarrow> Some s), rs_bodies := rs_bodies c @ [b]\<rparr>"

definition Abort :: "gin_context \<Rightarrow> gin_context" where
  "Abort c = c\<lparr>rs_aborted := True\<rparr>"

definition AbortWithStatus :: "int \<Rightarrow> gin_context \<Rightarrow> gin_context" where
  "AbortWithStatus code c = Abort (c\<lparr>rs_status := (case rs_status c of None \<Rightarrow> Some code | Some s \<Rightarrow> Some s)\<rparr>)"

definition log_line :: "string \<Rightarrow> string \<Rightarrow> gin_context \<Rightarrow> gin_context" where
  "log_line level msg c = c\<lparr>logs := logs c @ [(level, msg)]\<rparr>"

definition set_header :: "string \<Rightarrow> string \<Rightarrow> gin_context \<Rightarrow> gin_context" where
  "set_header k v c = c\<lparr>rs_header := AList.update k v (rs_header c)\<rparr>"

text \<open>\<^verbatim>\<open>strings.SplitN(s, " ", 2)\<close>\<close>

definition SplitN_space :: "string \<Rightarrow> string list" where
  "SplitN_space s =
     (if CHR '' '' \<in> set s then [takeWhile (\<lambda>c. c \<noteq> CHR '' '') s, tl (dropWhile (\<lambda>c. c \<noteq> CHR '' '') s)] else [s])"

section \<open>Authentication\<close>

definition JWTAuth :: "jwt_parse \<Rightarrow> token_manager \<Rightarrow> int \<Rightarrow> 'w middleware" where
  "JWTAuth parse tm now Next c w =
     (let authHeader = lookup_str (rq_header c) ''Authorization''
      in if authHeader = [] then Done (Abort (json 401 (ErrorBody ''authorization header required'') c)) w
         else
           (let parts = SplitN_space authHeader
            in if length parts \<noteq> 2 \<or> parts ! 0 \<noteq> ''Bearer''
               then Done (Abort (json 401 (ErrorBody ''invalid authorization header format'') c)) w
               else case ParseToken parse tm now (parts ! 1) of
                   Inl err \<Rightarrow>
                     (let message = (if err = ErrExpiredToken then ''token has expired''
                                     else if err = ErrTokenNotYetValid then ''token not yet valid''
                                     else ''invalid token'')
                      in Done (Abort (json 401 (ErrorBody message) (log_line ''warn'' ''token validation failed'' c))) w)
                 | Inr cl \<Rightarrow> Next (c\<lparr>k_user_id := Some (c_UserID cl), k_username := Some (c_UserName cl)\<rparr>) w))"

text \<open>The two error texts in UTF-8.\<close>

definition no_token_text :: string where
  "no_token_text =
      [CHR 0xE6, CHR 0x9C, CHR 0xAA, CHR 0xE6, CHR 0x8F, CHR 0x90, CHR 0xE4, CHR 0xBE, CHR 0x9B, CHR 0xE8, CHR 0xAE,
      CHR 0xA4, CHR 0xE8, CHR 0xAF, CHR 0x81, CHR 0x20, CHR 0x54, CHR 0x6F, CHR 0x6B, CHR 0x65, CHR 0x6E]"

definition bad_token_text :: string where
  "bad_token_text =
      [CHR 0x54, CHR 0x6F, CHR 0x6B, CHR 0x65, CHR 0x6E, CHR 0x20, CHR 0xE6, CHR 0x97, CHR 0xA0, CHR 0xE6, CHR 0x95,
      CHR 0x88, CHR 0xE6, CHR 0x88, CHR 0x96, CHR 0xE5, CHR 0xB7, CHR 0xB2, CHR 0xE8, CHR 0xBF, CHR 0x87, CHR 0xE6,
      CHR 0x9C, CHR 0x9F]"

definition request_token :: "gin_context \<Rightarrow> string" where
  "request_token c =
     (let authHeader = lookup_str (rq_header c) ''Authorization'';
          parts = SplitN_space authHeader;
          token = (if authHeader \<noteq> [] \<and> length parts = 2 \<and> parts ! 0 = ''Bearer'' then parts ! 1 else [])
      in if token = [] then lookup_str (rq_query c) ''token'' else token)"

definition AuthMiddleware :: "jwt_parse \<Rightarrow> token_manager \<Rightarrow> int \<Rightarrow> 'w middleware" where
  "AuthMiddleware parse tm now Next c w =
     (let token = request_token c
      in if token = [] then Done (Abort (json 401 (ErrorBody no_token_text) c)) w
         else case ParseToken parse tm now token of
             Inl err \<Rightarrow> Done (Abort (json 401 (ErrorBody bad_token_text) c)) w
           | Inr cl \<Rightarrow>
               Next (c\<lparr>k_user_id := Some (c_UserID cl), k_username := Some (c_UserName cl), k_email := Some (c_UserEmail cl)\<rparr>) w)"

section \<open>Rate limits\<close>

text \<open>The part the two rate limiting middlewares share; \<open>retry_after\<close> is in seconds.  \<^verbatim>\<open>GetRemaining\<close>'s
  error is dropped, its value is then 0.\<close>

definition limit_request :: "'s redis \<Rightarrow> token_bucket_limiter \<Rightarrow> int \<Rightarrow> int \<Rightarrow> string \<Rightarrow> int \<Rightarrow> int \<Rightarrow> int \<Rightarrow>
    ('d, 's) msg_world middleware" where
  "limit_request exec l now t key limit window retry_after Next c w =
     (case Allow exec l now t key limit window (mw_redis w) of
        Panics \<Rightarrow> Panicked c w
      | Returns ((allowed, Some e), s1) \<Rightarrow>
          (let w1 = w\<lparr>mw_redis := s1\<rparr>; c1 = log_line ''error'' ''rate limit check failed'' c
           in if allowed then Next c1 w1
              else Done (Abort (json 500 (ErrorBody ''rate limit check failed'') c1)) w1)
      | Returns ((allowed, None), s1) \<Rightarrow>
          if \<not> allowed then
            (case GetRemaining exec now t key limit window s1 of
               Panics \<Rightarrow> Panicked c (w\<lparr>mw_redis := s1\<rparr>)
             | Returns (rem, s2) \<Rightarrow>
                 Done (Abort (json 429 (RateBody retry_after (case rem of Inl e \<Rightarrow> 0 | Inr r \<Rightarrow> r)) c)) (w\<lparr>mw_redis := s2\<rparr>))
          else Next c (w\<lparr>mw_redis := s1\<rparr>))"

definition RateLimit_key :: "gin_context \<Rightarrow> string" where
  "RateLimit_key c = (case k_user_id c of Some u \<Rightarrow> ''user:'' @ u | None \<Rightarrow> ''ip:'' @ rq_ip c)"

definition RateLimit :: "'s redis \<Rightarrow> token_bucket_limiter \<Rightarrow> int \<Rightarrow> int \<Rightarrow> int \<Rightarrow> ('d, 's) msg_world middleware" where
  "RateLimit exec l now t limitPerMinute Next c w =
     limit_request exec l now t (RateLimit_key c) limitPerMinute Minute 60 Next c w"

definition endpoint_key :: "string \<Rightarrow> gin_context \<Rightarrow> string" where
  "endpoint_key endpoint c =
     (case k_user_id c of Some u \<Rightarrow> ''user:'' @ u @ '':'' @ endpoint | None \<Rightarrow> ''ip:'' @ rq_ip c @ '':'' @ endpoint)"

definition RateLimiterByEndpoint :: "'s redis \<Rightarrow> token_bucket_limiter \<Rightarrow> rate_limit_config \<Rightarrow> int \<Rightarrow> int \<Rightarrow> string \<Rightarrow>
    ('d, 's) msg_world middleware" where
  "RateLimiterByEndpoint exec l cfg now t endpoint Next c w =
     (let rule = GetRuleForEndpoint endpoint cfg
      in limit_request exec l now t (endpoint_key endpoint c) (Limit rule) (Window rule) (Window rule sdiv Second) Next c w)"

text \<open>\<^verbatim>\<open>NewMiddlewareManager\<close> builds a fail-open limiter.\<close>

definition manager_limiter :: token_bucket_limiter where
  "manager_limiter = NewTokenBucketLimiter True"

section \<open>Logging, CORS and recovery\<close>

text \<open>The status of a response nothing was written to is 200.\<close>

definition Status :: "gin_context \<Rightarrow> int" where
  "Status c = (case rs_status c of None \<Rightarrow> 200 | Some s \<Rightarrow> s)"

definition Logger :: "'w middleware" where
  "Logger Next c w =
     (case Next c w of
        Done c1 w1 \<Rightarrow>
          Done (if 500 \<le> Status c1 then log_line ''error'' ''server error'' c1
                else if 400 \<le> Status c1 then log_line ''warn'' ''client error'' c1
                else log_line ''info'' ''request completed'' c1) w1
      | Panicked c1 w1 \<Rightarrow> Panicked c1 w1
      | Hangs \<Rightarrow> Hangs)"

definition cors_headers :: "gin_context \<Rightarrow> gin_context" where
  "cors_headers c =
     set_header ''Access-Control-Allow-Methods'' ''POST, OPTIONS, GET, PUT, DELETE''
      (set_header ''Access-Control-Allow-Headers''
         ''Content-Type, Content-Length, Accept-Encoding, X-CSRF-Token, Authorization, accept, origin, Cache-Control, X-Requested-With''
       (set_header ''Access-Control-Allow-Credentials'' ''true''
         (set_header ''Access-Control-Allow-Origin'' ''*'' c)))"

definition CORS :: "'w middleware" where
  "CORS Next c w =
     (let c1 = cors_headers c
      in if rq_method c = ''OPTIONS'' then Done (AbortWithStatus 204 c1) w else Next c1 w)"

definition Recovery :: "'w middleware" where
  "Recovery Next c w =
     (case Next c w of
        Done c1 w1 \<Rightarrow> Done c1 w1
      | Panicked c1 w1 \<Rightarrow>
          Done (Abort (json 500 (ErrorBody ''internal server error'') (log_line ''error'' ''panic recovered'' c1))) w1
      | Hangs \<Rightarrow> Hangs)"

section \<open>Lemmas\<close>

text \<open>A gate either runs the rest of the chain for an authenticated context or answers without touching the world.\<close>

lemma AuthMiddleware_cases:
  "(\<exists>cl. ParseToken parse tm now (request_token c) = Inr cl \<and> request_token c \<noteq> [] \<and> AuthMiddleware parse tm now Next c w =
      Next (c\<lparr>k_user_id := Some (c_UserID cl), k_username := Some (c_UserName cl), k_email := Some (c_UserEmail cl)\<rparr>) w) \<or>
   (\<exists>m. AuthMiddleware parse tm now Next c w = Done (Abort (json 401 (ErrorBody m) c)) w \<and>
      (request_token c = [] \<or> (\<exists>e. ParseToken parse tm now (request_token c) = Inl e)))"
  by (auto simp: AuthMiddleware_def Let_def split: sum.split)

lemma request_token_params [simp]: "request_token (c\<lparr>rq_params := p\<rparr>) = request_token c"
  by (simp add: request_token_def Let_def)

lemma Recovery_no_panic: "Recovery Next c w \<noteq> Panicked c' w'"
  by (simp add: Recovery_def split: ran.split)

lemma SplitN_space_Bearer: "SplitN_space (''Bearer '' @ tok) = [''Bearer'', tok]"
  by (simp add: SplitN_space_def)

end
