(* ===== verification/Handlers.thy ===== *)
theory Handlers
  imports Http
begin

text \<open>
  The request handlers of \<^verbatim>\<open>internal/handler\<close> and the routes of \<^verbatim>\<open>internal/api/router.go\<close>.  What the handlers
  are built from is the record \<open>app\<close>: the external services and libraries, and gin's JSON binding with its
  validation of the request structs.  What a request draws from clocks and random sources is the record \<open>draws\<close>.
  \<open>no_route\<close> is gin's answer to a path without a route.
\<close>

section \<open>Handlers\<close>

record ('d, 's) app =
  a_db :: "'d database"
  a_exec :: "'s redis"
  a_marshal :: ws_marshal
  a_clock :: "nat \<Rightarrow> int"
  a_gen :: bcrypt_gen
  a_cmp :: bcrypt_cmp
  a_sign :: jwt_sign
  a_parse :: jwt_parse
  a_tm :: token_manager
  bind_RegisterRequest :: "string \<Rightarrow> register_request result"
  bind_LoginRequest :: "string \<Rightarrow> login_request result"
  bind_CreateGuildRequest :: "string \<Rightarrow> string result"
  bind_invite_code :: "string \<Rightarrow> string result"
  bind_SendMessageRequest :: "string \<Rightarrow> send_message_request result"

record draws =
  dr_t :: int
  dr_now :: int
  dr_created :: int
  dr_stamp :: int
  dr_uuid :: string
  dr_uuidm :: string
  dr_src :: "nat \<Rightarrow> draw"

definition reply :: "int \<Rightarrow> body \<Rightarrow> gin_context \<Rightarrow> ('d, 's) msg_world \<Rightarrow> 'd \<Rightarrow> ('d, 's) msg_world ran" where
  "reply code b c w d = Done (json code b c) (w\<lparr>mw_db := d\<rparr>)"

definition handler_Register :: "('d, 's) app \<Rightarrow> draws \<Rightarrow> ('d, 's) msg_world handler" where
  "handler_Register app dr c w =
     (case bind_RegisterRequest app (rq_body c) of
        Inl err \<Rightarrow> Done (json 400 (ErrorBody (error_text err)) c) w
      | Inr req \<Rightarrow>
          (case Register (a_db app) (a_gen app) (dr_t dr) (dr_uuid dr) req (mw_db w) of
             (Inl err, d) \<Rightarrow>
               if err = ErrUserAlreadyExists then reply 409 (ErrorBody (error_text err)) c w d
               else reply 500 (ErrorBody ''Failed to register user'') c w d
           | (Inr user, d) \<Rightarrow> reply 201 (UserBody user) c w d))"

definition handler_Login :: "('d, 's) app \<Rightarrow> draws \<Rightarrow> ('d, 's) msg_world handler" where
  "handler_Login app dr c w =
     (case bind_LoginRequest app (rq_body c) of
        Inl err \<Rightarrow> Done (json 400 (ErrorBody (error_text err)) c) w
      | Inr req \<Rightarrow>
          (case Login (a_db app) (a_cmp app) (a_sign app) (a_tm app) (dr_t dr) (dr_now dr) req (mw_db w) of
             (Inl err, d) \<Rightarrow>
               if err = ErrInvalidCredentials then reply 401 (ErrorBody (error_text err)) c w d
               else reply 500 (ErrorBody ''Failed to login'') c w d
           | (Inr resp, d) \<Rightarrow> reply 200 (LoginBody resp) c w d))"

definition handler_CreateGuild :: "('d, 's) app \<Rightarrow> draws \<Rightarrow> ('d, 's) msg_world handler" where
  "handler_CreateGuild app dr c w =
     (case bind_CreateGuildRequest app (rq_body c) of
        Inl err \<Rightarrow> Done (json 400 (ErrorBody (error_text err)) c) w
      | Inr name \<Rightarrow>
          (let userID = GetString_user_id c
           in if userID = [] then Done (json 401 (ErrorBody ''Unauthorized'') c) w
              else case CreateGuild (a_db app) (dr_t dr) (dr_src dr) (dr_uuid dr) (dr_uuidm dr) userID name (mw_db w) of
                  (Inl err, d) \<Rightarrow> reply 500 (ErrorBody ''Failed to create guild'') c w d
                | (Inr guild, d) \<Rightarrow> reply 201 (GuildBody guild) c w d))"

definition handler_JoinGuild :: "('d, 's) app \<Rightarrow> draws \<Rightarrow> ('d, 's) msg_world handler" where
  "handler_JoinGuild app dr c w =
     (case bind_invite_code app (rq_body c) of
        Inl err \<Rightarrow> Done (json 400 (ErrorBody (error_text err)) c) w
      | Inr code \<Rightarrow>
          (let userID = GetString_user_id c
           in if userID = [] then Done (json 401 (ErrorBody ''Unauthorized'') c) w
              else case JoinGuild (a_db app) (dr_t dr) (dr_uuidm dr) userID code (mw_db w) of
                  (Inl err, d) \<Rightarrow>
                    if err = ErrInvalidInviteCode then reply 404 (ErrorBody (error_text err)) c w d
                    else if err = ErrAlreadyMember then reply 409 (ErrorBody (error_text err)) c w d
                    else reply 500 (ErrorBody ''Failed to join guild'') c w d
                | (Inr _, d) \<Rightarrow> reply 200 (InfoBody ''Joined guild successfully'') c w d))"

definition handler_GetUserGuilds :: "('d, 's) app \<Rightarrow> draws \<Rightarrow> ('d, 's) msg_world handler" where
  "handler_GetUserGuilds app dr c w =
     (let userID = GetString_user_id c
      in if userID = [] then Done (json 401 (ErrorBody ''Unauthorized'') c) w
         else case GetUserGuilds (a_db app) (dr_t dr) userID (mw_db w) of
             (Inl err, d) \<Rightarrow> reply 500 (ErrorBody ''Failed to retrieve guilds'') c w d
           | (Inr guilds, d) \<Rightarrow> reply 200 (GuildsBody guilds) c w d)"

definition handler_GetGuildMembers :: "('d, 's) app \<Rightarrow> draws \<Rightarrow> ('d, 's) msg_world handler" where
  "handler_GetGuildMembers app dr c w =
     (let guildID = lookup_str (rq_params c) ''id''
      in if guildID = [] then Done (json 400 (ErrorBody ''Guild ID is required'') c) w
         else case GetGuildMembers (a_db app) (dr_t dr) guildID (mw_db w) of
             (Inl err, d) \<Rightarrow>
               if err = ErrGuildNotFound then reply 404 (ErrorBody (error_text err)) c w d
               else reply 500 (ErrorBody ''Failed to retrieve members'') c w d
           | (Inr members, d) \<Rightarrow> reply 200 (UsersBody members) c w d)"

definition handler_SendMessage :: "('d, 's) app \<Rightarrow> draws \<Rightarrow> ('d, 's) msg_world handler" where
  "handler_SendMessage app dr c w =
     (case bind_SendMessageRequest app (rq_body c) of
        Inl err \<Rightarrow> Done (json 400 (ErrorBody (error_text err)) c) w
      | Inr req0 \<Rightarrow>
          (let userID = GetString_user_id c
           in if userID = [] then Done (json 401 (ErrorBody ''Unauthorized'') c) w
              else
                (let req = req0\<lparr>sm_UserID := userID\<rparr>
                 in case SendMessage (a_db app) (a_exec app) (a_marshal app) (a_clock app) (dr_t dr) (dr_created dr) (dr_stamp dr)
                     (sm_UserID req) (sm_GuildID req) (sm_Content req) w of
                   None \<Rightarrow> Hangs
                 | Some (Inl err, w1) \<Rightarrow>
                     if err = ErrUserNotInGuild then Done (json 403 (ErrorBody (error_text err)) c) w1
                     else if err = ErrInvalidMessageContent then Done (json 400 (ErrorBody (error_text err)) c) w1
                     else Done (json 500 (ErrorBody ''Failed to send message'') c) w1
                 | Some (Inr msg, w1) \<Rightarrow> Done (json 201 (MessageBody msg) c) w1)))"

text \<open>\<^verbatim>\<open>strconv.ParseInt(s, 10, 64)\<close>, and \<^verbatim>\<open>strconv.Atoi\<close> on a 64-bit platform.\<close>

definition is_digit :: "char \<Rightarrow> bool" where
  "is_digit ch \<longleftrightarrow> (48 :: nat) \<le> of_char ch \<and> of_char ch \<le> (57 :: nat)"

definition strconv_ParseInt :: "string \<Rightarrow> int option" where
  "strconv_ParseInt s =
     (let neg = (case s of [] \<Rightarrow> False | ch # r \<Rightarrow> ch = CHR ''-'');
          digits = (case s of [] \<Rightarrow> [] | ch # r \<Rightarrow> if ch = CHR ''-'' \<or> ch = CHR ''+'' then r else s);
          n = (if neg then - int (undec digits) else int (undec digits))
      in if digits \<noteq> [] \<and> list_all is_digit digits \<and> int64_range n then Some n else None)"

definition handler_GetMessages :: "('d, 's) app \<Rightarrow> draws \<Rightarrow> ('d, 's) msg_world handler" where
  "handler_GetMessages app dr c w =
     (let guildID = lookup_str (rq_query c) ''guild_id'';
          lastSeqIDStr = lookup_str (rq_query c) ''last_seq_id'';
          limitStr = lookup_str (rq_query c) ''limit''
      in if guildID = [] then Done (json 400 (ErrorBody ''guild_id is required'') c) w
         else case (if lastSeqIDStr = [] then Some 0 else strconv_ParseInt lastSeqIDStr) of
             None \<Rightarrow> Done (json 400 (ErrorBody ''Invalid last_seq_id'') c) w
           | Some lastSeqID \<Rightarrow>
               (case (if limitStr = [] then Some 50 else strconv_ParseInt limitStr) of
                  None \<Rightarrow> Done (json 400 (ErrorBody ''Invalid limit'') c) w
                | Some limit \<Rightarrow>
                    (case GetMessagesWithUser (a_db app) (dr_t dr) guildID lastSeqID limit (mw_db w) of
                       (Inl err, d) \<Rightarrow> reply 500 (ErrorBody ''Failed to retrieve messages'') c w d
                     | (Inr (msgs, hasMore), d) \<Rightarrow> reply 200 (PageBody msgs hasMore) c w d)))"

section \<open>Routes\<close>

text \<open>The path parameter of \<^verbatim>\<open>/api/v1/guilds/:id/members\<close>.\<close>

definition members_id :: "string \<Rightarrow> string option" where
  "members_id path =
     (let rest = drop 15 path; i = takeWhile (\<lambda>ch. ch \<noteq> CHR ''/'') rest
      in if take 15 path = ''/api/v1/guilds/'' \<and> i \<noteq> [] \<and> dropWhile (\<lambda>ch. ch \<noteq> CHR ''/'') rest = ''/members'' then Some i else None)"

definition protected_route :: "('d, 's) app \<Rightarrow> draws \<Rightarrow> string \<Rightarrow> string \<Rightarrow> ('d, 's) msg_world handler option" where
  "protected_route app dr meth path =
     (if meth = ''POST'' \<and> path = ''/api/v1/guilds'' then Some (handler_CreateGuild app dr)
      else if meth = ''POST'' \<and> path = ''/api/v1/guilds/join'' then Some (handler_JoinGuild app dr)
      else if meth = ''GET'' \<and> path = ''/api/v1/guilds'' then Some (handler_GetUserGuilds app dr)
      else if meth = ''GET'' \<and> members_id path \<noteq> None then Some (handler_GetGuildMembers app dr)
      else if meth = ''POST'' \<and> path = ''/api/v1/messages'' then Some (handler_SendMessage app dr)
      else if meth = ''GET'' \<and> path = ''/api/v1/messages'' then Some (handler_GetMessages app dr)
      else None)"

definition RegisterRoutes :: "('d, 's) app \<Rightarrow> draws \<Rightarrow> ('d, 's) msg_world handler \<Rightarrow> ('d, 's) msg_world handler" where
  "RegisterRoutes app dr no_route c w =
     (let meth = rq_method c; path = rq_path c;
          c1 = c\<lparr>rq_params := (case members_id path of None \<Rightarrow> [] | Some i \<Rightarrow> [(''id'', i)])\<rparr>
      in if meth = ''POST'' \<and> path = ''/api/v1/auth/register'' then handler_Register app dr c1 w
         else if meth = ''POST'' \<and> path = ''/api/v1/auth/login'' then handler_Login app dr c1 w
         else case protected_route app dr meth path of
             Some h \<Rightarrow> AuthMiddleware (a_parse app) (a_tm app) (dr_now dr) h c1 w
           | None \<Rightarrow> no_route c w)"

section \<open>Effects\<close>

context sql_database
begin

lemma query_view:
  assumes "query db t q read d = (res, d')" and "sql_step t q (view d) = (Inr rs, view d)"
  shows "view d' = view d"
proof -
  obtain r where db: "db t q d = (r, d')" using assms(1) by (auto simp: query_def split: prod.splits sum.splits)
  show ?thesis
  proof (cases r)
    case (Inl e) then show ?thesis using select_err(1) db assms(2) by blast
  next
    case (Inr x) then show ?thesis using db_ok [OF db [unfolded Inr]] assms(2) by auto
  qed
qed

lemma view_reads:
  "GetMemberGuilds db t u d = (r1, d') \<Longrightarrow> view d' = view d"
  "repo_GetGuildMembers db t g d = (r2, d') \<Longrightarrow> view d' = view d"
  "user_FindByIDs db t is d = (r3, d') \<Longrightarrow> view d' = view d"
  "FindByGuild db t g s l d = (r4, d') \<Longrightarrow> view d' = view d"
  unfolding GetMemberGuilds_def repo_GetGuildMembers_def user_FindByIDs_def FindByGuild_def
  by (rule query_view, assumption, rule sql_step.simps)+

lemma Login_view: "Login db cmp sign tm t now req d = (res, d') \<Longrightarrow> view d' = view d"
  using FindByUsername_user(1) [of t "lr_Username req" d]
  by (auto simp: Login_def split: prod.splits sum.splits option.splits if_splits)

lemma GetUserGuilds_view: "GetUserGuilds db t u d = (res, d') \<Longrightarrow> view d' = view d"
  using FindByID_user(1) [of t u d]
  by (auto simp: GetUserGuilds_def split: prod.splits sum.splits if_splits dest!: view_reads)

lemma GetGuildMembers_view: "GetGuildMembers db t g d = (res, d') \<Longrightarrow> view d' = view d"
  using FindByID_guild(1) [of t g d]
  by (auto simp: GetGuildMembers_def split: prod.splits sum.splits if_splits dest!: view_reads)

lemma GetMessagesWithUser_view: "GetMessagesWithUser db t g s l d = (res, d') \<Longrightarrow> view d' = view d"
  by (auto simp: GetMessagesWithUser_def GetMessages_def Let_def split: prod.splits sum.splits if_splits dest!: view_reads)

text \<open>Creating accounts and guilds and joining leave the messages alone.\<close>

lemma Register_messages: "Register db gen t uuid req d = (res, d') \<Longrightarrow> t_messages (view d') = t_messages (view d)"
  using Register_effect by (metis tables.ext_inject tables.surjective tables.update_convs(1))

lemma Register_members: "Register db gen t uuid req d = (res, d') \<Longrightarrow> t_members (view d') = t_members (view d)"
  using Register_effect by (metis tables.ext_inject tables.surjective tables.update_convs(1))

lemma CreateGuild_members:
  assumes "CreateGuild db t src uuid uuidm u name d = (res, d')"
  shows "set (t_members (view d)) \<subseteq> set (t_members (view d'))"
  using CreateGuild_cases [OF assms] by (cases res) (auto simp: joined_def add_guild_def)

lemma JoinGuild_members:
  assumes "JoinGuild db t uuidm u code d = (res, d')"
  shows "set (t_members (view d)) \<subseteq> set (t_members (view d'))"
  using JoinGuild_cases [OF assms] by (cases res) (auto simp: joined_def)

lemma CreateGuild_messages:
  assumes "CreateGuild db t src uuid uuidm u name d = (res, d')"
  shows "t_messages (view d') = t_messages (view d)"
  using CreateGuild_cases [OF assms] by (cases res) (auto simp: joined_def add_guild_def)

lemma JoinGuild_messages:
  assumes "JoinGuild db t uuidm u code d = (res, d')"
  shows "t_messages (view d') = t_messages (view d)"
  using JoinGuild_cases [OF assms] by (cases res) (auto simp: joined_def)

end

text \<open>What a request runs: nothing that changes the world, a handler other than \<^verbatim>\<open>SendMessage\<close>, or \<^verbatim>\<open>SendMessage\<close> for the user of a valid token.\<close>

definition other_handlers :: "('d, 's) app \<Rightarrow> draws \<Rightarrow> ('d, 's) msg_world handler set" where
  "other_handlers app dr = {handler_Register app dr, handler_Login app dr, handler_CreateGuild app dr, handler_JoinGuild app dr,
      handler_GetUserGuilds app dr, handler_GetGuildMembers app dr, handler_GetMessages app dr}"

lemma protected_route_handlers:
  "protected_route app dr meth path = Some h \<Longrightarrow> h \<in> other_handlers app dr \<or> h = handler_SendMessage app dr"
  by (auto simp: protected_route_def other_handlers_def split: if_splits)

lemma RegisterRoutes_runs:
  assumes "RegisterRoutes app dr (\<lambda>c w. Done (f c) w) c w = Done c' w'"
  shows "w' = w \<or> (\<exists>h c1. h \<in> other_handlers app dr \<and> h c1 w = Done c' w') \<or>
    (\<exists>cl c2. ParseToken (a_parse app) (a_tm app) (dr_now dr) (request_token c) = Inr cl \<and> GetString_user_id c2 = c_UserID cl \<and>
      handler_SendMessage app dr c2 w = Done c' w')"
proof -
  define c1 where "c1 = c\<lparr>rq_params := (case members_id (rq_path c) of None \<Rightarrow> [] | Some i \<Rightarrow> [(''id'', i)])\<rparr>"
  have tok: "request_token c1 = request_token c" by (simp add: c1_def)
  consider (none) "w' = w" | (public) h' where "h' \<in> other_handlers app dr" "h' c1 w = Done c' w'"
    | (gate) h where "protected_route app dr (rq_method c) (rq_path c) = Some h"
        "AuthMiddleware (a_parse app) (a_tm app) (dr_now dr) h c1 w = Done c' w'"
    using assms by (auto simp: RegisterRoutes_def Let_def c1_def other_handlers_def split: if_splits option.splits)
  then show ?thesis
  proof cases
    case gate
    note h = protected_route_handlers [OF gate(1)]
    from AuthMiddleware_cases [of "a_parse app" "a_tm app" "dr_now dr" c1 h w] show ?thesis
    proof (elim disjE exE conjE)
      fix cl assume cl: "ParseToken (a_parse app) (a_tm app) (dr_now dr) (request_token c1) = Inr cl"
        "AuthMiddleware (a_parse app) (a_tm app) (dr_now dr) h c1 w =
          h (c1\<lparr>k_user_id := Some (c_UserID cl), k_username := Some (c_UserName cl), k_email := Some (c_UserEmail cl)\<rparr>) w"
      let ?c2 = "c1\<lparr>k_user_id := Some (c_UserID cl), k_username := Some (c_UserName cl), k_email := Some (c_UserEmail cl)\<rparr>"
      have id: "GetString_user_id ?c2 = c_UserID cl" by (simp add: GetString_user_id_def)
      have run: "h ?c2 w = Done c' w'" using gate(2) cl(2) by simp
      from h show ?thesis
      proof
        assume "h \<in> other_handlers app dr" then show ?thesis using run by blast
      next
        assume "h = handler_SendMessage app dr" then show ?thesis using run id cl(1) tok by metis
      qed
    qed (use gate(2) in auto)
  qed blast+
qed

context message_store
begin

lemma handler_SendMessage_runs:
  assumes "handler_SendMessage app dr c w = Done c' w'" and "a_db app = db" and "a_exec app = exec"
  shows "w' = w \<or> (\<exists>g content res. SendMessage db exec (a_marshal app) (a_clock app) (dr_t dr) (dr_created dr) (dr_stamp dr)
    (GetString_user_id c) g content w = Some (res, w'))"
  using assms by (auto simp: handler_SendMessage_def Let_def split: sum.splits if_splits option.splits prod.splits)

lemma handler_SendMessage_effect:
  assumes "handler_SendMessage app dr c w = Done c' w'" and "a_db app = db" and "a_exec app = exec"
    and "message_inv (view (mw_db w)) (store (mw_redis w))"
  shows "message_inv (view (mw_db w')) (store (mw_redis w')) \<and> (t_messages (view (mw_db w')) = t_messages (view (mw_db w)) \<or>
    (\<exists>m. t_messages (view (mw_db w')) = t_messages (view (mw_db w)) @ [m] \<and> m_UserID m = GetString_user_id c \<and>
      member_of (view (mw_db w)) (m_GuildID m) (m_UserID m) \<and> 0 < length (m_Content m) \<and> length (m_Content m) \<le> 2000))"
proof -
  from handler_SendMessage_runs [OF assms(1-3)] show ?thesis
  proof (elim disjE exE)
    assume "w' = w" then show ?thesis using assms(4) by simp
  next
    fix g content res assume "SendMessage db exec (a_marshal app) (a_clock app) (dr_t dr) (dr_created dr) (dr_stamp dr)
      (GetString_user_id c) g content w = Some (res, w')"
    from SendMessage_stored [OF this assms(4)] show ?thesis by (auto simp: log_append_def)
  qed
qed

lemma handler_SendMessage_members:
  assumes "handler_SendMessage app dr c w = Done c' w'" and "a_db app = db" and "a_exec app = exec"
    and "message_inv (view (mw_db w)) (store (mw_redis w))"
  shows "set (t_members (view (mw_db w))) \<subseteq> set (t_members (view (mw_db w')))"
  using handler_SendMessage_runs [OF assms(1-3)]
  by (auto simp: log_append_def dest!: SendMessage_stored [OF _ assms(4)])

text \<open>Every other handler leaves the messages and Redis alone, and keeps the memberships.\<close>

lemma other_handlers_effect:
  assumes "h \<in> other_handlers app dr" and "h c w = Done c' w'" and "a_db app = db"
  shows "t_messages (view (mw_db w')) = t_messages (view (mw_db w)) \<and> mw_redis w' = mw_redis w"
proof -
  note effects = Register_messages Login_view CreateGuild_messages JoinGuild_messages GetUserGuilds_view GetGuildMembers_view
    GetMessagesWithUser_view
  show ?thesis using assms(1,2)
    by (auto simp: other_handlers_def handler_Register_def handler_Login_def handler_CreateGuild_def handler_JoinGuild_def handler_GetUserGuilds_def
        handler_GetGuildMembers_def handler_GetMessages_def reply_def Let_def assms(3) split: sum.splits prod.splits if_splits option.splits
        dest!: effects)
qed

lemma other_handlers_members:
  assumes "h \<in> other_handlers app dr" and "h c w = Done c' w'" and "a_db app = db"
  shows "set (t_members (view (mw_db w))) \<subseteq> set (t_members (view (mw_db w')))"
proof -
  note effects = Register_members Login_view CreateGuild_members JoinGuild_members GetUserGuilds_view GetGuildMembers_view
    GetMessagesWithUser_view
  show ?thesis using assms(1,2)
    by (auto simp: other_handlers_def handler_Register_def handler_Login_def handler_CreateGuild_def handler_JoinGuild_def handler_GetUserGuilds_def
        handler_GetGuildMembers_def handler_GetMessages_def reply_def Let_def assms(3) split: sum.splits prod.splits if_splits option.splits
        dest!: effects; blast)
qed

lemma RegisterRoutes_messages:
  assumes "RegisterRoutes app dr (\<lambda>c w. Done (f c) w) c w = Done c' w'" and "a_db app = db" and "a_exec app = exec"
    and "message_inv (view (mw_db w)) (store (mw_redis w))"
  shows "message_inv (view (mw_db w')) (store (mw_redis w')) \<and> (t_messages (view (mw_db w')) = t_messages (view (mw_db w)) \<or>
    (\<exists>cl m. ParseToken (a_parse app) (a_tm app) (dr_now dr) (request_token c) = Inr cl \<and>
      t_messages (view (mw_db w')) = t_messages (view (mw_db w)) @ [m] \<and> m_UserID m = c_UserID cl \<and>
      member_of (view (mw_db w)) (m_GuildID m) (c_UserID cl) \<and> 0 < length (m_Content m) \<and> length (m_Content m) \<le> 2000))"
proof -
  have untouched: ?thesis if "t_messages (view (mw_db w')) = t_messages (view (mw_db w))" "mw_redis w' = mw_redis w"
    using that assms(4) by (simp add: message_inv_def)
  from RegisterRoutes_runs [OF assms(1)] show ?thesis
  proof (elim disjE exE conjE)
    assume "w' = w" then show ?thesis using untouched by simp
  next
    fix h c1 assume "h \<in> other_handlers app dr" "h c1 w = Done c' w'"
    from other_handlers_effect [OF this assms(2)] show ?thesis using untouched by blast
  next
    fix cl c2 assume cl: "ParseToken (a_parse app) (a_tm app) (dr_now dr) (request_token c) = Inr cl" "GetString_user_id c2 = c_UserID cl"
      "handler_SendMessage app dr c2 w = Done c' w'"
    from handler_SendMessage_effect [OF cl(3) assms(2-4), unfolded cl(2)] show ?thesis using cl(1) by auto
  qed
qed

lemma RegisterRoutes_members:
  assumes "RegisterRoutes app dr (\<lambda>c w. Done (f c) w) c w = Done c' w'" and "a_db app = db" and "a_exec app = exec"
    and "message_inv (view (mw_db w)) (store (mw_redis w))"
  shows "set (t_members (view (mw_db w))) \<subseteq> set (t_members (view (mw_db w')))"
  using RegisterRoutes_runs [OF assms(1)] other_handlers_members [OF _ _ assms(2)] handler_SendMessage_members [OF _ assms(2-4)] by blast

end

section \<open>Properties\<close>

definition public_route :: "string \<Rightarrow> string \<Rightarrow> bool" where
  "public_route meth path \<longleftrightarrow> meth = ''POST'' \<and> path \<in> {''/api/v1/auth/register'', ''/api/v1/auth/login''}"

definition demo_app :: "(tables, rstate) app" where
  "demo_app = \<lparr>a_db = sql_step, a_exec = redis_run, a_marshal = demo_marshal, a_clock = demo_clock, a_gen = demo_bcrypt_gen,
     a_cmp = demo_bcrypt_cmp, a_sign = demo_sign, a_parse = demo_parse, a_tm = demo_tm,
     bind_RegisterRequest = (\<lambda>_. Inr demo_request), bind_LoginRequest = (\<lambda>_. Inl (Err ''EOF'')),
     bind_CreateGuildRequest = Inr, bind_invite_code = Inr,
     bind_SendMessageRequest = (\<lambda>b. Inr \<lparr>sm_UserID = ''id-2'', sm_GuildID = ''g-1'', sm_Content = b\<rparr>)\<rparr>"

definition demo_draws :: draws where
  "demo_draws = \<lparr>dr_t = 7, dr_now = 1, dr_created = 9, dr_stamp = 8, dr_uuid = ''u'', dr_uuidm = ''v'', dr_src = demo_src\<rparr>"

definition demo_get :: "string \<Rightarrow> string \<Rightarrow> string \<Rightarrow> string \<Rightarrow> gin_context" where
  "demo_get meth path token body =
     \<lparr>rq_method = meth, rq_path = path, rq_query = [], rq_params = [],
      rq_header = [(''Authorization'', ''Bearer '' @ token)], rq_body = body, rq_ip = ''10.0.0.1'',
      k_user_id = None, k_username = None, k_email = None, rs_status = None, rs_header = [], rs_bodies = [], rs_aborted = False,
      logs = []\<rparr>"

lemma demo_route:
  "protected_route demo_app demo_draws ''POST'' ''/api/v1/messages'' = Some (handler_SendMessage demo_app demo_draws)"
  "\<not> public_route ''POST'' ''/api/v1/messages''"
  by (simp_all add: protected_route_def public_route_def)

text \<open>A message posted with the token of a member is stored.\<close>

lemma demo_post:
  "\<exists>tok c' w'. RegisterRoutes demo_app demo_draws (\<lambda>c w. Done (id c) w) (demo_get ''POST'' ''/api/v1/messages'' tok ''hi'') demo_world = Done c' w' \<and>
     mw_db w' = log_append demo_tables (MessageService.demo_message 1) \<and>
     ParseToken demo_parse demo_tm 1 (request_token (demo_get ''POST'' ''/api/v1/messages'' tok ''hi'')) = Inr (token_claims demo_tm 0 ''id-1'' ''ann'' ''a@x'')"
proof -
  obtain tok where tok: "GenerateToken demo_sign demo_tm 0 ''id-1'' ''ann'' ''a@x'' = Inr tok" "tok \<noteq> []"
    by (simp add: GenerateToken_def demo_sign_def demo_tm_def)
  let ?c = "demo_get ''POST'' ''/api/v1/messages'' tok ''hi''"
  have rt: "request_token ?c = tok"
    using tok(2) SplitN_space_Bearer [of tok] by (simp add: request_token_def demo_get_def lookup_str_def)
  have parsed: "ParseToken demo_parse demo_tm 1 tok = Inr (token_claims demo_tm 0 ''id-1'' ''ann'' ''a@x'')"
    using demo_jwt.ParseToken_generated [OF tok(1), of 1] by (simp add: valid_utf8_ascii NewNumericDate_def demo_tm_def)
  obtain w' where send: "SendMessage sql_step redis_run demo_marshal demo_clock 7 9 8 ''id-1'' ''g-1'' ''hi'' demo_world =
      Some (Inr (MessageService.demo_message 1), w')" using demo_SendMessage by blast
  have db: "mw_db w' = log_append demo_tables (MessageService.demo_message 1)"
    using ref_store.SendMessage_cases [OF send] demo_world_inv by (simp add: demo_world_def)
  define c1 where "c1 = ?c\<lparr>rq_params := (case members_id (rq_path ?c) of None \<Rightarrow> [] | Some i \<Rightarrow> [(''id'', i)])\<rparr>"
  have rt1: "request_token c1 = tok" using rt by (simp add: c1_def)
  have "RegisterRoutes demo_app demo_draws (\<lambda>c w. Done (id c) w) ?c demo_world =
      AuthMiddleware demo_parse demo_tm 1 (handler_SendMessage demo_app demo_draws) c1 demo_world"
    using demo_route(1) by (simp add: RegisterRoutes_def Let_def c1_def demo_get_def) (simp add: demo_app_def demo_draws_def)
  also have "\<dots> = handler_SendMessage demo_app demo_draws
      (c1\<lparr>k_user_id := Some ''id-1'', k_username := Some ''ann'', k_email := Some ''a@x''\<rparr>) demo_world"
    using rt1 tok(2) parsed by (simp add: AuthMiddleware_def Let_def token_claims_def)
  finally have "\<exists>c'. RegisterRoutes demo_app demo_draws (\<lambda>c w. Done (id c) w) ?c demo_world = Done c' w'"
    using send by (simp add: handler_SendMessage_def GetString_user_id_def c1_def demo_get_def Let_def demo_app_def demo_draws_def)
  then show ?thesis using db parsed rt by metis
qed

end
