(* ===== verification/Grpc.thy ===== *)
theory Grpc
  imports GatewayHandler MessageService
begin

text \<open>
  The gRPC services of \<^verbatim>\<open>internal/pkg/grpc\<close>: users, guilds, messages and the gateway, the gateway client, and the
  logging interceptors.  A call returns a response or a status with a code; the transport between client and
  server is an argument of the client.  Timestamps in responses are Unix seconds.
\<close>

section \<open>Statuses\<close>

datatype grpc_code = OK | InvalidArgument | NotFound | Internal

type_synonym 'a rpc = "(grpc_code \<times> string) + 'a"

definition unix_seconds :: "int \<Rightarrow> int" where
  "unix_seconds t = t div 10 ^ 9"

text \<open>The logging interceptors hand the call on and log the code of its status.\<close>

definition unaryLoggingInterceptor :: "string \<Rightarrow> ('q \<Rightarrow> 's \<Rightarrow> 'a rpc \<times> 's) \<Rightarrow> 'q \<Rightarrow> 's \<Rightarrow> 'a rpc \<times> 's \<times> (string \<times> grpc_code)" where
  "unaryLoggingInterceptor fullMethod handler req s =
     (let (resp, s') = handler req s;
          code = (case resp of Inl (st, m) \<Rightarrow> st | Inr _ \<Rightarrow> OK)
      in (resp, s', (fullMethod, code)))"

definition streamLoggingInterceptor :: "string \<Rightarrow> ('s \<Rightarrow> (grpc_code \<times> string) option \<times> 's) \<Rightarrow> 's
    \<Rightarrow> (grpc_code \<times> string) option \<times> 's \<times> (string \<times> grpc_code)" where
  "streamLoggingInterceptor fullMethod handler s =
     (let (err, s') = handler s;
          code = (case err of Some (st, m) \<Rightarrow> st | None \<Rightarrow> OK)
      in (err, s', (fullMethod, code)))"

section \<open>The server\<close>

text \<open>\<open>listen\<close> is \<^verbatim>\<open>net.Listen\<close>, \<open>serve\<close> and \<open>gracefulStop\<close> are the grpc library's, over its own state.  \<^verbatim>\<open>Start\<close> and \<^verbatim>\<open>Stop\<close> return the
  line they log first.\<close>

record 'l grpc_server =
  gsv_listener :: 'l
  gsv_address :: string

definition NewServer :: "(string \<Rightarrow> string \<Rightarrow> 'l result) \<Rightarrow> string \<Rightarrow> 'l grpc_server result" where
  "NewServer listen address =
     (case listen ''tcp'' address of
        Inl err \<Rightarrow> Inl (Wrap ''failed to listen'' err)
      | Inr listener \<Rightarrow> Inr \<lparr>gsv_listener = listener, gsv_address = address\<rparr>)"

definition server_Start :: "('l \<Rightarrow> 'n \<Rightarrow> go_error option \<times> 'n) \<Rightarrow> 'l grpc_server \<Rightarrow> 'n \<Rightarrow> string \<times> go_error option \<times> 'n" where
  "server_Start serve s n = (''Starting gRPC server on '' @ gsv_address s, serve (gsv_listener s) n)"

definition server_Stop :: "('n \<Rightarrow> 'n) \<Rightarrow> 'n \<Rightarrow> string \<times> 'n" where
  "server_Stop gracefulStop n = (''Stopping gRPC server'', gracefulStop n)"

section \<open>Users\<close>

record get_user_response =
  gu_UserId :: string
  gu_Username :: string
  gu_HubId :: string
  gu_CreatedAt :: int

definition user_response :: "user \<Rightarrow> get_user_response" where
  "user_response u = \<lparr>gu_UserId = u_ID u, gu_Username = u_UserName u, gu_HubId = u_HubID u, gu_CreatedAt = unix_seconds (u_CreatedAt u)\<rparr>"

definition GetUser :: "'d database \<Rightarrow> int \<Rightarrow> string \<Rightarrow> 'd \<Rightarrow> get_user_response rpc \<times> 'd" where
  "GetUser db t userId d =
     (if userId = [] then (Inl (InvalidArgument, ''user_id is required''), d)
      else case user_FindByID db t userId d of
          (Inl err, d1) \<Rightarrow> (Inl (NotFound, ''user not found''), d1)
        | (Inr user, d1) \<Rightarrow> (Inr (user_response user), d1))"

fun batch_users_loop :: "'d database \<Rightarrow> int \<Rightarrow> string list \<Rightarrow> get_user_response list \<Rightarrow> 'd \<Rightarrow> get_user_response list \<times> 'd" where
  "batch_users_loop db t [] users d = (users, d)"
| "batch_users_loop db t (userID # ids) users d =
     (case user_FindByID db t userID d of
        (Inl err, d1) \<Rightarrow> batch_users_loop db t ids users d1
      | (Inr user, d1) \<Rightarrow> batch_users_loop db t ids (users @ [user_response user]) d1)"

definition BatchGetUsers :: "'d database \<Rightarrow> int \<Rightarrow> string list \<Rightarrow> 'd \<Rightarrow> get_user_response list rpc \<times> 'd" where
  "BatchGetUsers db t userIds d =
     (if userIds = [] then (Inr [], d)
      else let (users, d') = batch_users_loop db t userIds [] d in (Inr users, d'))"

text \<open>\<^verbatim>\<open>UpdateUserStatus\<close> does not update anything yet.\<close>

definition UpdateUserStatus :: "string \<Rightarrow> bool rpc" where
  "UpdateUserStatus userId =
     (if userId = [] then Inl (InvalidArgument, ''user_id is required'') else Inr True)"

section \<open>Guilds\<close>

record get_guild_response =
  gg_GuildId :: string
  gg_Name :: string
  gg_OwnerId :: string
  gg_InviteCode :: string
  gg_CreatedAt :: int

definition GetGuild :: "'d database \<Rightarrow> int \<Rightarrow> string \<Rightarrow> 'd \<Rightarrow> get_guild_response rpc \<times> 'd" where
  "GetGuild db t guildId d =
     (if guildId = [] then (Inl (InvalidArgument, ''guild_id is required''), d)
      else case guild_FindByID db t guildId d of
          (Inl err, d1) \<Rightarrow> (Inl (NotFound, ''guild not found''), d1)
        | (Inr guild, d1) \<Rightarrow>
            (Inr \<lparr>gg_GuildId = g_ID guild, gg_Name = g_Name guild, gg_OwnerId = g_OwnerID guild,
                  gg_InviteCode = g_InviteCode guild, gg_CreatedAt = unix_seconds (g_CreatedAt guild)\<rparr>, d1))"

record guild_members_response =
  gr_UserIds :: "string list"
  gr_TotalCount :: int

definition rpc_GetGuildMembers :: "'d database \<Rightarrow> int \<Rightarrow> string \<Rightarrow> 'd \<Rightarrow> guild_members_response rpc \<times> 'd" where
  "rpc_GetGuildMembers db t guildId d =
     (if guildId = [] then (Inl (InvalidArgument, ''guild_id is required''), d)
      else case GetMembers db t guildId d of
          (Inl err, d1) \<Rightarrow> (Inl (Internal, error_text err), d1)
        | (Inr members, d1) \<Rightarrow>
            (Inr \<lparr>gr_UserIds = map gm_UserID members, gr_TotalCount = wrap32 (int (length (map gm_UserID members)))\<rparr>, d1))"

record check_membership_response =
  cm_IsMember :: bool
  cm_JoinedAt :: int

definition CheckMembership :: "'d database \<Rightarrow> int \<Rightarrow> string \<Rightarrow> string \<Rightarrow> 'd \<Rightarrow> check_membership_response rpc \<times> 'd" where
  "CheckMembership db t userId guildId d =
     (if userId = [] then (Inl (InvalidArgument, ''user_id is required''), d)
      else if guildId = [] then (Inl (InvalidArgument, ''guild_id is required''), d)
      else case repo_IsMember db t guildId userId d of
          (Inl err, d1) \<Rightarrow> (Inl (Internal, error_text err), d1)
        | (Inr isMember, d1) \<Rightarrow> (Inr \<lparr>cm_IsMember = isMember, cm_JoinedAt = 0\<rparr>, d1))"

section \<open>Messages\<close>

record send_message_response =
  sr_Message :: "ws_message option"
  sr_Error :: string

definition rpc_message :: "message \<Rightarrow> string \<Rightarrow> ws_message" where
  "rpc_message m username = pb_message m (unix_seconds (m_CreatedAt m)) username"

definition rpc_SendMessage :: "'d database \<Rightarrow> 's redis \<Rightarrow> ws_marshal \<Rightarrow> (nat \<Rightarrow> int) \<Rightarrow> int \<Rightarrow> int \<Rightarrow> int \<Rightarrow> string \<Rightarrow> string \<Rightarrow> string \<Rightarrow>
    ('d, 's) msg_world \<Rightarrow> (send_message_response rpc \<times> ('d, 's) msg_world) option" where
  "rpc_SendMessage db exec marshal clock t created stamp userId guildId content w =
     (if userId = [] then Some (Inl (InvalidArgument, ''user_id is required''), w)
      else if guildId = [] then Some (Inl (InvalidArgument, ''guild_id is required''), w)
      else if content = [] then Some (Inl (InvalidArgument, ''content is required''), w)
      else case SendMessage db exec marshal clock t created stamp userId guildId content w of
          None \<Rightarrow> None
        | Some (Inl err, w') \<Rightarrow> Some (Inr \<lparr>sr_Message = None, sr_Error = error_text err\<rparr>, w')
        | Some (Inr message, w') \<Rightarrow> Some (Inr \<lparr>sr_Message = Some (rpc_message message []), sr_Error = []\<rparr>, w'))"

definition GetHistory :: "'d database \<Rightarrow> int \<Rightarrow> history_request \<Rightarrow> 'd \<Rightarrow> history_response rpc \<times> 'd" where
  "GetHistory db t req d =
     (if hq_GuildId req = [] then (Inl (InvalidArgument, ''guild_id is required''), d)
      else case GetMessagesWithUser db t (hq_GuildId req) (hq_LastSeqId req) (hq_Limit req) d of
          (Inl err, d1) \<Rightarrow> (Inl (Internal, error_text err), d1)
        | (Inr (msgs, hasMore), d1) \<Rightarrow>
            (Inr \<lparr>hp_Messages = map (\<lambda>mu. rpc_message (mu_Message mu) (mu_Username mu)) msgs, hp_HasMore = hasMore\<rparr>, d1))"

definition rpc_BatchGetMessages :: "'d database \<Rightarrow> int \<Rightarrow> string list \<Rightarrow> 'd \<Rightarrow> ws_message list rpc \<times> 'd" where
  "rpc_BatchGetMessages db t messageIds d =
     (if messageIds = [] then (Inr [], d)
      else case BatchGetMessages db t messageIds d of
          (Inl err, d1) \<Rightarrow> (Inl (Internal, error_text err), d1)
        | (Inr msgs, d1) \<Rightarrow> (Inr (map (\<lambda>m. rpc_message m []) msgs), d1))"

section \<open>The gateway\<close>

record gateway_server =
  gs_nodeID :: string
  gs_address :: string
  gs_startTime :: int

definition NewGatewayServer :: "int \<Rightarrow> string \<Rightarrow> string \<Rightarrow> gateway_server" where
  "NewGatewayServer now nodeID address = \<lparr>gs_nodeID = nodeID, gs_address = address, gs_startTime = now\<rparr>"

record push_response =
  pr_Success :: bool
  pr_Error :: string

text \<open>Writing to the connection at an index of the heap.\<close>

definition write_conn :: "'r manager_config \<Rightarrow> string \<Rightarrow> nat \<Rightarrow> 'r gateway \<Rightarrow> go_error option \<times> 'r gateway" where
  "write_conn cfg data i g =
     (fst (WriteMessage (mc_sockWrite cfg) BinaryMessage data (gw_heap g ! i)),
      upd_conn i (\<lambda>c. snd (WriteMessage (mc_sockWrite cfg) BinaryMessage data c)) g)"

definition PushMessage :: "'r manager_config \<Rightarrow> ws_marshal \<Rightarrow> string \<Rightarrow> ws_message option \<Rightarrow> 'r gateway \<Rightarrow> push_response rpc \<times> 'r gateway" where
  "PushMessage cfg marshal userId msg g =
     (if userId = [] then (Inl (InvalidArgument, ''user_id is required''), g)
      else case msg of
          None \<Rightarrow> (Inl (InvalidArgument, ''message is required''), g)
        | Some m \<Rightarrow>
            (case GetConnection userId g of
               None \<Rightarrow> (Inr \<lparr>pr_Success = False, pr_Error = ''user not connected to this gateway''\<rparr>, g)
             | Some i \<Rightarrow>
                 (case marshal m of
                    Inl err \<Rightarrow> (Inr \<lparr>pr_Success = False, pr_Error = ''failed to marshal message: '' @ error_text err\<rparr>, g)
                  | Inr data \<Rightarrow>
                      (case write_conn cfg data i g of
                         (Some err, g') \<Rightarrow> (Inr \<lparr>pr_Success = False, pr_Error = ''failed to push message: '' @ error_text err\<rparr>, g')
                       | (None, g') \<Rightarrow> (Inr \<lparr>pr_Success = True, pr_Error = []\<rparr>, g')))))"

record broadcast_response =
  br_DeliveredCount :: int
  br_FailedUserIds :: "string list"

fun broadcast_loop :: "'r manager_config \<Rightarrow> string list \<Rightarrow> string \<Rightarrow> nat list \<Rightarrow> int \<Rightarrow> string list \<Rightarrow> 'r gateway \<Rightarrow>
    (int \<times> string list) \<times> 'r gateway" where
  "broadcast_loop cfg exclude data [] deliveredCount failed g = ((deliveredCount, failed), g)"
| "broadcast_loop cfg exclude data (i # is) deliveredCount failed g =
     (if cn_UserID (gw_heap g ! i) \<in> set exclude then broadcast_loop cfg exclude data is deliveredCount failed g
      else case write_conn cfg data i g of
          (Some err, g') \<Rightarrow> broadcast_loop cfg exclude data is deliveredCount (failed @ [cn_UserID (gw_heap g ! i)]) g'
        | (None, g') \<Rightarrow> broadcast_loop cfg exclude data is (wrap32 (deliveredCount + 1)) failed g')"

definition BroadcastToGuild :: "'r manager_config \<Rightarrow> ws_marshal \<Rightarrow> string \<Rightarrow> ws_message option \<Rightarrow> string list \<Rightarrow> 'r gateway \<Rightarrow>
    broadcast_response rpc \<times> 'r gateway" where
  "BroadcastToGuild cfg marshal guildId msg exclude g =
     (if guildId = [] then (Inl (InvalidArgument, ''guild_id is required''), g)
      else case msg of
          None \<Rightarrow> (Inl (InvalidArgument, ''message is required''), g)
        | Some m \<Rightarrow>
            (case marshal m of
               Inl err \<Rightarrow> (Inl (Internal, ''failed to marshal message: '' @ error_text err), g)
             | Inr data \<Rightarrow>
                 (let ((n, failed), g') = broadcast_loop cfg exclude data (GetConnectionsByGuild guildId g) 0 [] g
                  in (Inr \<lparr>br_DeliveredCount = n, br_FailedUserIds = failed\<rparr>, g'))))"

record user_status_response =
  us_Online :: bool
  us_GatewayNode :: string

definition CheckUserOnline :: "gateway_server \<Rightarrow> string \<Rightarrow> 'r gateway \<Rightarrow> user_status_response rpc" where
  "CheckUserOnline srv userId g =
     (if userId = [] then Inl (InvalidArgument, ''user_id is required'')
      else Inr \<lparr>us_Online = (GetConnection userId g \<noteq> None), us_GatewayNode = gs_address srv\<rparr>)"

record node_info_response =
  ni_NodeId :: string
  ni_Address :: string
  ni_ConnectionCount :: int
  ni_UptimeSeconds :: int

definition GetNodeInfo :: "gateway_server \<Rightarrow> int \<Rightarrow> 'r gateway \<Rightarrow> node_info_response rpc" where
  "GetNodeInfo srv now g =
     Inr \<lparr>ni_NodeId = gs_nodeID srv, ni_Address = gs_address srv,
          ni_ConnectionCount = wrap32 (int (length (GetAllConnections g))),
          ni_UptimeSeconds = (now - gs_startTime srv) sdiv 10 ^ 9\<rparr>"

definition HealthCheck :: "(bool \<times> string) rpc" where
  "HealthCheck = Inr (True, ''ok'')"

section \<open>The gateway client\<close>

text \<open>A client is its connection; \<open>dial\<close> blocks for at most 5 seconds.\<close>

definition NewGatewayClient :: "(string \<Rightarrow> 'n \<Rightarrow> 'c result \<times> 'n) \<Rightarrow> string \<Rightarrow> 'n \<Rightarrow> 'c option result \<times> 'n" where
  "NewGatewayClient dial address n =
     (case dial address n of
        (Inl err, n') \<Rightarrow> (Inl (Wrap ''failed to connect to gateway'' err), n')
      | (Inr conn, n') \<Rightarrow> (Inr (Some conn), n'))"

definition client_Close :: "('c \<Rightarrow> 'n \<Rightarrow> go_error option \<times> 'n) \<Rightarrow> 'c option \<Rightarrow> 'n \<Rightarrow> go_error option \<times> 'n" where
  "client_Close close conn n = (case conn of Some c \<Rightarrow> close c n | None \<Rightarrow> (None, n))"

text \<open>\<open>err\<close> turns a status into the error the generated stub returns.\<close>

definition client_PushMessage :: "(string \<Rightarrow> ws_message option \<Rightarrow> 's \<Rightarrow> push_response rpc \<times> 's) \<Rightarrow> (grpc_code \<times> string \<Rightarrow> go_error) \<Rightarrow>
    string \<Rightarrow> ws_message \<Rightarrow> 's \<Rightarrow> go_error option \<times> 's" where
  "client_PushMessage call err userID msg s =
     (case call userID (Some msg) s of
        (Inl st, s') \<Rightarrow> (Some (Wrap ''grpc call failed'' (err st)), s')
      | (Inr resp, s') \<Rightarrow>
          if \<not> pr_Success resp then (Some (Err (''push failed: '' @ pr_Error resp)), s') else (None, s'))"

definition client_BroadcastToGuild :: "(string \<Rightarrow> ws_message option \<Rightarrow> string list \<Rightarrow> 's \<Rightarrow> broadcast_response rpc \<times> 's) \<Rightarrow>
    (grpc_code \<times> string \<Rightarrow> go_error) \<Rightarrow> string \<Rightarrow> ws_message \<Rightarrow> string list \<Rightarrow> 's \<Rightarrow> (int \<times> go_error option) \<times> 's" where
  "client_BroadcastToGuild call err guildID msg excludeUserIDs s =
     (case call guildID (Some msg) excludeUserIDs s of
        (Inl st, s') \<Rightarrow> ((0, Some (Wrap ''grpc call failed'' (err st))), s')
      | (Inr resp, s') \<Rightarrow> ((br_DeliveredCount resp, None), s'))"

definition client_CheckUserOnline :: "(string \<Rightarrow> user_status_response rpc) \<Rightarrow> (grpc_code \<times> string \<Rightarrow> go_error) \<Rightarrow> string \<Rightarrow> (bool \<times> string) result" where
  "client_CheckUserOnline call err userID =
     (case call userID of
        Inl st \<Rightarrow> Inl (Wrap ''grpc call failed'' (err st))
      | Inr resp \<Rightarrow> Inr (us_Online resp, us_GatewayNode resp))"

definition client_GetNodeInfo :: "node_info_response rpc \<Rightarrow> (grpc_code \<times> string \<Rightarrow> go_error) \<Rightarrow> node_info_response result" where
  "client_GetNodeInfo answer err = (case answer of Inl st \<Rightarrow> Inl (Wrap ''grpc call failed'' (err st)) | Inr resp \<Rightarrow> Inr resp)"

definition client_HealthCheck :: "(bool \<times> string) rpc \<Rightarrow> (grpc_code \<times> string \<Rightarrow> go_error) \<Rightarrow> bool result" where
  "client_HealthCheck answer err = (case answer of Inl st \<Rightarrow> Inl (Wrap ''grpc call failed'' (err st)) | Inr (healthy, status) \<Rightarrow> Inr healthy)"

section \<open>Delivery\<close>

text \<open>Whether a write to a connection succeeds, and what it does.\<close>

definition writable :: "'r manager_config \<Rightarrow> string \<Rightarrow> connection \<Rightarrow> bool" where
  "writable cfg data c \<longleftrightarrow> \<not> cn_closed c \<and> mc_sockWrite cfg c BinaryMessage data = None"

definition written_to :: "string \<Rightarrow> connection \<Rightarrow> connection" where
  "written_to data c = c\<lparr>cn_written := cn_written c @ [(BinaryMessage, data)]\<rparr>"

lemma write_conn_cases:
  "fst (write_conn cfg data i g) = None \<longleftrightarrow> writable cfg data (gw_heap g ! i)"
  "snd (write_conn cfg data i g) = upd_conn i (\<lambda>c. if writable cfg data c then written_to data c else c) g"
  by (auto simp: write_conn_def WriteMessage_def IsClosed_def writable_def written_to_def upd_conn_def split: option.split)

lemma wrap32_id: "0 \<le> n \<Longrightarrow> n < 2 ^ 31 \<Longrightarrow> wrap32 n = n"
  by (simp add: wrap32_def signed_take_bit_int_eq_self)

lemma broadcast_loop_spec:
  assumes "distinct is" and "\<forall>i \<in> set is. i < length (gw_heap g)" and "0 \<le> n" and "n + int (length is) < 2 ^ 31"
  shows "\<exists>g'. broadcast_loop cfg exclude data is n failed g =
      ((n + int (length (filter (\<lambda>i. cn_UserID (gw_heap g ! i) \<notin> set exclude \<and> writable cfg data (gw_heap g ! i)) is)),
        failed @ map (\<lambda>i. cn_UserID (gw_heap g ! i))
          (filter (\<lambda>i. cn_UserID (gw_heap g ! i) \<notin> set exclude \<and> \<not> writable cfg data (gw_heap g ! i)) is)), g') \<and>
    gw_conns g' = gw_conns g \<and> length (gw_heap g') = length (gw_heap g) \<and>
    (\<forall>j < length (gw_heap g). gw_heap g' ! j =
      (if j \<in> set is \<and> cn_UserID (gw_heap g ! j) \<notin> set exclude \<and> writable cfg data (gw_heap g ! j)
       then written_to data (gw_heap g ! j) else gw_heap g ! j))"
  using assms
proof (induction "is" arbitrary: n failed g)
  case (Cons i "is")
  define g1 where "g1 = (if cn_UserID (gw_heap g ! i) \<in> set exclude then g else snd (write_conn cfg data i g))"
  define n1 where "n1 = (if cn_UserID (gw_heap g ! i) \<notin> set exclude \<and> writable cfg data (gw_heap g ! i) then n + 1 else n)"
  define f1 where "f1 = (if cn_UserID (gw_heap g ! i) \<notin> set exclude \<and> \<not> writable cfg data (gw_heap g ! i)
    then failed @ [cn_UserID (gw_heap g ! i)] else failed)"
  have n: "wrap32 (n + 1) = n + 1" using Cons.prems(3,4) by (intro wrap32_id) auto
  have n1: "0 \<le> n1" "n1 + int (length is) < 2 ^ 31" using Cons.prems(3,4) by (simp_all add: n1_def)
  have step: "broadcast_loop cfg exclude data (i # is) n failed g = broadcast_loop cfg exclude data is n1 f1 g1"
    using write_conn_cases(1) [of cfg data i g] n by (auto simp: g1_def n1_def f1_def split: prod.split option.split)
  have g1: "gw_conns g1 = gw_conns g" "length (gw_heap g1) = length (gw_heap g)"
    "\<And>j. j < length (gw_heap g) \<Longrightarrow> gw_heap g1 ! j = (if j = i \<and> cn_UserID (gw_heap g ! i) \<notin> set exclude \<and>
        writable cfg data (gw_heap g ! i) then written_to data (gw_heap g ! i) else gw_heap g ! j)"
    by (auto simp: g1_def write_conn_cases(2) upd_conn_nth)
  have same: "gw_heap g1 ! j = gw_heap g ! j" if "j \<in> set is" for j
    using g1(3) [of j] Cons.prems(1,2) that by auto
  have filt: "filter (\<lambda>j. P (gw_heap g1 ! j)) is = filter (\<lambda>j. P (gw_heap g ! j)) is" for P
    using same by (intro filter_cong) auto
  have mapf: "map (\<lambda>j. cn_UserID (gw_heap g1 ! j)) (filter Q is) = map (\<lambda>j. cn_UserID (gw_heap g ! j)) (filter Q is)" for Q
    using same by (intro map_cong) auto
  obtain g' where IH: "broadcast_loop cfg exclude data is n1 f1 g1 =
      ((n1 + int (length (filter (\<lambda>i. cn_UserID (gw_heap g1 ! i) \<notin> set exclude \<and> writable cfg data (gw_heap g1 ! i)) is)),
        f1 @ map (\<lambda>i. cn_UserID (gw_heap g1 ! i))
          (filter (\<lambda>i. cn_UserID (gw_heap g1 ! i) \<notin> set exclude \<and> \<not> writable cfg data (gw_heap g1 ! i)) is)), g')"
    and g': "gw_conns g' = gw_conns g1" "length (gw_heap g') = length (gw_heap g1)"
      "\<forall>j < length (gw_heap g1). gw_heap g' ! j =
        (if j \<in> set is \<and> cn_UserID (gw_heap g1 ! j) \<notin> set exclude \<and> writable cfg data (gw_heap g1 ! j)
         then written_to data (gw_heap g1 ! j) else gw_heap g1 ! j)"
    using Cons.IH [OF _ _ n1, of g1 f1] Cons.prems(1,2) g1(2) by auto
  have heap: "gw_heap g' ! j =
      (if j \<in> set (i # is) \<and> cn_UserID (gw_heap g ! j) \<notin> set exclude \<and> writable cfg data (gw_heap g ! j)
       then written_to data (gw_heap g ! j) else gw_heap g ! j)" if "j < length (gw_heap g)" for j
    using g'(3) g1(2,3) same Cons.prems(1) that by (cases "j = i"; cases "j \<in> set is") auto
  show ?case
    unfolding step IH filt [of "\<lambda>c. cn_UserID c \<notin> set exclude \<and> writable cfg data c"]
      filt [of "\<lambda>c. cn_UserID c \<notin> set exclude \<and> \<not> writable cfg data c"] mapf
    using g' g1(1,2) heap by (auto simp: n1_def f1_def)
qed simp

section \<open>Properties\<close>

text \<open>C37. In a gateway that satisfies its invariant, \<^verbatim>\<open>BroadcastToGuild\<close> writes the encoded message once to the
  socket of every registered connection of the guild whose user is not excluded and whose socket takes it,
  and to no other; the count it returns is the number of these, and it names exactly the users whose socket failed (up
  to \<open>2^31\<close> connections).\<close>

theorem BroadcastToGuild_spec:
  assumes "gw_inv g" and "guildId \<noteq> []" and "marshal m = Inr data" and "length (gw_conns g) < 2 ^ 31"
  shows "\<exists>g' targets. BroadcastToGuild cfg marshal guildId (Some m) exclude g =
      (Inr \<lparr>br_DeliveredCount = int (length (filter (\<lambda>i. writable cfg data (gw_heap g ! i)) targets)),
            br_FailedUserIds = map (\<lambda>i. cn_UserID (gw_heap g ! i)) (filter (\<lambda>i. \<not> writable cfg data (gw_heap g ! i)) targets)\<rparr>, g') \<and>
    distinct targets \<and>
    (\<forall>j. j \<in> set targets \<longleftrightarrow> GetConnection (cn_UserID (gw_heap g ! j)) g = Some j \<and>
      cn_GuildID (gw_heap g ! j) = guildId \<and> cn_UserID (gw_heap g ! j) \<notin> set exclude) \<and>
    (\<forall>j < length (gw_heap g). gw_heap g' ! j =
      (if j \<in> set targets \<and> writable cfg data (gw_heap g ! j) then written_to data (gw_heap g ! j) else gw_heap g ! j))"
proof -
  let ?is = "GetConnectionsByGuild guildId g"
  define targets where "targets = filter (\<lambda>i. cn_UserID (gw_heap g ! i) \<notin> set exclude) ?is"
  have dist: "distinct ?is" by (rule distinct_GetConnectionsByGuild [OF assms(1)])
  have member: "j \<in> set ?is \<longleftrightarrow> GetConnection (cn_UserID (gw_heap g ! j)) g = Some j \<and> cn_GuildID (gw_heap g ! j) = guildId" for j
    using gw_inv_mapped(2) [OF assms(1)] mapped_iff [OF assms(1)] unfolding set_GetConnectionsByGuild by metis
  have idx: "\<forall>i \<in> set ?is. i < length (gw_heap g)"
    using gw_invD(1) [OF assms(1)] member by (auto simp: GetConnection_def)
  have "length ?is \<le> length (gw_conns g)" by (simp add: GetConnectionsByGuild_def)
  then have "0 + int (length ?is) < 2 ^ 31" using assms(4) by simp
  from broadcast_loop_spec [OF dist idx _ this, of cfg exclude data "[]"]
  obtain g' where loop: "broadcast_loop cfg exclude data ?is 0 [] g =
      ((int (length (filter (\<lambda>i. writable cfg data (gw_heap g ! i)) targets)),
        map (\<lambda>i. cn_UserID (gw_heap g ! i)) (filter (\<lambda>i. \<not> writable cfg data (gw_heap g ! i)) targets)), g')"
    and heap: "\<forall>j < length (gw_heap g). gw_heap g' ! j =
      (if j \<in> set ?is \<and> cn_UserID (gw_heap g ! j) \<notin> set exclude \<and> writable cfg data (gw_heap g ! j)
       then written_to data (gw_heap g ! j) else gw_heap g ! j)"
    by (auto simp: targets_def filter_filter conj_commute)
  have "BroadcastToGuild cfg marshal guildId (Some m) exclude g =
      (Inr \<lparr>br_DeliveredCount = int (length (filter (\<lambda>i. writable cfg data (gw_heap g ! i)) targets)),
            br_FailedUserIds = map (\<lambda>i. cn_UserID (gw_heap g ! i)) (filter (\<lambda>i. \<not> writable cfg data (gw_heap g ! i)) targets)\<rparr>, g')"
    using assms(2,3) loop by (simp add: BroadcastToGuild_def Let_def)
  moreover have "distinct targets" using dist by (simp add: targets_def)
  moreover have "\<forall>j. j \<in> set targets \<longleftrightarrow> GetConnection (cn_UserID (gw_heap g ! j)) g = Some j \<and>
      cn_GuildID (gw_heap g ! j) = guildId \<and> cn_UserID (gw_heap g ! j) \<notin> set exclude"
    using member by (auto simp: targets_def)
  moreover have "\<forall>j < length (gw_heap g). gw_heap g' ! j =
      (if j \<in> set targets \<and> writable cfg data (gw_heap g ! j) then written_to data (gw_heap g ! j) else gw_heap g ! j)"
    using heap by (auto simp: targets_def)
  ultimately show ?thesis by blast
qed

theorem BroadcastToGuild_spec_witness:
  "\<exists>g' d. BroadcastToGuild demo_manager demo_marshal ''g'' (Some demo_ws) [''bob''] demo_gw2 =
      (Inr \<lparr>br_DeliveredCount = 1, br_FailedUserIds = []\<rparr>, g') \<and> cn_written (gw_heap g' ! 0) = [(BinaryMessage, d)]"
proof -
  obtain d where d: "demo_marshal demo_ws = Inr d" by (simp add: demo_marshal_def)
  have len: "length (gw_conns demo_gw2) < 2 ^ 31" by (simp add: demo_gw_simps)
  have wr: "writable demo_manager d (gw_heap demo_gw2 ! 0)"
    by (simp add: writable_def demo_gw_simps NewConnection_def demo_manager_def)
  from BroadcastToGuild_spec [of demo_gw2 "''g''" demo_marshal demo_ws d demo_manager "[''bob'']", OF demo_gw_inv(2) _ d len]
  obtain g' targets where run: "BroadcastToGuild demo_manager demo_marshal ''g'' (Some demo_ws) [''bob''] demo_gw2 =
      (Inr \<lparr>br_DeliveredCount = int (length (filter (\<lambda>i. writable demo_manager d (gw_heap demo_gw2 ! i)) targets)),
            br_FailedUserIds = map (\<lambda>i. cn_UserID (gw_heap demo_gw2 ! i)) (filter (\<lambda>i. \<not> writable demo_manager d (gw_heap demo_gw2 ! i)) targets)\<rparr>, g')"
    and t: "distinct targets" "\<forall>j. j \<in> set targets \<longleftrightarrow> GetConnection (cn_UserID (gw_heap demo_gw2 ! j)) demo_gw2 = Some j \<and>
      cn_GuildID (gw_heap demo_gw2 ! j) = ''g'' \<and> cn_UserID (gw_heap demo_gw2 ! j) \<notin> set [''bob'']"
    and heap: "\<forall>j < length (gw_heap demo_gw2). gw_heap g' ! j =
      (if j \<in> set targets \<and> writable demo_manager d (gw_heap demo_gw2 ! j) then written_to d (gw_heap demo_gw2 ! j) else gw_heap demo_gw2 ! j)"
    by auto
  have "GetConnection u demo_gw2 = Some j \<longleftrightarrow> u = ''ann'' \<and> j = 0 \<or> u = ''bob'' \<and> j = 1" for u j
    by (auto simp: GetConnection_def demo_gw_simps)
  then have "j \<in> set targets \<Longrightarrow> j = 0 \<or> j = 1" for j using t(2) by blast
  moreover have "0 \<in> set targets" "1 \<notin> set targets"
    using t(2) [rule_format, of 0] t(2) [rule_format, of 1] by (simp_all add: demo_gw_simps NewConnection_def GetConnection_def)
  ultimately have "set targets = {0}" by blast
  then have "targets = [0]" using t(1) distinct_card [of targets] by (cases targets; cases "tl targets") auto
  then show ?thesis using run heap wr
    by (intro exI [of _ g'] exI [of _ d]) (simp add: demo_gw_simps written_to_def NewConnection_def)
qed

end
