(* ===== verification/Utils.thy ===== *)
theory Utils
  imports AuthService
begin

text \<open>
  The helpers of \<^verbatim>\<open>utils/math.go\<close>, \<^verbatim>\<open>utils/bloomfilter.go\<close>, \<^verbatim>\<open>utils/worker_pool.go\<close> and
  \<^verbatim>\<open>middleware/validator/validator.go\<close>.  The generic integer functions take the integer type as an
  argument; every operation that can leave its range wraps.  The bit set and the hash functions of the Bloom filter are
  third-party: a set of positions and a list of functions.
\<close>

section \<open>Integers of any type\<close>

datatype int_type = Signed nat | Unsigned nat

fun wrap_to :: "int_type \<Rightarrow> int \<Rightarrow> int" where
  "wrap_to (Signed w) x = signed_take_bit (w - 1) x"
| "wrap_to (Unsigned w) x = x mod 2 ^ w"

fun max_of :: "int_type \<Rightarrow> int" where
  "max_of (Signed w) = 2 ^ (w - 1) - 1"
| "max_of (Unsigned w) = 2 ^ w - 1"

lemma wrap_to_id [simp]: "0 \<le> x \<Longrightarrow> x \<le> max_of T \<Longrightarrow> wrap_to T x = x"
  by (cases T) (simp_all add: signed_take_bit_int_eq_self)

definition Abs :: "int_type \<Rightarrow> int \<Rightarrow> int" where
  "Abs T x = (if x < 0 then wrap_to T (- x) else x)"

definition Divmod :: "int_type \<Rightarrow> int \<Rightarrow> int \<Rightarrow> (int \<times> int) outcome" where
  "Divmod T x y = (if y = 0 then Panics else Returns (wrap_to T (x sdiv y), x smod y))"

lemma smod_nonneg: "0 \<le> a \<Longrightarrow> 0 < b \<Longrightarrow> a smod b = a mod b" for a b :: int
  by (cases "a = 0") (simp_all add: signed_modulo_int_def sgn_if)

lemma smod_less: "0 < b \<Longrightarrow> a smod b < b" for a b :: int
  by (auto simp: signed_modulo_int_def sgn_if intro: order_le_less_trans [of _ 0])

function utils_Gcd :: "int \<Rightarrow> int \<Rightarrow> int" where
  "utils_Gcd a b = (if 0 < b then utils_Gcd b (a smod b) else a)"
  by pat_completeness auto
termination
  by (relation "measure (\<lambda>(a, b). nat b)") (auto simp: smod_less)

declare utils_Gcd.simps [simp del]

definition utils_Lcm :: "int_type \<Rightarrow> int \<Rightarrow> int \<Rightarrow> int outcome" where
  "utils_Lcm T a b = (let g = utils_Gcd a b in if g = 0 then Panics else Returns (wrap_to T (wrap_to T (a * b) sdiv g)))"

function pow_loop :: "int_type \<Rightarrow> int \<Rightarrow> int \<Rightarrow> int \<Rightarrow> int \<Rightarrow> int outcome" where
  "pow_loop T x n md res =
     (if 0 < n then
        (if md = 0 then Panics
         else pow_loop T (wrap_to T (x * x) smod md) (n div 2) md (if n mod 2 = 1 then wrap_to T (res * x) smod md else res))
      else Returns res)"
  by pat_completeness auto
termination
  by (relation "measure (\<lambda>(T, x, n, md, res). nat n)") auto

declare pow_loop.simps [simp del]

definition QucikPow :: "int_type \<Rightarrow> int \<Rightarrow> int \<Rightarrow> int \<Rightarrow> int outcome" where
  "QucikPow T x n md = pow_loop T x n md 1"

lemma Gcd_gcd: "0 \<le> a \<Longrightarrow> 0 \<le> b \<Longrightarrow> utils_Gcd a b = gcd a b"
proof (induction a b rule: utils_Gcd.induct)
  case (1 a b)
  show ?case
  proof (cases "0 < b")
    case True
    then have "utils_Gcd b (a smod b) = gcd b (a smod b)" using 1 by (simp add: smod_nonneg)
    then show ?thesis using True 1(2) by (simp add: utils_Gcd.simps [of a b] smod_nonneg gcd_red_int [symmetric])
  next
    case False
    then have "b = 0" using 1(3) by simp
    then show ?thesis using 1(2) utils_Gcd.simps [of a 0] by simp
  qed
qed

lemma Lcm_lcm:
  assumes "0 \<le> a" and "0 \<le> b" and "a * b \<le> max_of T" and "a \<noteq> 0 \<or> b \<noteq> 0"
  shows "utils_Lcm T a b = Returns (lcm a b)"
proof -
  have g: "0 < gcd a b" using assms(4) by (simp add: less_le)
  have "a * b div gcd a b \<le> a * b div 1" using mult_nonneg_nonneg [OF assms(1,2)] g by (intro zdiv_mono2) linarith+
  then have le: "0 \<le> a * b div gcd a b" "a * b div gcd a b \<le> max_of T"
    using assms(1-3) g by (auto simp: pos_imp_zdiv_nonneg_iff)
  have "lcm a b = a * b div gcd a b" using assms(1,2) by (simp add: lcm_int_def lcm_nat_def gcd_int_def nat_mult_distrib zdiv_int)
  then show ?thesis using assms g le by (simp add: utils_Lcm_def Gcd_gcd Let_def sdiv_nonneg)
qed

text \<open>Fast exponentiation is exponentiation modulo the modulus while no product wraps; for exponent 0 the result is 1, even
  modulo 1.\<close>

lemma power_halved:
  fixes x :: int
  assumes "0 < n"
  shows "x ^ nat n = (if n mod 2 = 1 then x else 1) * (x * x) ^ nat (n div 2)"
proof (cases "n mod 2 = 1")
  case True
  then have "n = 2 * (n div 2) + 1" by presburger
  then have "nat n = Suc (2 * nat (n div 2))" using assms by linarith
  then show ?thesis using True by (simp add: power_mult power2_eq_square)
next
  case False
  then have "n = 2 * (n div 2)" by presburger
  then have "nat n = 2 * nat (n div 2)" using assms by linarith
  then have "x ^ nat n = (x * x) ^ nat (n div 2)" by (metis power_mult power2_eq_square)
  then show ?thesis using False by simp
qed

lemma pow_loop_spec:
  assumes "0 \<le> x" and "0 < md" and "x * x \<le> max_of T" and "(md - 1) * (md - 1) \<le> max_of T"
    and "0 \<le> res" and "res * x \<le> max_of T" and "res < md \<or> res = 1"
  shows "\<exists>r. pow_loop T x n md res = Returns r \<and> r mod md = (res * x ^ nat n) mod md \<and> (0 < n \<longrightarrow> 0 \<le> r \<and> (r < md \<or> r = res)) \<and> (n \<le> 0 \<longrightarrow> r = res)"
  using assms
proof (induction "nat n" arbitrary: x n res rule: less_induct)
  case less
  show ?case
  proof (cases "0 < n")
    case False
    then show ?thesis by (simp add: pow_loop.simps [of T x n])
  next
    case True
    define x' where "x' = (x * x) mod md"
    define res' where "res' = (if n mod 2 = 1 then (res * x) mod md else res)"
    have step: "pow_loop T x n md res = pow_loop T x' (n div 2) md res'"
      using True less.prems by (simp add: pow_loop.simps [of T x n] x'_def res'_def smod_nonneg)
    have x': "0 \<le> x'" "x' \<le> md - 1" using less.prems(2) by (simp_all add: x'_def)
    have res': "0 \<le> res'" "res' < md \<or> res' = 1 \<and> res = 1" "res' < md \<or> res' = res"
      using less.prems(2,5,7) by (auto simp: res'_def)
    have sq: "x' * x' \<le> max_of T" using mult_mono [OF x'(2) x'(2)] x'(1) less.prems(2,4) by linarith
    have prod: "res' * x' \<le> max_of T"
    proof (cases "res' < md")
      case True
      then have "res' * x' \<le> (md - 1) * (md - 1)" using x' res'(1) by (intro mult_mono) auto
      then show ?thesis using less.prems(4) by simp
    next
      case False
      then have "res' = 1" using res'(2) by blast
      then have "md = 1" using False less.prems(2) by simp
      then show ?thesis using x' \<open>res' = 1\<close> less.prems(4) by simp
    qed
    have half: "nat (n div 2) < nat n" using True by simp
    obtain r where r: "pow_loop T x' (n div 2) md res' = Returns r" "r mod md = (res' * x' ^ nat (n div 2)) mod md"
      "0 < n div 2 \<longrightarrow> 0 \<le> r \<and> (r < md \<or> r = res')" "n div 2 \<le> 0 \<longrightarrow> r = res'"
      using less.hyps [OF half x'(1) less.prems(2) sq less.prems(4) res'(1) prod] res'(2) by blast
    have "(res' * x' ^ nat (n div 2)) mod md = (res' * (x * x) ^ nat (n div 2)) mod md"
      unfolding x'_def by (metis mod_mult_right_eq power_mod)
    also have "\<dots> = (res * x ^ nat n) mod md"
      unfolding power_halved [OF True, of x] by (simp add: res'_def mod_mult_left_eq mult.assoc)
    finally have "r mod md = (res * x ^ nat n) mod md" using r(2) by simp
    moreover have "0 \<le> r \<and> (r < md \<or> r = res)" using r(3,4) res'(1,3) by (cases "0 < n div 2") auto
    ultimately show ?thesis using step r(1) True by auto
  qed
qed

lemma QucikPow_power:
  assumes "0 \<le> x" and "1 < md" and "x * x \<le> max_of T" and "x \<le> max_of T" and "(md - 1) * (md - 1) \<le> max_of T"
  shows "QucikPow T x n md = Returns (x ^ nat n mod md)"
proof -
  obtain r where r: "pow_loop T x n md 1 = Returns r" "r mod md = x ^ nat n mod md"
    "0 < n \<longrightarrow> 0 \<le> r \<and> (r < md \<or> r = 1)" "n \<le> 0 \<longrightarrow> r = 1"
    using pow_loop_spec [of x md T 1 n] assms by auto
  then have "0 \<le> r" "r < md" using assms(2) by (cases "0 < n"; auto)+
  then show ?thesis using r(1,2) by (simp add: QucikPow_def)
qed

lemma QucikPow_zero: "QucikPow T x 0 md = Returns 1"
  by (simp add: QucikPow_def pow_loop.simps)

section \<open>Bloom filter\<close>

record bloom_filter =
  bf_bits :: "nat set"
  bf_size :: nat
  bf_hashFuncs :: "(string \<Rightarrow> nat) list"

text \<open>\<open>m\<close> and \<open>k\<close> are what \<^verbatim>\<open>optimalParameters\<close> computes in floating point, \<open>hash i\<close> is Murmur3 with seed \<open>i\<close>.\<close>

definition NewWithFalsePositiveRate :: "(nat \<Rightarrow> string \<Rightarrow> nat) \<Rightarrow> nat \<times> nat \<Rightarrow> bloom_filter" where
  "NewWithFalsePositiveRate hash mk = \<lparr>bf_bits = {}, bf_size = fst mk, bf_hashFuncs = map hash [0..<snd mk]\<rparr>"

text \<open>A filter of size 0 panics on the first hash function.\<close>

definition bloom_Add :: "string \<Rightarrow> bloom_filter \<Rightarrow> bloom_filter outcome" where
  "bloom_Add item bf =
     (if bf_size bf = 0 \<and> bf_hashFuncs bf \<noteq> [] then Panics
      else Returns (bf\<lparr>bf_bits := fold (\<lambda>h bits. insert (h item mod bf_size bf) bits) (bf_hashFuncs bf) (bf_bits bf)\<rparr>))"

definition bloom_Contains :: "string \<Rightarrow> bloom_filter \<Rightarrow> bool outcome" where
  "bloom_Contains item bf =
     (if bf_size bf = 0 \<and> bf_hashFuncs bf \<noteq> [] then Panics
      else Returns (list_all (\<lambda>h. h item mod bf_size bf \<in> bf_bits bf) (bf_hashFuncs bf)))"

lemma fold_insert_set: "fold (\<lambda>h bits. insert (f h) bits) hs B = B \<union> f ` set hs"
  by (induction hs arbitrary: B) auto

text \<open>No false negatives: what was added is found, and stays found when more is added.\<close>

lemma bloom_no_false_negative:
  assumes "bloom_Add item bf = Returns bf'"
  shows "bloom_Contains item bf' = Returns True"
    and "bloom_Contains other bf = Returns True \<Longrightarrow> bloom_Contains other bf' = Returns True"
  using assms by (auto simp: bloom_Add_def bloom_Contains_def fold_insert_set list_all_iff split: if_splits)

section \<open>Validation\<close>

definition is_letter :: "char \<Rightarrow> bool" where
  "is_letter ch \<longleftrightarrow> (let n = of_char ch :: nat in 65 \<le> n \<and> n \<le> 90 \<or> 97 \<le> n \<and> n \<le> 122)"

definition is_alnum :: "char \<Rightarrow> bool" where
  "is_alnum ch \<longleftrightarrow> is_letter ch \<or> (let n = of_char ch :: nat in 48 \<le> n \<and> n \<le> 57)"

definition HashPassword :: "bcrypt_gen \<Rightarrow> string \<Rightarrow> string result" where
  "HashPassword gen password = gen password DefaultCost"

definition CheckPassword :: "bcrypt_cmp \<Rightarrow> string \<Rightarrow> string \<Rightarrow> bool" where
  "CheckPassword cmp hashedPassword password \<longleftrightarrow> cmp hashedPassword password = None"

definition ValidateUserName :: "string \<Rightarrow> bool" where
  "ValidateUserName username \<longleftrightarrow>
     \<not> (length username < 3 \<or> 20 < length username) \<and> username \<noteq> [] \<and> list_all (\<lambda>ch. is_alnum ch \<or> ch = CHR ''_'') username"

definition ValidatePassword :: "string \<Rightarrow> bool" where
  "ValidatePassword password \<longleftrightarrow> 8 \<le> length password"

text \<open>The three character classes of the address pattern; the at sign and the last dot split the text.\<close>

definition local_char :: "char \<Rightarrow> bool" where
  "local_char ch \<longleftrightarrow> is_alnum ch \<or> ch \<in> set ''._%+-''"

definition domain_char :: "char \<Rightarrow> bool" where
  "domain_char ch \<longleftrightarrow> is_alnum ch \<or> ch \<in> set ''.-''"

definition ValidateEmail :: "string \<Rightarrow> bool" where
  "ValidateEmail email \<longleftrightarrow>
     (let local = takeWhile (\<lambda>ch. ch \<noteq> CHR ''@'') email; rest = dropWhile (\<lambda>ch. ch \<noteq> CHR ''@'') email;
          rdomain = rev (tl rest); rtld = takeWhile (\<lambda>ch. ch \<noteq> CHR ''.'') rdomain; rname = dropWhile (\<lambda>ch. ch \<noteq> CHR ''.'') rdomain
      in rest \<noteq> [] \<and> local \<noteq> [] \<and> list_all local_char local \<and> 2 \<le> length rtld \<and> list_all is_letter rtld \<and>
         rname \<noteq> [] \<and> tl rname \<noteq> [] \<and> list_all domain_char (tl rname))"

lemma char_classes [simp]: "\<not> local_char (CHR ''@'')" "\<not> is_letter (CHR ''.'')"
  by (simp_all add: local_char_def is_alnum_def is_letter_def Let_def)

text \<open>The pattern \<^verbatim>\<open>^[a-zA-Z0-9._%+-]+@[a-zA-Z0-9.-]+\.[a-zA-Z]{2,}$\<close> as a language.\<close>

lemma ValidateEmail_pattern:
  "ValidateEmail email \<longleftrightarrow> (\<exists>l d t. email = l @ CHR ''@'' # d @ CHR ''.'' # t \<and> l \<noteq> [] \<and> list_all local_char l \<and>
     d \<noteq> [] \<and> list_all domain_char d \<and> 2 \<le> length t \<and> list_all is_letter t)" (is "_ \<longleftrightarrow> ?R")
proof
  assume v: "ValidateEmail email"
  define l where "l = takeWhile (\<lambda>ch. ch \<noteq> CHR ''@'') email"
  define rest where "rest = dropWhile (\<lambda>ch. ch \<noteq> CHR ''@'') email"
  define rt where "rt = takeWhile (\<lambda>ch. ch \<noteq> CHR ''.'') (rev (tl rest))"
  define rn where "rn = dropWhile (\<lambda>ch. ch \<noteq> CHR ''.'') (rev (tl rest))"
  have v': "rest \<noteq> []" "l \<noteq> []" "list_all local_char l" "2 \<le> length rt" "list_all is_letter rt" "rn \<noteq> []" "tl rn \<noteq> []"
    "list_all domain_char (tl rn)" using v by (simp_all add: ValidateEmail_def Let_def l_def rest_def rt_def rn_def)
  have e1: "email = l @ rest" by (simp add: l_def rest_def)
  have e2: "rest = CHR ''@'' # tl rest" using v'(1) hd_dropWhile [of "\<lambda>ch. ch \<noteq> CHR ''@''" email] by (cases rest) (auto simp: rest_def)
  have e3: "rn = CHR ''.'' # tl rn"
    using v'(6) hd_dropWhile [of "\<lambda>ch. ch \<noteq> CHR ''.''" "rev (tl rest)"] by (cases rn) (auto simp: rn_def)
  have "rev (tl rest) = rt @ rn" by (simp add: rt_def rn_def)
  then have "tl rest = rev (tl rn) @ CHR ''.'' # rev rt" using e3 by (metis append.assoc append_Cons append_Nil rev.simps(2) rev_append rev_rev_ident)
  then have "email = l @ CHR ''@'' # rev (tl rn) @ CHR ''.'' # rev rt" using e1 e2 by simp
  then show ?R using v' by (intro exI [of _ l] exI [of _ "rev (tl rn)"] exI [of _ "rev rt"]) simp
next
  assume ?R
  then obtain l d t where e: "email = l @ CHR ''@'' # d @ CHR ''.'' # t" and p: "l \<noteq> []" "list_all local_char l" "d \<noteq> []"
    "list_all domain_char d" "2 \<le> length t" "list_all is_letter t" by blast
  have "CHR ''@'' \<notin> set l" "CHR ''.'' \<notin> set t" using p(2,6) char_classes by (auto simp: list_all_iff)
  then have "takeWhile (\<lambda>ch. ch \<noteq> CHR ''@'') email = l" "dropWhile (\<lambda>ch. ch \<noteq> CHR ''@'') email = CHR ''@'' # d @ CHR ''.'' # t"
    "takeWhile (\<lambda>ch. ch \<noteq> CHR ''.'') (rev t @ CHR ''.'' # rev d) = rev t"
    "dropWhile (\<lambda>ch. ch \<noteq> CHR ''.'') (rev t @ CHR ''.'' # rev d) = CHR ''.'' # rev d"
    by (auto simp: e takeWhile_append dropWhile_append)
  then show "ValidateEmail email" using p by (simp add: ValidateEmail_def Let_def)
qed

definition hex_upper :: "nat \<Rightarrow> char" where
  "hex_upper n = ''0123456789ABCDEF'' ! n"

text \<open>\<^verbatim>\<open>GenerateInviteCode\<close>: the first three bytes of a digest in upper-case hexadecimal.\<close>

definition GenerateInviteCode :: "(string \<Rightarrow> 8 word list) \<Rightarrow> int \<Rightarrow> int \<Rightarrow> string" where
  "GenerateInviteCode sha256 unix nanosecond =
     take 6 (concat (map (\<lambda>b. [hex_upper (unat b div 16), hex_upper (unat b mod 16)]) (sha256 (FormatInt unix @ FormatInt nanosecond))))"

end
