(* ===== verification/WorkerPool.thy ===== *)
theory WorkerPool
  imports Prelude "HOL-Library.Multiset"
begin

text \<open>
  The worker pool of \<^verbatim>\<open>utils/worker_pool.go\<close> as a state machine: the job channel with its capacity, the
  workers, and the quit channel.  A job that panics is recovered and counts as executed.  \<open>wp_submitted\<close> and
  \<open>wp_executed\<close> record history.
\<close>

section \<open>Operations and steps\<close>

datatype 'j worker = Idle | Executing 'j | Exited

record 'j pool =
  wp_queue :: "'j list"
  wp_capacity :: nat
  wp_workers :: "'j worker list"
  wp_quit :: bool
  wp_submitted :: "'j list"
  wp_executed :: "'j list"

text \<open>\<^verbatim>\<open>make(chan, n)\<close> panics for a negative size.\<close>

definition NewWorkerPool :: "int \<Rightarrow> 'j pool outcome" where
  "NewWorkerPool queueSize =
     (if queueSize < 0 then Panics
      else Returns \<lparr>wp_queue = [], wp_capacity = nat queueSize, wp_workers = [], wp_quit = False, wp_submitted = [], wp_executed = []\<rparr>)"

definition pool_Start :: "int \<Rightarrow> 'j pool \<Rightarrow> 'j pool" where
  "pool_Start workerNum p = p\<lparr>wp_workers := wp_workers p @ replicate (nat workerNum) Idle\<rparr>"

text \<open>\<^verbatim>\<open>poolOnce\<close>: the first call creates and starts the pool, later calls do nothing.\<close>

definition InitGlobalWorkerPool :: "int \<Rightarrow> int \<Rightarrow> 'j pool option \<Rightarrow> 'j pool option outcome" where
  "InitGlobalWorkerPool workerNum queueSize global =
     (case global of
        Some p \<Rightarrow> Returns (Some p)
      | None \<Rightarrow> (case NewWorkerPool queueSize of Panics \<Rightarrow> Panics | Returns p \<Rightarrow> Returns (Some (pool_Start workerNum p))))"

text \<open>A send that finds room, or a waiting worker.\<close>

definition pool_Submit :: "'j \<Rightarrow> 'j pool \<Rightarrow> 'j pool option" where
  "pool_Submit job p =
     (if length (wp_queue p) < wp_capacity p
      then Some (p\<lparr>wp_queue := wp_queue p @ [job], wp_submitted := wp_submitted p @ [job]\<rparr>) else None)"

text \<open>The first half of \<^verbatim>\<open>Stop\<close>; the second waits until every worker has exited.\<close>

definition pool_Stop :: "'j pool \<Rightarrow> 'j pool outcome" where
  "pool_Stop p = (if wp_quit p then Panics else Returns (p\<lparr>wp_quit := True\<rparr>))"

definition stopped :: "'j pool \<Rightarrow> bool" where
  "stopped p \<longleftrightarrow> wp_quit p \<and> set (wp_workers p) \<subseteq> {Exited}"

text \<open>Submitting, the hand-over to a waiting worker on a channel that is empty, and the two branches of a worker's
  \<^verbatim>\<open>select\<close>: with a job queued and the pool quitting, either may be taken.\<close>

inductive pool_step :: "'j pool \<Rightarrow> 'j pool \<Rightarrow> bool" where
  submit: "pool_Submit job p = Some p' \<Longrightarrow> pool_step p p'"
| hand_over: "i < length (wp_workers p) \<Longrightarrow> wp_workers p ! i = Idle \<Longrightarrow> wp_queue p = [] \<Longrightarrow>
    pool_step p (p\<lparr>wp_workers := (wp_workers p)[i := Executing job], wp_submitted := wp_submitted p @ [job]\<rparr>)"
| take_job: "i < length (wp_workers p) \<Longrightarrow> wp_workers p ! i = Idle \<Longrightarrow> wp_queue p = job # q \<Longrightarrow>
    pool_step p (p\<lparr>wp_workers := (wp_workers p)[i := Executing job], wp_queue := q\<rparr>)"
| finish: "i < length (wp_workers p) \<Longrightarrow> wp_workers p ! i = Executing job \<Longrightarrow>
    pool_step p (p\<lparr>wp_workers := (wp_workers p)[i := Idle], wp_executed := wp_executed p @ [job]\<rparr>)"
| stop: "pool_Stop p = Returns p' \<Longrightarrow> pool_step p p'"
| quit: "i < length (wp_workers p) \<Longrightarrow> wp_workers p ! i = Idle \<Longrightarrow> wp_quit p \<Longrightarrow>
    pool_step p (p\<lparr>wp_workers := (wp_workers p)[i := Exited]\<rparr>)"

section \<open>Invariant\<close>

fun jobs_of :: "'j worker \<Rightarrow> 'j multiset" where
  "jobs_of (Executing j) = {#j#}"
| "jobs_of _ = {#}"

definition running :: "'j pool \<Rightarrow> 'j multiset" where
  "running p = sum_list (map jobs_of (wp_workers p))"

text \<open>Every submitted job is executed, running or queued, exactly once; the queue respects its capacity; workers leave only
  after \<^verbatim>\<open>Stop\<close>.\<close>

definition pool_inv :: "'j pool \<Rightarrow> bool" where
  "pool_inv p \<longleftrightarrow> mset (wp_submitted p) = mset (wp_executed p) + running p + mset (wp_queue p) \<and>
     length (wp_queue p) \<le> wp_capacity p \<and> (Exited \<in> set (wp_workers p) \<longrightarrow> wp_quit p)"

lemma sum_list_update_mset:
  assumes "i < length xs"
  shows "sum_list (map f (xs[i := y])) + f (xs ! i) = sum_list (map f xs) + (f y :: 'b multiset)"
  using assms
proof (induction xs arbitrary: i)
  case (Cons x xs)
  then show ?case by (cases i) (auto simp: ac_simps)
qed simp

lemma running_update:
  assumes "i < length (wp_workers p)"
  shows "running (p\<lparr>wp_workers := (wp_workers p)[i := w]\<rparr>) + jobs_of (wp_workers p ! i) = running p + jobs_of w"
  using sum_list_update_mset [OF assms, of jobs_of w] by (simp add: running_def)

lemma running_simps [simp]:
  "running (p\<lparr>wp_queue := q\<rparr>) = running p" "running (p\<lparr>wp_submitted := s\<rparr>) = running p"
  "running (p\<lparr>wp_executed := e\<rparr>) = running p" "running (p\<lparr>wp_quit := b\<rparr>) = running p"
  "running (p\<lparr>wp_workers := ws, wp_submitted := s\<rparr>) = running (p\<lparr>wp_workers := ws\<rparr>)"
  "running (p\<lparr>wp_queue := q, wp_workers := ws\<rparr>) = running (p\<lparr>wp_workers := ws\<rparr>)"
  "running (p\<lparr>wp_workers := ws, wp_executed := e\<rparr>) = running (p\<lparr>wp_workers := ws\<rparr>)"
  "running (p\<lparr>wp_queue := q, wp_submitted := s\<rparr>) = running p"
  by (simp_all add: running_def)

lemma pool_inv_step: "pool_step p p' \<Longrightarrow> pool_inv p \<Longrightarrow> pool_inv p'"
proof (induction rule: pool_step.induct)
  case (hand_over i p job)
  then show ?case using running_update [of i p "Executing job"] set_update_subset_insert [of "wp_workers p" i "Executing job"]
    by (auto simp: pool_inv_def)
next
  case (take_job i p job q)
  then show ?case using running_update [of i p "Executing job"] set_update_subset_insert [of "wp_workers p" i "Executing job"]
    by (auto simp: pool_inv_def)
next
  case (finish i p job)
  then show ?case using running_update [of i p Idle] set_update_subset_insert [of "wp_workers p" i Idle]
    by (auto simp: pool_inv_def ac_simps)
next
  case (quit i p)
  then show ?case using running_update [of i p Exited] by (auto simp: pool_inv_def)
qed (auto simp: pool_inv_def pool_Submit_def pool_Stop_def split: if_splits)

lemma running_idle: "sum_list (replicate k {#}) = {#}"
  by (induction k) auto

lemma pool_inv_start: "NewWorkerPool queueSize = Returns p \<Longrightarrow> pool_inv (pool_Start n p)"
  by (auto simp: NewWorkerPool_def pool_inv_def pool_Start_def running_def running_idle split: if_splits)

lemma pool_reach_inv:
  assumes "NewWorkerPool queueSize = Returns p0" and "pool_step\<^sup>*\<^sup>* (pool_Start n p0) p"
  shows "pool_inv p"
  using assms(2) by (induction rule: rtranclp_induct) (use pool_inv_start [OF assms(1)] pool_inv_step in auto)

text \<open>Until it is stopped, a pool with a worker can always go on: a queued job is not stranded.\<close>

lemma pool_progress:
  assumes "pool_inv p" and "\<not> wp_quit p" and "wp_workers p \<noteq> []" and "wp_queue p \<noteq> []"
  shows "\<exists>p'. pool_step p p' \<and> (length (wp_queue p') < length (wp_queue p) \<or> length (wp_executed p) < length (wp_executed p'))"
proof -
  obtain job q where q: "wp_queue p = job # q" using assms(4) by (cases "wp_queue p") auto
  have i: "0 < length (wp_workers p)" using assms(3) by simp
  show ?thesis
  proof (cases "wp_workers p ! 0")
    case Idle
    from pool_step.take_job [OF i Idle q] show ?thesis using q by (auto intro!: exI)
  next
    case (Executing j)
    from pool_step.finish [OF i Executing] show ?thesis by (auto intro!: exI)
  next
    case Exited
    then show ?thesis using assms(1,2) i nth_mem [OF i] by (auto simp: pool_inv_def)
  qed
qed

text \<open>A stopped pool runs no job any more: what is queued then, or accepted later, is lost.\<close>

inductive_cases pool_stepE: "pool_step p p'"

lemma stopped_forever:
  assumes "pool_step\<^sup>*\<^sup>* p p'" and "stopped p"
  shows "stopped p' \<and> wp_executed p' = wp_executed p"
  using assms
proof (induction rule: rtranclp_induct)
  case (step p1 p2)
  then have "set (wp_workers p1) \<subseteq> {Exited}" by (simp add: stopped_def)
  then have exited: "wp_workers p1 ! i = Exited" if "i < length (wp_workers p1)" for i
    using nth_mem [OF that] by blast
  from step.hyps(2) show ?case
    by (rule pool_stepE) (use step exited in \<open>auto simp: pool_Submit_def pool_Stop_def stopped_def split: if_splits\<close>)
qed simp

text \<open>Stopping does not drain: a job that was accepted may never run.\<close>

lemma Stop_drops_queued_jobs:
  "\<exists>p0 p :: nat pool. NewWorkerPool 1 = Returns p0 \<and> pool_step\<^sup>*\<^sup>* (pool_Start 1 p0) p \<and> stopped p \<and> wp_queue p = [7]"
proof -
  define p0 :: "nat pool" where "p0 = \<lparr>wp_queue = [], wp_capacity = 1, wp_workers = [], wp_quit = False, wp_submitted = [], wp_executed = []\<rparr>"
  define p1 where "p1 = (pool_Start 1 p0)\<lparr>wp_queue := [7], wp_submitted := [7]\<rparr>"
  define p2 where "p2 = p1\<lparr>wp_quit := True\<rparr>"
  define p3 where "p3 = p2\<lparr>wp_workers := [Exited]\<rparr>"
  have "pool_step (pool_Start 1 p0) p1"
    by (rule submit [of 7]) (simp add: pool_Submit_def p1_def p0_def pool_Start_def)
  moreover have "pool_step p1 p2" by (rule stop) (simp add: pool_Stop_def p2_def p1_def p0_def pool_Start_def)
  moreover have "pool_step p2 p3"
    using quit [of 0 p2] by (simp add: p3_def p2_def p1_def p0_def pool_Start_def)
  ultimately have "pool_step\<^sup>*\<^sup>* (pool_Start 1 p0) p3" by auto
  moreover have "NewWorkerPool 1 = Returns p0" by (simp add: NewWorkerPool_def p0_def)
  moreover have "stopped p3" "wp_queue p3 = [7]" by (simp_all add: stopped_def p3_def p2_def p1_def p0_def pool_Start_def)
  ultimately show ?thesis by blast
qed

end
