(* ===== verification/Logging.thy ===== *)
theory Logging
  imports Config
begin

text \<open>
  The logger of \<^verbatim>\<open>middleware/log\<close>.  zap is third-party: a logger is its configuration (level, encoding, output) with the
  fields added to it, and writing appends an entry, for levels that are enabled, to the sink.  A context is the list of
  its values, newest first.
\<close>

section \<open>Levels and contexts\<close>

datatype log_level = DebugLevel | InfoLevel | WarnLevel | ErrorLevel | FatalLevel

fun level_rank :: "log_level \<Rightarrow> nat" where
  "level_rank DebugLevel = 0"
| "level_rank InfoLevel = 1"
| "level_rank WarnLevel = 2"
| "level_rank ErrorLevel = 3"
| "level_rank FatalLevel = 4"

instantiation log_level :: linorder
begin

definition less_eq_log_level :: "log_level \<Rightarrow> log_level \<Rightarrow> bool" where
  "less_eq_log_level a b \<longleftrightarrow> level_rank a \<le> level_rank b"

definition less_log_level :: "log_level \<Rightarrow> log_level \<Rightarrow> bool" where
  "less_log_level a b \<longleftrightarrow> level_rank a < level_rank b"

instance
proof
  have inj: "level_rank a = level_rank b \<Longrightarrow> a = b" for a b by (cases a; cases b) simp_all
  fix x y z :: log_level
  show "x \<le> y \<Longrightarrow> y \<le> x \<Longrightarrow> x = y" by (auto simp: less_eq_log_level_def intro: inj)
qed (auto simp: less_eq_log_level_def less_log_level_def)

end

definition parseLogLevel :: "string \<Rightarrow> log_level result" where
  "parseLogLevel level =
     (if level = ''debug'' then Inr DebugLevel
      else if level = ''info'' then Inr InfoLevel
      else if level = ''warn'' then Inr WarnLevel
      else if level = ''error'' then Inr ErrorLevel
      else if level = ''fatal'' then Inr FatalLevel
      else Inr InfoLevel)"

definition TraceIDKey :: string where "TraceIDKey = ''trace_id''"

type_synonym go_context = "(string \<times> string) list"

definition NewTraceID :: "string \<Rightarrow> string" where
  "NewTraceID uuid = uuid"

definition context_WithTraceID :: "string \<Rightarrow> go_context \<Rightarrow> string \<Rightarrow> go_context" where
  "context_WithTraceID uuid ctx traceID = (TraceIDKey, if traceID = [] then uuid else traceID) # ctx"

definition GetTraceID :: "go_context \<Rightarrow> string" where
  "GetTraceID ctx = (case map_of ctx TraceIDKey of Some traceID \<Rightarrow> traceID | None \<Rightarrow> [])"

section \<open>Loggers\<close>

text \<open>The fields the program builds with \<^verbatim>\<open>zap.String\<close>, \<^verbatim>\<open>zap.Int\<close>, \<^verbatim>\<open>zap.Int64\<close>, \<^verbatim>\<open>zap.Duration\<close> and \<^verbatim>\<open>zap.Error\<close>.\<close>

datatype field_value = StringValue string | IntValue int | DurationValue int | ErrorValue go_error

type_synonym zap_field = "string \<times> field_value"

record logger =
  zl_level :: log_level
  zl_json :: bool
  zl_fields :: "zap_field list"
  zl_file :: "string option"

record log_entry =
  le_level :: log_level
  le_message :: string
  le_fields :: "zap_field list"

text \<open>\<open>openFile\<close> is \<^verbatim>\<open>os.OpenFile\<close> for appending.\<close>

definition NewLogger :: "(string \<Rightarrow> go_error option) \<Rightarrow> logging_config \<Rightarrow> logger result" where
  "NewLogger openFile cfg =
     (case parseLogLevel (lg_Level cfg) of
        Inl e \<Rightarrow> Inl e
      | Inr lv \<Rightarrow>
          if lg_Output cfg = ''file'' then
            (case openFile (lg_FilePath cfg) of
               Some e \<Rightarrow> Inl e
             | None \<Rightarrow> Inr \<lparr>zl_level = lv, zl_json = (lg_Format cfg = ''json''), zl_fields = [], zl_file = Some (lg_FilePath cfg)\<rparr>)
          else Inr \<lparr>zl_level = lv, zl_json = (lg_Format cfg = ''json''), zl_fields = [], zl_file = None\<rparr>)"

text \<open>The presets are zap's: \<open>preset\<close> is what \<^verbatim>\<open>zap.NewDevelopment\<close> or \<^verbatim>\<open>zap.NewProduction\<close> returns.  Neither opens a file of its own.\<close>

definition NewDevelopmentLogger :: "(log_level \<times> bool) result \<Rightarrow> logger result" where
  "NewDevelopmentLogger preset =
     (case preset of Inl err \<Rightarrow> Inl err | Inr (lv, js) \<Rightarrow> Inr \<lparr>zl_level = lv, zl_json = js, zl_fields = [], zl_file = None\<rparr>)"

definition NewProductionLogger :: "(log_level \<times> bool) result \<Rightarrow> logger result" where
  "NewProductionLogger preset =
     (case preset of Inl err \<Rightarrow> Inl err | Inr (lv, js) \<Rightarrow> Inr \<lparr>zl_level = lv, zl_json = js, zl_fields = [], zl_file = None\<rparr>)"

text \<open>Derived loggers share the sink but not the file handle.\<close>

definition WithFields :: "zap_field list \<Rightarrow> logger \<Rightarrow> logger" where
  "WithFields fs l = l\<lparr>zl_fields := zl_fields l @ fs, zl_file := None\<rparr>"

definition logger_WithTraceID :: "string \<Rightarrow> logger \<Rightarrow> logger" where
  "logger_WithTraceID traceID l = l\<lparr>zl_fields := zl_fields l @ [(''trace_id'', StringValue traceID)], zl_file := None\<rparr>"

definition WithContext :: "go_context \<Rightarrow> logger \<Rightarrow> logger" where
  "WithContext ctx l =
     (case map_of ctx TraceIDKey of
        Some traceID \<Rightarrow> if traceID \<noteq> [] then logger_WithTraceID traceID l else l
      | None \<Rightarrow> l)"

definition zap_write :: "log_level \<Rightarrow> string \<Rightarrow> zap_field list \<Rightarrow> logger \<Rightarrow> log_entry list \<Rightarrow> log_entry list" where
  "zap_write lv msg fs l sink =
     (if zl_level l \<le> lv
      then sink @ [\<lparr>le_level = lv, le_message = msg, le_fields = zl_fields l @ fs\<rparr>] else sink)"

definition DebugContext :: "go_context \<Rightarrow> string \<Rightarrow> zap_field list \<Rightarrow> logger \<Rightarrow> log_entry list \<Rightarrow> log_entry list" where
  "DebugContext ctx msg fs l = zap_write DebugLevel msg fs (WithContext ctx l)"

definition InfoContext :: "go_context \<Rightarrow> string \<Rightarrow> zap_field list \<Rightarrow> logger \<Rightarrow> log_entry list \<Rightarrow> log_entry list" where
  "InfoContext ctx msg fs l = zap_write InfoLevel msg fs (WithContext ctx l)"

definition WarnContext :: "go_context \<Rightarrow> string \<Rightarrow> zap_field list \<Rightarrow> logger \<Rightarrow> log_entry list \<Rightarrow> log_entry list" where
  "WarnContext ctx msg fs l = zap_write WarnLevel msg fs (WithContext ctx l)"

definition ErrorContext :: "go_context \<Rightarrow> string \<Rightarrow> zap_field list \<Rightarrow> logger \<Rightarrow> log_entry list \<Rightarrow> log_entry list" where
  "ErrorContext ctx msg fs l = zap_write ErrorLevel msg fs (WithContext ctx l)"

text \<open>The process exits after a fatal entry.\<close>

definition FatalContext :: "go_context \<Rightarrow> string \<Rightarrow> zap_field list \<Rightarrow> logger \<Rightarrow> log_entry list \<Rightarrow> log_entry list \<times> bool" where
  "FatalContext ctx msg fs l sink = (zap_write FatalLevel msg fs (WithContext ctx l) sink, True)"

text \<open>\<^verbatim>\<open>Close\<close>: a failed flush leaves the file open.\<close>

definition logger_Close :: "go_error option \<Rightarrow> (string \<Rightarrow> go_error option) \<Rightarrow> logger \<Rightarrow> go_error option \<times> bool" where
  "logger_Close sync closeFile l =
     (case sync of
        Some e \<Rightarrow> (Some e, False)
      | None \<Rightarrow> (case zl_file l of None \<Rightarrow> (None, False) | Some f \<Rightarrow> (closeFile f, True)))"

section \<open>Facts\<close>

lemma GetTraceID_WithTraceID: "GetTraceID (context_WithTraceID uuid ctx traceID) = (if traceID = [] then uuid else traceID)"
  by (simp add: GetTraceID_def context_WithTraceID_def)

text \<open>An entry written under a context carries its trace ID after the logger's own fields, and no field is lost.\<close>

lemma ErrorContext_trace:
  assumes "GetTraceID ctx \<noteq> []" and "zl_level l \<le> ErrorLevel"
  shows "ErrorContext ctx msg fs l sink =
    sink @ [\<lparr>le_level = ErrorLevel, le_message = msg, le_fields = zl_fields l @ [(''trace_id'', StringValue (GetTraceID ctx))] @ fs\<rparr>]"
  using assms by (auto simp: ErrorContext_def zap_write_def WithContext_def logger_WithTraceID_def GetTraceID_def split: option.splits)

text \<open>Raising the level of a logger only removes entries.\<close>

lemma zap_write_monotone:
  assumes "zl_level l \<le> lv'"
  shows "set (zap_write lv msg fs (l\<lparr>zl_level := lv'\<rparr>) sink) \<subseteq> set (zap_write lv msg fs l sink)"
  using assms by (auto simp: zap_write_def)

lemma parseLogLevel_total: "\<exists>lv. parseLogLevel level = Inr lv"
  by (simp add: parseLogLevel_def)

end
