(* ===== verification/Server.thy ===== *)
theory Server
  imports Handlers Grpc WorkerPool Logging Utils
begin

text \<open>
  The program's \<^verbatim>\<open>main\<close> in \<^verbatim>\<open>cmd/main.go\<close>: the order of its initialisation steps and which failures end it, the
  handler of Kafka messages, the websocket route and the HTTP engine that serves it beside the API.  Opening connections and
  listening are the arguments' business.
\<close>

section \<open>Initialisation\<close>

definition postgres_dsn :: "postgres_config \<Rightarrow> string" where
  "postgres_dsn pg =
     ''host='' @ pg_Host pg @ '' user='' @ pg_User pg @ '' password='' @ pg_Password pg @ '' dbname='' @ pg_DBName pg @
     '' port='' @ FormatInt (pg_Port pg) @ '' sslmode=disable TimeZone=Asia/Shanghai''"

definition main_sf_config :: "snowflake_config \<Rightarrow> sf_config" where
  "main_sf_config sc =
     \<lparr>cfg_Epoch = 0, cfg_DatacenterID = sc_DatacenterID sc, cfg_WorkerID = sc_WorkerID sc,
      cfg_WorkerIDBits = 0, cfg_SequenceBits = 0, cfg_DatacenterBits = 0\<rparr>"

definition main_nodeID :: "snowflake_config \<Rightarrow> string" where
  "main_nodeID sc = ''node-'' @ FormatInt (sc_WorkerID sc)"

definition grpc_address :: "grpc_config \<Rightarrow> string" where
  "grpc_address gc = '':'' @ FormatInt (gr_Port gc)"

definition server_address :: "server_config \<Rightarrow> string" where
  "server_address sc = '':'' @ FormatInt (srv_Port sc)"

text \<open>The prefixes of the messages that are Chinese in the source, in UTF-8.\<close>

definition config_failed :: string where
  "config_failed =
      [CHR 0xE9, CHR 0x85, CHR 0x8D, CHR 0xE7, CHR 0xBD, CHR 0xAE, CHR 0xE5, CHR 0x88, CHR 0x9D, CHR 0xE5, CHR 0xA7,
      CHR 0x8B, CHR 0xE5, CHR 0x8C, CHR 0x96, CHR 0xE5, CHR 0xA4, CHR 0xB1, CHR 0xE8, CHR 0xB4, CHR 0xA5, CHR 0x3A,
      CHR 0x20]"

definition redis_failed :: string where
  "redis_failed =
      [CHR 0x72, CHR 0x65, CHR 0x64, CHR 0x69, CHR 0x73, CHR 0x20, CHR 0xE5, CHR 0x88, CHR 0x9D, CHR 0xE5, CHR 0xA7,
      CHR 0x8B, CHR 0xE5, CHR 0x8C, CHR 0x96, CHR 0xE5, CHR 0xA4, CHR 0xB1, CHR 0xE8, CHR 0xB4, CHR 0xA5, CHR 0x3A,
      CHR 0x20]"

definition serve_failed :: string where
  "serve_failed =
      [CHR 0xE5, CHR 0x90, CHR 0xAF, CHR 0xE5, CHR 0x8A, CHR 0xA8, CHR 0xE6, CHR 0x9C, CHR 0x8D, CHR 0xE5, CHR 0x8A,
      CHR 0xA1, CHR 0xE5, CHR 0x99, CHR 0xA8, CHR 0xE5, CHR 0xA4, CHR 0xB1, CHR 0xE8, CHR 0xB4, CHR 0xA5, CHR 0x3A,
      CHR 0x20]"

text \<open>What the steps of \<^verbatim>\<open>main\<close> return, in order; a running server may lack its Kafka producer, its subscription or its
  consumer.  \<^verbatim>\<open>log.Fatalf\<close> exits the process.\<close>

record ('p, 'l) startup =
  st_openDB :: "string \<Rightarrow> go_error option"
  st_AutoMigrate :: "string list \<Rightarrow> go_error option"
  st_redis :: "go_error option"
  st_producer :: "'p result"
  st_subscriber :: "go_error option"
  st_listen :: "string \<Rightarrow> string \<Rightarrow> 'l result"
  st_newConsumer :: "go_error option"
  st_startConsumer :: "go_error option"

record ('p, 'l) running =
  run_gen :: generator
  run_tm :: token_manager
  run_producer :: "'p option"
  run_subscribed :: bool
  run_grpc :: "'l grpc_server"
  run_consumer :: bool
  run_consuming :: bool

datatype ('p, 'l) main_result = Fatal string | PanickedAtStart | Serving "('p, 'l) running"

definition main_init :: "config result \<Rightarrow> ('p, 'l) startup \<Rightarrow> ('p, 'l) main_result" where
  "main_init loaded st =
     (case loaded of
        Inl e \<Rightarrow> Fatal (config_failed @ error_text e)
      | Inr cfg \<Rightarrow>
          if (InitGlobalWorkerPool (wp_Size (cfg_WorkerPool cfg)) (wp_QueueSize (cfg_WorkerPool cfg)) None
                :: unit pool option outcome) = Panics then PanickedAtStart
          else case st_openDB st (postgres_dsn (cfg_Postgres cfg)) of
            Some e \<Rightarrow> Fatal (''Failed to connect to database: '' @ error_text e)
          | None \<Rightarrow>
              (case st_AutoMigrate st [user_TableName, guild_TableName, guild_member_TableName, message_TableName] of
                 Some e \<Rightarrow> Fatal (''Failed to migrate database: '' @ error_text e)
               | None \<Rightarrow>
                   (case st_redis st of
                      Some e \<Rightarrow> Fatal (redis_failed @ error_text e)
                    | None \<Rightarrow>
                        (case NewGenerator (main_sf_config (cfg_Snowflake cfg)) of
                           Inl e \<Rightarrow> Fatal (''Failed to init snowflake: '' @ sf_message e)
                         | Inr gen \<Rightarrow>
                             (case NewServer (st_listen st) (grpc_address (cfg_GRPC cfg)) of
                                Inl e \<Rightarrow> Fatal (''Failed to init grpc server: '' @ error_text e)
                              | Inr srv \<Rightarrow>
                                  Serving \<lparr>run_gen = gen,
                                    run_tm = NewTokenManager (jw_Secret (cfg_JWT cfg)) (jw_ExpireHours (cfg_JWT cfg)) (jw_RefreshHours (cfg_JWT cfg)),
                                    run_producer = (case st_producer st of Inl e \<Rightarrow> None | Inr p \<Rightarrow> Some p),
                                    run_subscribed = (st_subscriber st = None), run_grpc = srv,
                                    run_consumer = (st_newConsumer st = None),
                                    run_consuming = (st_newConsumer st = None \<and> st_startConsumer st = None)\<rparr>)))))"

text \<open>The deferred calls, last first, and the blocking HTTP server at the end of \<^verbatim>\<open>main\<close>: what is logged on exit, and the deferred calls
  that run.\<close>

datatype cleanup = StopConsumer | CloseProducer | CloseRedis

definition deferred :: "('p, 'l) running \<Rightarrow> cleanup list" where
  "deferred r =
     (if run_consumer r then [StopConsumer] else []) @ (if run_producer r \<noteq> None then [CloseProducer] else []) @ [CloseRedis]"

definition main_serve :: "(string \<Rightarrow> go_error option) \<Rightarrow> server_config \<Rightarrow> ('p, 'l) running \<Rightarrow> string option \<times> cleanup list" where
  "main_serve run sc r =
     (case run (server_address sc) of
        Some err \<Rightarrow> (Some (serve_failed @ error_text err), [])
      | None \<Rightarrow> (None, deferred r))"

section \<open>Messages from Kafka\<close>

definition consumerHandler :: "ws_unmarshal \<Rightarrow> 'd database \<Rightarrow> 's redis \<Rightarrow> ws_marshal \<Rightarrow> (nat \<Rightarrow> int) \<Rightarrow> int \<Rightarrow> int \<Rightarrow> int \<Rightarrow>
    consumer_message \<Rightarrow> ('d, 's) msg_world \<Rightarrow> (go_error option \<times> ('d, 's) msg_world) option" where
  "consumerHandler unmarshal db exec marshal clock t created stamp msg w =
     (case unmarshal (cm_Value msg) of
        (Some err, _) \<Rightarrow> Some (Some (Wrap ''failed to unmarshal message'' err), w)
      | (None, wsMsg) \<Rightarrow>
          (case SendMessage db exec marshal clock t created stamp (w_UserId wsMsg) (w_GuildId wsMsg) (w_Content wsMsg) w of
             None \<Rightarrow> None
           | Some (Inl err, w') \<Rightarrow> Some (Some err, w')
           | Some (Inr _, w') \<Rightarrow> Some (None, w')))"

section \<open>The websocket route\<close>

text \<open>\<open>upgrade\<close> is the websocket library's; it answers the request itself when it fails.  The result carries the connection
  for which \<^verbatim>\<open>HandleConnection\<close> is started.\<close>

definition ws_route :: "jwt_parse \<Rightarrow> token_manager \<Rightarrow> int \<Rightarrow> int \<Rightarrow> (gin_context \<Rightarrow> go_error option) \<Rightarrow> 'r manager_config \<Rightarrow>
    gin_context \<Rightarrow> 'r gateway \<Rightarrow> gin_context \<times> 'r gateway \<times> nat option" where
  "ws_route parse tm now t upgrade cfg c g =
     (let token = lookup_str (rq_query c) ''token''
      in if token = [] then (json 401 (ErrorBody ''Token required'') c, g, None)
         else case ParseToken parse tm now token of
             Inl err \<Rightarrow> (json 401 (ErrorBody ''Invalid token'') c, g, None)
           | Inr cl \<Rightarrow>
               (case upgrade c of
                  Some err \<Rightarrow> (c, g, None)
                | None \<Rightarrow>
                    (let (i, g') = AddConnection cfg t now (c_UserID cl) (lookup_str (rq_query c) ''guild_id'') g
                     in (c, g', Some i))))"

section \<open>The HTTP engine\<close>

text \<open>The state of a node: the message world, the gateway and the goroutines started for connections.  The gateway and
  the services use one Redis client, whose state is the message world's.\<close>

datatype goroutine = ReadPump nat | WritePump nat

record ('d, 's) server =
  sv_world :: "('d, 's) msg_world"
  sv_gateway :: "'s gateway"
  sv_spawned :: "goroutine list"

definition gateway_of :: "('d, 's) server \<Rightarrow> 's gateway" where
  "gateway_of sv = (sv_gateway sv)\<lparr>gw_redis := mw_redis (sv_world sv)\<rparr>"

definition put_gateway :: "'s gateway \<Rightarrow> ('d, 's) server \<Rightarrow> ('d, 's) server" where
  "put_gateway g sv = sv\<lparr>sv_gateway := g, sv_world := (sv_world sv)\<lparr>mw_redis := gw_redis g\<rparr>\<rparr>"

definition HandleConnection :: "nat \<Rightarrow> ('d, 's) server \<Rightarrow> ('d, 's) server" where
  "HandleConnection i sv = sv\<lparr>sv_spawned := sv_spawned sv @ [ReadPump i, WritePump i]\<rparr>"

text \<open>\<open>serveFile\<close> and \<open>no_route\<close> are gin's; a static file is registered for GET and HEAD.\<close>

definition main_engine :: "('d, 's) app \<Rightarrow> draws \<Rightarrow> (gin_context \<Rightarrow> go_error option) \<Rightarrow> (string \<Rightarrow> gin_context \<Rightarrow> gin_context) \<Rightarrow>
    (gin_context \<Rightarrow> gin_context) \<Rightarrow> 's manager_config \<Rightarrow> ('d, 's) server Http.handler" where
  "main_engine app dr upgrade serveFile no_route cfg c sv =
     (if (rq_method c = ''GET'' \<or> rq_method c = ''HEAD'') \<and> (rq_path c = ''/'' \<or> rq_path c = ''/index.html'')
      then Done (serveFile ''./web/index.html'' c) sv
      else if rq_method c = ''GET'' \<and> rq_path c = ''/ws'' then
        (case ws_route (a_parse app) (a_tm app) (dr_now dr) (dr_t dr) upgrade cfg c (gateway_of sv) of
           (c', g, None) \<Rightarrow> Done c' (put_gateway g sv)
         | (c', g, Some i) \<Rightarrow> Done c' (HandleConnection i (put_gateway g sv)))
      else case RegisterRoutes app dr (\<lambda>c w. Done (no_route c) w) c (sv_world sv) of
          Done c' w \<Rightarrow> Done c' (sv\<lparr>sv_world := w\<rparr>)
        | Panicked c' w \<Rightarrow> Panicked c' (sv\<lparr>sv_world := w\<rparr>)
        | Hangs \<Rightarrow> Hangs)"

section \<open>Facts\<close>

lemma ws_route_connection:
  assumes "ws_route parse tm now t upgrade cfg c g = (c', g', Some i)" and "gw_inv g"
  shows "\<exists>cl. ParseToken parse tm now (lookup_str (rq_query c) ''token'') = Inr cl \<and> GetConnection (c_UserID cl) g' = Some i \<and>
    gw_inv g' \<and> cn_UserID (gw_heap g' ! i) = c_UserID cl"
proof -
  obtain cl where cl: "ParseToken parse tm now (lookup_str (rq_query c) ''token'') = Inr cl"
      and add: "AddConnection cfg t now (c_UserID cl) (lookup_str (rq_query c) ''guild_id'') g = (i, g')"
    using assms(1) by (auto simp: ws_route_def Let_def split: if_splits sum.splits option.splits prod.splits)
  have inv: "gw_inv g'" using manager.inv_add [OF assms(2)] add by (metis snd_conv)
  have get: "GetConnection (c_UserID cl) g' = Some i"
    using manager.get_add [OF assms(2)] add by (metis fst_conv snd_conv)
  show ?thesis using cl get inv gw_invD(2) [OF inv] by (auto simp: GetConnection_def)
qed

text \<open>Without a Kafka broker at start the server runs, without a producer.\<close>

lemma main_init_without_producer:
  assumes "main_init loaded st = Serving r" and "st_producer st = Inl e"
  shows "run_producer r = None"
  using assms by (auto simp: main_init_def split: sum.splits if_splits option.splits)

text \<open>The HTTP server only returns with an error, and the fatal log line exits without the deferred calls: the Redis client, the
  producer and the consumer are never closed.\<close>

lemma main_serve_skips_deferred:
  assumes "run (server_address sc) \<noteq> None"
  shows "snd (main_serve run sc r) = []" and "deferred r \<noteq> []"
  using assms by (auto simp: main_serve_def deferred_def)

text \<open>No bits are reserved for the datacenter, so its number is dropped.\<close>

lemma main_ignores_datacenter:
  "NewGenerator (main_sf_config sc) = Inr gen \<Longrightarrow> datacenterID gen = 0"
  by (auto simp: NewGenerator_def main_sf_config_def with_defaults_def Let_def split: if_splits)

text \<open>The bit widths of the configuration have no influence on the generator.\<close>

lemma main_ignores_bit_widths:
  "main_sf_config (sc\<lparr>sc_WorkerIDBits := a, sc_SequenceBits := b\<rparr>) = main_sf_config sc"
  by (simp add: main_sf_config_def)

section \<open>What is served without a token\<close>

text \<open>The interface of the API, route by route: which handler serves it.\<close>

definition api_route :: "('d, 's) app \<Rightarrow> draws \<Rightarrow> string \<Rightarrow> string \<Rightarrow> ('d, 's) msg_world Http.handler \<Rightarrow> bool" where
  "api_route app dr meth path h \<longleftrightarrow>
     (meth, path, h) \<in> {(''POST'', ''/api/v1/guilds'', handler_CreateGuild app dr), (''POST'', ''/api/v1/guilds/join'', handler_JoinGuild app dr),
       (''GET'', ''/api/v1/guilds'', handler_GetUserGuilds app dr), (''POST'', ''/api/v1/messages'', handler_SendMessage app dr),
       (''GET'', ''/api/v1/messages'', handler_GetMessages app dr)} \<or>
     meth = ''GET'' \<and> h = handler_GetGuildMembers app dr \<and>
       (\<exists>i. i \<noteq> [] \<and> CHR ''/'' \<notin> set i \<and> path = ''/api/v1/guilds/'' @ i @ ''/members'')"

text \<open>The token a request presents: the query's for the websocket route, the header's or else the query's for every other.\<close>

definition presented_token :: "gin_context \<Rightarrow> string" where
  "presented_token c = (if (rq_method c, rq_path c) = (''GET'', ''/ws'') then lookup_str (rq_query c) ''token'' else request_token c)"

definition web_page :: "string \<Rightarrow> string \<Rightarrow> bool" where
  "web_page meth path \<longleftrightarrow> meth \<in> {''GET'', ''HEAD''} \<and> path \<in> {''/'', ''/index.html''}"

lemma members_id_iff:
  "members_id path = Some i \<longleftrightarrow> i \<noteq> [] \<and> CHR ''/'' \<notin> set i \<and> path = ''/api/v1/guilds/'' @ i @ ''/members''"
proof
  assume l: "members_id path = Some i"
  define rest where "rest = drop 15 path"
  have i: "i = takeWhile (\<lambda>ch. ch \<noteq> CHR ''/'') rest" "i \<noteq> []" "take 15 path = ''/api/v1/guilds/''"
      "dropWhile (\<lambda>ch. ch \<noteq> CHR ''/'') rest = ''/members''"
    using l by (auto simp: members_id_def Let_def rest_def split: if_splits)
  have "path = take 15 path @ rest" by (simp add: rest_def)
  also have "rest = i @ ''/members''" using i(1,4) takeWhile_dropWhile_id [of "\<lambda>ch. ch \<noteq> CHR ''/''" rest] by metis
  finally show "i \<noteq> [] \<and> CHR ''/'' \<notin> set i \<and> path = ''/api/v1/guilds/'' @ i @ ''/members''"
    using i(1-3) by (auto dest: set_takeWhileD)
next
  assume r: "i \<noteq> [] \<and> CHR ''/'' \<notin> set i \<and> path = ''/api/v1/guilds/'' @ i @ ''/members''"
  then have "\<And>x. x \<in> set i \<Longrightarrow> x \<noteq> CHR ''/''" by auto
  then have "takeWhile (\<lambda>ch. ch \<noteq> CHR ''/'') (i @ ''/members'') = i" "dropWhile (\<lambda>ch. ch \<noteq> CHR ''/'') (i @ ''/members'') = ''/members''"
    by (simp_all add: takeWhile_append2 dropWhile_append2)
  then show "members_id path = Some i" using r by (simp add: members_id_def Let_def)
qed

lemma protected_route_iff: "protected_route app dr meth path = Some h \<longleftrightarrow> api_route app dr meth path h"
proof -
  have no: "members_id ''/api/v1/guilds'' = None" "members_id ''/api/v1/messages'' = None"
    by (simp_all add: members_id_def)
  have mem: "(\<exists>i. i \<noteq> [] \<and> CHR ''/'' \<notin> set i \<and> path = ''/api/v1/guilds/'' @ i @ ''/members'') \<longleftrightarrow> members_id path \<noteq> None"
    unfolding members_id_iff [symmetric] by simp
  consider "meth = ''POST''" | "meth = ''GET''" | "meth \<noteq> ''POST''" "meth \<noteq> ''GET''" by blast
  then show ?thesis
  proof cases
    case 1
    then show ?thesis unfolding api_route_def mem protected_route_def by (simp; force)
  next
    case 2
    then show ?thesis unfolding api_route_def mem protected_route_def using no by (simp; force)
  next
    case 3
    then show ?thesis unfolding api_route_def mem protected_route_def by simp
  qed
qed

lemma RegisterRoutes_gated:
  assumes "\<not> public_route (rq_method c) (rq_path c)" and "rs_status c = None"
  shows "request_token c = [] \<or> isl (ParseToken (a_parse app) (a_tm app) (dr_now dr) (request_token c)) \<Longrightarrow>
      \<exists>c'. RegisterRoutes app dr (\<lambda>c w. Done (no_route c) w) c w = Done c' w \<and>
        (if \<exists>h. api_route app dr (rq_method c) (rq_path c) h then rs_status c' = Some 401 \<and> rs_aborted c' else c' = no_route c)"
    and "request_token c \<noteq> [] \<Longrightarrow> ParseToken (a_parse app) (a_tm app) (dr_now dr) (request_token c) = Inr cl \<Longrightarrow>
      api_route app dr (rq_method c) (rq_path c) h \<Longrightarrow>
      \<exists>c1. RegisterRoutes app dr nr c w = h c1 w \<and> GetString_user_id c1 = c_UserID cl \<and> rq_body c1 = rq_body c \<and> rq_query c1 = rq_query c"
proof -
  define c1 where "c1 = c\<lparr>rq_params := (case members_id (rq_path c) of None \<Rightarrow> [] | Some i \<Rightarrow> [(''id'', i)])\<rparr>"
  have reg: "RegisterRoutes app dr nr c w = (case protected_route app dr (rq_method c) (rq_path c) of
      Some h \<Rightarrow> AuthMiddleware (a_parse app) (a_tm app) (dr_now dr) h c1 w | None \<Rightarrow> nr c w)" for nr
    using assms(1) unfolding c1_def RegisterRoutes_def Let_def public_route_def by auto
  have c1: "request_token c1 = request_token c" "rs_status c1 = None" "rq_body c1 = rq_body c" "rq_query c1 = rq_query c"
    using assms(2) by (simp_all add: c1_def)
  show "\<exists>c'. RegisterRoutes app dr (\<lambda>c w. Done (no_route c) w) c w = Done c' w \<and>
        (if \<exists>h. api_route app dr (rq_method c) (rq_path c) h then rs_status c' = Some 401 \<and> rs_aborted c' else c' = no_route c)"
    if "request_token c = [] \<or> isl (ParseToken (a_parse app) (a_tm app) (dr_now dr) (request_token c))"
    unfolding reg protected_route_iff [symmetric] using that c1
    by (cases "protected_route app dr (rq_method c) (rq_path c)")
      (auto simp: AuthMiddleware_def Let_def json_def Abort_def isl_def split: sum.split)
  show "\<exists>c1. RegisterRoutes app dr nr c w = h c1 w \<and> GetString_user_id c1 = c_UserID cl \<and> rq_body c1 = rq_body c \<and> rq_query c1 = rq_query c"
    if "request_token c \<noteq> []" "ParseToken (a_parse app) (a_tm app) (dr_now dr) (request_token c) = Inr cl"
      "api_route app dr (rq_method c) (rq_path c) h"
    using that(1,2) c1 that(3) [folded protected_route_iff] unfolding reg
    by (auto simp: AuthMiddleware_def GetString_user_id_def Let_def)
qed

section \<open>Property\<close>

text \<open>C11. The HTTP engine and tokens, for every request but registration and login.  A request that presents no valid token (in the
  query for the websocket route; in the header, or else in the query, for every other) leaves database, Redis, generator, gateway and goroutines as they were: the web page is served, each route of the API
  and the websocket route is answered with 401, and everything else as gin answers an unknown route.  A request with a valid token for a route of the
  API runs the handler of that route, which sees the user of the token, whatever identity the request claims, and the request's
  body and query.\<close>

theorem engine_requires_token:
  assumes "\<not> (rq_method c = ''POST'' \<and> rq_path c \<in> {''/api/v1/auth/register'', ''/api/v1/auth/login''})" and "rs_status c = None"
  shows "((presented_token c = [] \<or> isl (ParseToken (a_parse app) (a_tm app) (dr_now dr) (presented_token c))) \<longrightarrow>
      (\<exists>c' sv'. main_engine app dr upgrade serveFile no_route cfg c sv = Done c' sv' \<and> sv_world sv' = sv_world sv \<and>
        gateway_of sv' = gateway_of sv \<and> sv_spawned sv' = sv_spawned sv \<and>
        (if web_page (rq_method c) (rq_path c) then c' = serveFile ''./web/index.html'' c
         else if (rq_method c, rq_path c) = (''GET'', ''/ws'') \<or> (\<exists>h. api_route app dr (rq_method c) (rq_path c) h) then rs_status c' = Some 401
         else c' = no_route c))) \<and>
    (\<forall>cl h. request_token c \<noteq> [] \<and> ParseToken (a_parse app) (a_tm app) (dr_now dr) (request_token c) = Inr cl \<and>
      api_route app dr (rq_method c) (rq_path c) h \<longrightarrow>
      (\<exists>c1. GetString_user_id c1 = c_UserID cl \<and> rq_body c1 = rq_body c \<and> rq_query c1 = rq_query c \<and>
        (\<forall>c' w'. h c1 (sv_world sv) = Done c' w' \<longrightarrow>
           main_engine app dr upgrade serveFile no_route cfg c sv = Done c' (sv\<lparr>sv_world := w'\<rparr>))))"
proof (intro conjI impI allI)
  have pub: "\<not> public_route (rq_method c) (rq_path c)" using assms(1) by (simp add: public_route_def)
  assume tok: "presented_token c = [] \<or> isl (ParseToken (a_parse app) (a_tm app) (dr_now dr) (presented_token c))"
  show "\<exists>c' sv'. main_engine app dr upgrade serveFile no_route cfg c sv = Done c' sv' \<and> sv_world sv' = sv_world sv \<and>
        gateway_of sv' = gateway_of sv \<and> sv_spawned sv' = sv_spawned sv \<and>
        (if web_page (rq_method c) (rq_path c) then c' = serveFile ''./web/index.html'' c
         else if (rq_method c, rq_path c) = (''GET'', ''/ws'') \<or> (\<exists>h. api_route app dr (rq_method c) (rq_path c) h) then rs_status c' = Some 401
         else c' = no_route c)"
  proof (cases "web_page (rq_method c) (rq_path c)")
    case True
    then show ?thesis by (simp add: main_engine_def web_page_def)
  next
    case no_page: False
    show ?thesis
    proof (cases "(rq_method c, rq_path c) = (''GET'', ''/ws'')")
      case True
      then show ?thesis using tok assms(2) no_page
        by (auto simp: main_engine_def ws_route_def web_page_def presented_token_def json_def isl_def put_gateway_def gateway_of_def Let_def)
    next
      case False
      with RegisterRoutes_gated(1) [OF pub assms(2), of app dr no_route "sv_world sv"] tok obtain c' where
        "RegisterRoutes app dr (\<lambda>c w. Done (no_route c) w) c (sv_world sv) = Done c' (sv_world sv)"
        "if \<exists>h. api_route app dr (rq_method c) (rq_path c) h then rs_status c' = Some 401 \<and> rs_aborted c' else c' = no_route c"
        by (auto simp: presented_token_def)
      then show ?thesis using False no_page by (auto simp: main_engine_def web_page_def split: if_splits)
    qed
  qed
next
  have pub: "\<not> public_route (rq_method c) (rq_path c)" using assms(1) by (simp add: public_route_def)
  fix cl h assume valid: "request_token c \<noteq> [] \<and> ParseToken (a_parse app) (a_tm app) (dr_now dr) (request_token c) = Inr cl \<and>
      api_route app dr (rq_method c) (rq_path c) h"
  then have other: "\<not> web_page (rq_method c) (rq_path c)" "(rq_method c, rq_path c) \<noteq> (''GET'', ''/ws'')"
    by (auto simp: api_route_def web_page_def)
  from RegisterRoutes_gated(2) [OF pub assms(2), of app dr cl h "\<lambda>c w. Done (no_route c) w" "sv_world sv"] valid obtain c1 where
    "RegisterRoutes app dr (\<lambda>c w. Done (no_route c) w) c (sv_world sv) = h c1 (sv_world sv)" "GetString_user_id c1 = c_UserID cl"
    "rq_body c1 = rq_body c" "rq_query c1 = rq_query c" by auto
  then show "\<exists>c1. GetString_user_id c1 = c_UserID cl \<and> rq_body c1 = rq_body c \<and> rq_query c1 = rq_query c \<and>
        (\<forall>c' w'. h c1 (sv_world sv) = Done c' w' \<longrightarrow> main_engine app dr upgrade serveFile no_route cfg c sv = Done c' (sv\<lparr>sv_world := w'\<rparr>))"
    using other by (intro exI [of _ c1]) (auto simp: main_engine_def web_page_def)
qed

definition demo_manager0 :: "rstate manager_config" where
  "demo_manager0 = \<lparr>mc_exec = redis_run, mc_HeartbeatInterval = 30, mc_nodeID = ''node-1'', mc_sockWrite = (\<lambda>_ _ _. None),
     mc_sockClose = (\<lambda>_. None)\<rparr>"

definition demo_server :: "(tables, rstate) server" where
  "demo_server = \<lparr>sv_world = demo_world, sv_gateway = NewConnectionManager empty_redis, sv_spawned = []\<rparr>"

theorem engine_requires_token_witness:
  "\<exists>c' sv'. main_engine demo_app demo_draws (\<lambda>_. None) (\<lambda>_ c. c) id demo_manager0 (demo_get ''GET'' ''/api/v1/guilds/g-1/members'' ''x'' '''') demo_server =
      Done c' sv' \<and> rs_status c' = Some 401 \<and> sv_world sv' = demo_world"
proof -
  let ?c = "demo_get ''GET'' ''/api/v1/guilds/g-1/members'' ''x'' ''''"
  have tok: "request_token ?c = ''x''" "presented_token ?c = ''x''" "rs_status ?c = None"
    by (simp_all add: presented_token_def request_token_def demo_get_def lookup_str_def SplitN_space_def)
  have bad: "ParseToken demo_parse demo_tm 1 ''x'' = Inl ErrInvalidToken"
    by (simp add: ParseToken_def demo_parse_def JoinedIs_def jwt_ErrTokenExpired_def jwt_ErrTokenNotValidYet_def numeral_eq_Suc)
  have route: "api_route demo_app demo_draws ''GET'' ''/api/v1/guilds/g-1/members'' (handler_GetGuildMembers demo_app demo_draws)"
    unfolding api_route_def by (intro disjI2 conjI refl exI [of _ "''g-1''"]) simp_all
  have "\<not> web_page ''GET'' ''/api/v1/guilds/g-1/members''" by (simp add: web_page_def)
  moreover have rq: "rq_method ?c = ''GET''" "rq_path ?c = ''/api/v1/guilds/g-1/members''" by (simp_all add: demo_get_def)
  moreover have "isl (ParseToken (a_parse demo_app) (a_tm demo_app) (dr_now demo_draws) (presented_token ?c))"
    using bad tok by (simp add: demo_app_def demo_draws_def)
  ultimately show ?thesis
    using engine_requires_token [of ?c demo_app demo_draws "\<lambda>_. None" "\<lambda>_ c. c" id demo_manager0 demo_server] tok(3) route
    by (auto simp: demo_server_def split: if_splits)
qed

end
