(* ===== verification/Programs.thy ===== *)
theory Programs
  imports MessageService
begin

text \<open>
  The operations that serve requests as programs over the shared services: a program returns or performs one
  effect (a statement on the database, a draw from the snowflake generator, a pipeline of Redis commands) and goes on with its
  reply.  \<open>run_prog\<close> runs a program alone; each program is proved equal to the operation of
  \<open>AuthService\<close>, \<open>GuildService\<close> or \<open>MessageService\<close> it stands for.  The effects are where requests of different
  clients can interleave; \<open>Concurrency\<close> interleaves them.
\<close>

section \<open>Programs\<close>

datatype 'a prog =
    Return 'a
  | Query stmt "rows result \<Rightarrow> 'a prog"
  | Draw "sf_error + int \<Rightarrow> 'a prog"
  | Command "redis_cmd list" "redis_reply list result \<Rightarrow> 'a prog"

primrec then_do :: "'a prog \<Rightarrow> ('a \<Rightarrow> 'b prog) \<Rightarrow> 'b prog" where
  "then_do (Return a) f = f a"
| "then_do (Query q k) f = Query q (\<lambda>r. then_do (k r) f)"
| "then_do (Draw k) f = Draw (\<lambda>r. then_do (k r) f)"
| "then_do (Command cs k) f = Command cs (\<lambda>r. then_do (k r) f)"

primrec run_prog :: "'d database \<Rightarrow> 's redis \<Rightarrow> (nat \<Rightarrow> int) \<Rightarrow> int \<Rightarrow> 'a prog \<Rightarrow> ('d, 's) msg_world \<Rightarrow> ('a \<times> ('d, 's) msg_world) option" where
  "run_prog db exec clock t (Return a) w = Some (a, w)"
| "run_prog db exec clock t (Query q k) w =
     (case db t q (mw_db w) of (r, d) \<Rightarrow> run_prog db exec clock t (k r) (w\<lparr>mw_db := d\<rparr>))"
| "run_prog db exec clock t (Draw k) w =
     (case NextID clock (mw_tick w) (mw_gen w) of
        None \<Rightarrow> None
      | Some (r, g, n) \<Rightarrow> run_prog db exec clock t (k r) (w\<lparr>mw_gen := g, mw_tick := n\<rparr>))"
| "run_prog db exec clock t (Command cs k) w =
     (case exec t cs (mw_redis w) of (r, s) \<Rightarrow> run_prog db exec clock t (k r) (w\<lparr>mw_redis := s\<rparr>))"

lemma run_then_do:
  "run_prog db exec clock t (then_do p f) w =
     (case run_prog db exec clock t p w of None \<Rightarrow> None | Some (a, w') \<Rightarrow> run_prog db exec clock t (f a) w')"
  by (induction p arbitrary: w) (auto split: prod.split option.split)

lemma then_do_assoc: "then_do (then_do p f) g = then_do p (\<lambda>a. then_do (f a) g)"
  by (induction p) simp_all

lemma run_map_prog:
  "run_prog db exec clock t (map_prog h p) w = map_option (map_prod h id) (run_prog db exec clock t p w)"
  by (induction p arbitrary: w) (auto split: prod.split option.split)

section \<open>The repositories\<close>

definition first_of :: "(rows \<Rightarrow> 'a list) \<Rightarrow> rows result \<Rightarrow> 'a result" where
  "first_of read r =
     (case r of Inl e \<Rightarrow> Inl e | Inr rs \<Rightarrow> (case read rs of [] \<Rightarrow> Inl ErrRecordNotFound | x # _ \<Rightarrow> Inr x))"

definition all_of :: "(rows \<Rightarrow> 'a) \<Rightarrow> rows result \<Rightarrow> 'a result" where
  "all_of read r = (case r of Inl e \<Rightarrow> Inl e | Inr rs \<Rightarrow> Inr (read rs))"

lemma query_all_of: "query db t q read d = (case db t q d of (r, d') \<Rightarrow> (all_of read r, d'))"
  by (auto simp: query_def all_of_def split: prod.split sum.split)

lemma query_first_of: "query_first db t q read d = (case db t q d of (r, d') \<Rightarrow> (first_of read r, d'))"
  by (auto simp: query_first_def first_of_def split: prod.split sum.split list.split)

definition user_Create_p :: "user \<Rightarrow> user result prog" where
  "user_Create_p u = Query (InsertUser u) (\<lambda>r. Return (first_of user_rows r))"

definition user_FindByID_p :: "string \<Rightarrow> user result prog" where
  "user_FindByID_p i = Query (FirstUserById i) (\<lambda>r. Return (first_of user_rows r))"

definition user_FindByUsername_p :: "string \<Rightarrow> user result prog" where
  "user_FindByUsername_p n = Query (FirstUserByName n) (\<lambda>r. Return (first_of user_rows r))"

definition guild_Create_p :: "guild \<Rightarrow> guild result prog" where
  "guild_Create_p g = Query (InsertGuild g) (\<lambda>r. Return (first_of guild_rows r))"

definition FindByInviteCode_p :: "string \<Rightarrow> guild result prog" where
  "FindByInviteCode_p code = Query (FirstGuildByCode code) (\<lambda>r. Return (first_of guild_rows r))"

definition AddMember_p :: "string \<Rightarrow> string \<Rightarrow> string \<Rightarrow> unit result prog" where
  "AddMember_p uuid guildID userID =
     Query (InsertMember \<lparr>gm_ID = generateID uuid, gm_GuildID = guildID, gm_UserID = userID, gm_JoinedAt = 0\<rparr>)
       (\<lambda>r. Return (all_of (\<lambda>_. ()) r))"

definition GetMemberGuilds_p :: "string \<Rightarrow> guild list result prog" where
  "GetMemberGuilds_p userID = Query (GuildsOfUser userID) (\<lambda>r. Return (all_of guild_rows r))"

definition message_Create_p :: "message \<Rightarrow> message result prog" where
  "message_Create_p m = Query (InsertMessage m) (\<lambda>r. Return (first_of message_rows r))"

definition FindByGuild_p :: "string \<Rightarrow> int \<Rightarrow> int \<Rightarrow> message list result prog" where
  "FindByGuild_p guildID afterSeqID limit =
     Query (MessagesOfGuild guildID (if 0 < afterSeqID then Some afterSeqID else None) limit)
       (\<lambda>r. Return (all_of message_rows r))"

lemmas repository_programs = user_Create_p_def user_FindByID_p_def user_FindByUsername_p_def guild_Create_p_def
  FindByInviteCode_p_def AddMember_p_def GetMemberGuilds_p_def message_Create_p_def FindByGuild_p_def

section \<open>The services\<close>

definition create_user_p :: "bcrypt_gen \<Rightarrow> string \<Rightarrow> register_request \<Rightarrow> user result prog" where
  "create_user_p gen uuid req =
     (case hashPassword gen (rr_Password req) of
        Inl e \<Rightarrow> Return (Inl (Wrap ''failed to hash password'' e))
      | Inr hashedPassword \<Rightarrow>
          then_do (user_Create_p (new_user uuid hashedPassword req)) (\<lambda>res.
            Return (case res of Inl e \<Rightarrow> Inl (Wrap ''failed to create user'' e) | Inr u \<Rightarrow> Inr u)))"

definition Register_p :: "bcrypt_gen \<Rightarrow> string \<Rightarrow> register_request \<Rightarrow> user result prog" where
  "Register_p gen uuid req =
     then_do (user_FindByUsername_p (rr_Username req)) (\<lambda>res.
       case res of
         Inr existingUser \<Rightarrow> Return (Inl ErrUserAlreadyExists)
       | Inl e \<Rightarrow>
           if \<not> errors_Is e ErrRecordNotFound then Return (Inl (Wrap ''failed to check existing user'' e))
           else create_user_p gen uuid req)"

function generateUniqueInviteCode_p :: "(nat \<Rightarrow> draw) \<Rightarrow> nat \<Rightarrow> string result prog" where
  "generateUniqueInviteCode_p src i =
     (if i < maxAttempts then
        then_do (FindByInviteCode_p (generateInviteCode (src i))) (\<lambda>res.
          case res of
            Inl e \<Rightarrow>
              if errors_Is e ErrRecordNotFound then Return (Inr (generateInviteCode (src i)))
              else Return (Inl (Wrap ''failed to check invite code'' e))
          | Inr g \<Rightarrow> generateUniqueInviteCode_p src (i + 1))
      else Return (Inl (Err ''failed to generate unique invite code after maximum attempts'')))"
  by pat_completeness auto
termination
  by (relation "measure (\<lambda>(src, i). maxAttempts - i)") auto

declare generateUniqueInviteCode_p.simps [simp del]

definition CreateGuild_p :: "(nat \<Rightarrow> draw) \<Rightarrow> string \<Rightarrow> string \<Rightarrow> string \<Rightarrow> string \<Rightarrow> guild result prog" where
  "CreateGuild_p src uuid uuidm userID name =
     then_do (user_FindByID_p userID) (\<lambda>res.
       case res of
         Inl e \<Rightarrow>
           if errors_Is e ErrRecordNotFound then Return (Inl user_not_found)
           else Return (Inl (Wrap ''failed to find user'' e))
       | Inr user \<Rightarrow>
           then_do (generateUniqueInviteCode_p src 0) (\<lambda>res.
             case res of
               Inl e \<Rightarrow> Return (Inl (Wrap ''failed to generate invite code'' e))
             | Inr inviteCode \<Rightarrow>
                 then_do (guild_Create_p (new_guild uuid name (u_ID user) inviteCode)) (\<lambda>res.
                   case res of
                     Inl e \<Rightarrow> Return (Inl (Wrap ''failed to create guild'' e))
                   | Inr guild \<Rightarrow>
                       then_do (AddMember_p uuidm (g_ID guild) userID) (\<lambda>res.
                         Return (case res of
                             Inl e \<Rightarrow> Inl (Wrap ''failed to add creator as member'' e)
                           | Inr _ \<Rightarrow> Inr guild)))))"

definition IsMember_p :: "string \<Rightarrow> string \<Rightarrow> bool result prog" where
  "IsMember_p userID guildID =
     then_do (GetMemberGuilds_p userID) (\<lambda>res.
       Return (case res of
           Inl e \<Rightarrow> Inl (Wrap ''failed to get user guilds'' e)
         | Inr guilds \<Rightarrow> Inr (list_ex (\<lambda>g. g_ID g = guildID) guilds)))"

definition JoinGuild_p :: "string \<Rightarrow> string \<Rightarrow> string \<Rightarrow> unit result prog" where
  "JoinGuild_p uuidm userID inviteCode =
     then_do (user_FindByID_p userID) (\<lambda>res.
       case res of
         Inl e \<Rightarrow>
           if errors_Is e ErrRecordNotFound then Return (Inl user_not_found)
           else Return (Inl (Wrap ''failed to find user'' e))
       | Inr user \<Rightarrow>
           then_do (FindByInviteCode_p inviteCode) (\<lambda>res.
             case res of
               Inl e \<Rightarrow>
                 if errors_Is e ErrRecordNotFound then Return (Inl ErrInvalidInviteCode)
                 else Return (Inl (Wrap ''failed to find guild'' e))
             | Inr guild \<Rightarrow>
                 then_do (IsMember_p (u_ID user) (g_ID guild)) (\<lambda>res.
                   case res of
                     Inl e \<Rightarrow> Return (Inl (Wrap ''failed to check membership'' e))
                   | Inr isMember \<Rightarrow>
                       if isMember then Return (Inl ErrAlreadyMember)
                       else
                         then_do (AddMember_p uuidm (g_ID guild) (u_ID user)) (\<lambda>res.
                           Return (case res of
                               Inl e \<Rightarrow> Inl (Wrap ''failed to add member'' e)
                             | Inr _ \<Rightarrow> Inr ())))))"

definition GenerateSeqID_p :: "string \<Rightarrow> int result prog" where
  "GenerateSeqID_p guildID =
     Command [INCR (seq_key guildID)] (\<lambda>r.
       Return (case r of
           Inl e \<Rightarrow> Inl (Wrap (''failed to generate seq id for guild '' @ guildID) e)
         | Inr rs \<Rightarrow> Inr (int_reply rs)))"

definition publishMessage_p :: "ws_marshal \<Rightarrow> int \<Rightarrow> message \<Rightarrow> string \<Rightarrow> go_error option prog" where
  "publishMessage_p marshal stamp message username =
     (case marshal (pb_message message stamp username) of
        Inl e \<Rightarrow> Return (Some (Wrap ''failed to marshal message'' e))
      | Inr data \<Rightarrow>
          (let channel = guild_channel (m_GuildID message)
           in Command [PUBLISH channel data] (\<lambda>r.
                Return (case r of
                    Inl e \<Rightarrow> Some (Wrap (''failed to publish to channel '' @ channel) (Wrap (''failed to publish to channel '' @ channel) e))
                  | Inr rs \<Rightarrow> None))))"

text \<open>The goroutines of \<^verbatim>\<open>SendMessage\<close> have one effect each: \<open>publish_first\<close> tells which of the two comes first.\<close>

definition store_and_publish_p :: "ws_marshal \<Rightarrow> int \<Rightarrow> bool \<Rightarrow> message \<Rightarrow> message result prog" where
  "store_and_publish_p marshal stamp publish_first message =
     then_do (user_FindByID_p (m_UserID message)) (\<lambda>user.
       let username = (case user of Inl e \<Rightarrow> ''Unknown'' | Inr u \<Rightarrow> u_UserName u);
           publish = publishMessage_p marshal stamp message username;
           finish = (\<lambda>dbErr. Return (case dbErr of
               Inl e \<Rightarrow> Inl (Wrap ''failed to save message to database'' e)
             | Inr stored \<Rightarrow> Inr stored))
       in if publish_first then then_do publish (\<lambda>_. then_do (message_Create_p message) finish)
          else then_do (message_Create_p message) (\<lambda>dbErr. then_do publish (\<lambda>_. finish dbErr)))"

definition SendMessage_p :: "ws_marshal \<Rightarrow> int \<Rightarrow> int \<Rightarrow> bool \<Rightarrow> string \<Rightarrow> string \<Rightarrow> string \<Rightarrow> message result prog" where
  "SendMessage_p marshal created stamp publish_first userID guildID content =
     (if length content = 0 then Return (Inl ErrInvalidMessageContent)
      else if length content > 2000 then Return (Inl ErrInvalidMessageContent)
      else
        then_do (IsMember_p userID guildID) (\<lambda>res.
          case res of
            Inl e \<Rightarrow> Return (Inl (Wrap ''failed to check guild membership'' e))
          | Inr isMember \<Rightarrow>
              if \<not> isMember then Return (Inl ErrUserNotInGuild)
              else
                Draw (\<lambda>res.
                  case res of
                    Inl e \<Rightarrow> Return (Inl (Wrap ''failed to generate snowflake ID'' (Err (sf_message e))))
                  | Inr snowflakeID \<Rightarrow>
                      then_do (GenerateSeqID_p guildID) (\<lambda>res.
                        case res of
                          Inl e \<Rightarrow> Return (Inl (Wrap ''failed to generate seq ID'' e))
                        | Inr seqID \<Rightarrow>
                            store_and_publish_p marshal stamp publish_first
                              \<lparr>m_ID = FormatInt snowflakeID, m_UserID = userID, m_GuildID = guildID, m_Content = content,
                               m_SeqID = seqID, m_CreatedAt = created\<rparr>))))"

definition GetMessages_p :: "string \<Rightarrow> int \<Rightarrow> int \<Rightarrow> (message list \<times> bool) result prog" where
  "GetMessages_p guildID lastSeqID limit0 =
     (let limit = page_limit limit0
      in then_do (FindByGuild_p guildID lastSeqID (limit + 1)) (\<lambda>res.
           Return (case res of
               Inl e \<Rightarrow> Inl (Wrap ''failed to retrieve messages'' e)
             | Inr msgs \<Rightarrow>
                 (let hasMore = (limit < int (length msgs))
                  in Inr (if hasMore then take (nat limit) msgs else msgs, hasMore)))))"

section \<open>A program run alone is the operation\<close>

definition on_db :: "('a \<times> 'd) \<Rightarrow> ('d, 's) msg_world \<Rightarrow> ('a \<times> ('d, 's) msg_world) option" where
  "on_db rd w = (case rd of (r, d) \<Rightarrow> Some (r, w\<lparr>mw_db := d\<rparr>))"

lemma run_repository [simp]:
  "run_prog db exec clock t (user_Create_p u) w = on_db (user_Create db t u (mw_db w)) w"
  "run_prog db exec clock t (user_FindByID_p i) w = on_db (user_FindByID db t i (mw_db w)) w"
  "run_prog db exec clock t (user_FindByUsername_p i) w = on_db (user_FindByUsername db t i (mw_db w)) w"
  "run_prog db exec clock t (guild_Create_p g) w = on_db (guild_Create db t g (mw_db w)) w"
  "run_prog db exec clock t (FindByInviteCode_p i) w = on_db (FindByInviteCode db t i (mw_db w)) w"
  "run_prog db exec clock t (AddMember_p uu gi ui) w = on_db (AddMember db t uu gi ui (mw_db w)) w"
  "run_prog db exec clock t (GetMemberGuilds_p i) w = on_db (GetMemberGuilds db t i (mw_db w)) w"
  "run_prog db exec clock t (message_Create_p m) w = on_db (message_Create db t m (mw_db w)) w"
  "run_prog db exec clock t (FindByGuild_p gi s l) w = on_db (FindByGuild db t gi s l (mw_db w)) w"
  by (simp_all add: repository_programs user_Create_def user_FindByID_def user_FindByUsername_def guild_Create_def
      FindByInviteCode_def AddMember_def GetMemberGuilds_def message_Create_def FindByGuild_def query_all_of query_first_of
      on_db_def split: prod.split)

lemma on_db_simps [simp]: "on_db (r, d) w = Some (r, w\<lparr>mw_db := d\<rparr>)"
  by (simp add: on_db_def)

lemma run_Register:
  "run_prog db exec clock t (Register_p gen uuid req) w = on_db (Register db gen t uuid req (mw_db w)) w"
  by (auto simp: Register_p_def Register_def create_user_p_def create_user_def run_then_do on_db_def split: prod.split sum.split)

lemma run_generateUniqueInviteCode:
  "run_prog db exec clock t (generateUniqueInviteCode_p src i) w = on_db (generateUniqueInviteCode_loop db t src i (mw_db w)) w"
proof (induction src i arbitrary: w rule: generateUniqueInviteCode_p.induct)
  case (1 src i)
  show ?case
    using 1 by (auto simp: generateUniqueInviteCode_p.simps [of src i] generateUniqueInviteCode_loop.simps [of db t src i]
        run_then_do on_db_def Let_def split: prod.split sum.split)
qed

lemma run_CreateGuild:
  "run_prog db exec clock t (CreateGuild_p src uuid uuidm u name) w = on_db (CreateGuild db t src uuid uuidm u name (mw_db w)) w"
  by (auto simp: CreateGuild_p_def CreateGuild_def generateUniqueInviteCode_def run_generateUniqueInviteCode run_then_do on_db_def
      split: prod.split sum.split)

lemma run_IsMember: "run_prog db exec clock t (IsMember_p u g) w = on_db (IsMember db t u g (mw_db w)) w"
  by (auto simp: IsMember_p_def IsMember_def run_then_do on_db_def split: prod.split sum.split)

lemma run_JoinGuild: "run_prog db exec clock t (JoinGuild_p uuidm u code) w = on_db (JoinGuild db t uuidm u code (mw_db w)) w"
  by (auto simp: JoinGuild_p_def JoinGuild_def join_check_def run_IsMember run_then_do on_db_def split: prod.split sum.split)

lemma run_GetMessages: "run_prog db exec clock t (GetMessages_p g s l) w = on_db (GetMessages db t g s l (mw_db w)) w"
  by (auto simp: GetMessages_p_def GetMessages_def run_then_do on_db_def Let_def split: prod.split sum.split)

lemma run_GenerateSeqID:
  "run_prog db exec clock t (GenerateSeqID_p g) w =
     (case GenerateSeqID exec t g (mw_redis w) of (r, s) \<Rightarrow> Some (r, w\<lparr>mw_redis := s\<rparr>))"
  by (auto simp: GenerateSeqID_p_def GenerateSeqID_def split: prod.split sum.split)

lemma run_publishMessage:
  "run_prog db exec clock t (publishMessage_p marshal stamp m n) w =
     (case publishMessage exec marshal t stamp m n (mw_redis w) of (r, s) \<Rightarrow> Some (r, w\<lparr>mw_redis := s\<rparr>))"
  by (auto simp: publishMessage_p_def publishMessage_def Publish_def run_cmd_def Let_def split: prod.split sum.split option.split)

text \<open>The two orders of the goroutines end in the same world.\<close>

lemma run_store_and_publish:
  "run_prog db exec clock t (store_and_publish_p marshal stamp publish_first m) w =
     Some (store_and_publish db exec marshal t stamp m w)"
proof -
  obtain user d1 where u: "user_FindByID db t (m_UserID m) (mw_db w) = (user, d1)" by fastforce
  define n where "n = (case user of Inl e \<Rightarrow> ''Unknown'' | Inr u \<Rightarrow> u_UserName u)"
  obtain r d2 where c: "message_Create db t m d1 = (r, d2)" by fastforce
  obtain pe s1 where p: "publishMessage exec marshal t stamp m n (mw_redis w) = (pe, s1)" by fastforce
  show ?thesis using u c p
    by (cases publish_first; cases r)
      (simp_all add: store_and_publish_p_def store_and_publish_def run_then_do run_publishMessage n_def Let_def)
qed

lemma world_updates: "w\<lparr>mw_db := d, mw_gen := g, mw_tick := k, mw_redis := s\<rparr> = w\<lparr>mw_db := d, mw_redis := s, mw_gen := g, mw_tick := k\<rparr>"
  by (cases w) simp

lemma run_SendMessage:
  "run_prog db exec clock t (SendMessage_p marshal created stamp publish_first u g content) w =
     SendMessage db exec marshal clock t created stamp u g content w"
proof -
  obtain mem d1 where m: "IsMember db t u g (mw_db w) = (mem, d1)" by fastforce
  obtain sq s1 where s: "GenerateSeqID exec t g (mw_redis w) = (sq, s1)" by fastforce
  show ?thesis using m s
    by (auto simp: SendMessage_p_def SendMessage_def run_IsMember run_then_do run_GenerateSeqID run_store_and_publish
        world_updates split: sum.split option.split)
qed

end
