(* ===== verification/Concurrency.thy ===== *)
theory Concurrency
  imports Programs
begin

text \<open>
  Requests of many clients at once.  The HTTP server runs every request in a goroutine of its own, so the effects of the
  programs of \<open>Programs\<close> interleave in any order; each effect itself is atomic (a statement in the database, a
  draw under the generator's mutex, a Redis command).  \<open>sched_step\<close> is one such effect of one running request, or
  the arrival of a request.  A request is described by a rely/guarantee condition \<open>safe\<close>: which effects it may have while the tables
  grow under it, and what holds when it responds.  The invariant of the shared state then holds in every reachable state.
\<close>

section \<open>Requests and their interleaving\<close>

datatype request =
    RegisterRequest string register_request
  | CreateGuildRequest "nat \<Rightarrow> draw" string string string string
  | JoinGuildRequest string string string
  | SendMessageRequest int int bool string string string
  | GetMessagesRequest string int int

datatype response =
    Registered "user result"
  | GuildCreated "guild result"
  | GuildJoined "unit result"
  | MessageSent "message result"
  | Page "(message list \<times> bool) result"

fun start_request :: "bcrypt_gen \<Rightarrow> ws_marshal \<Rightarrow> request \<Rightarrow> response prog" where
  "start_request gen marshal (RegisterRequest uuid req) = map_prog Registered (Register_p gen uuid req)"
| "start_request gen marshal (CreateGuildRequest src uuid uuidm u name) =
     map_prog GuildCreated (CreateGuild_p src uuid uuidm u name)"
| "start_request gen marshal (JoinGuildRequest uuidm u code) = map_prog GuildJoined (JoinGuild_p uuidm u code)"
| "start_request gen marshal (SendMessageRequest created stamp publish_first u g content) =
     map_prog MessageSent (SendMessage_p marshal created stamp publish_first u g content)"
| "start_request gen marshal (GetMessagesRequest g s l) = map_prog Page (GetMessages_p g s l)"

type_synonym ('d, 's) system = "('d, 's) msg_world \<times> (request \<times> response prog) list"

inductive sched_step :: "'d database \<Rightarrow> 's redis \<Rightarrow> (nat \<Rightarrow> int) \<Rightarrow> bcrypt_gen \<Rightarrow> ws_marshal \<Rightarrow> ('d, 's) system \<Rightarrow> ('d, 's) system \<Rightarrow> bool"
  for db exec clock gen marshal where
  arrive: "sched_step db exec clock gen marshal (w, ps) (w, ps @ [(rq, start_request gen marshal rq)])"
| query: "i < length ps \<Longrightarrow> ps ! i = (rq, Query q k) \<Longrightarrow> db t q (mw_db w) = (r, d) \<Longrightarrow>
    sched_step db exec clock gen marshal (w, ps) (w\<lparr>mw_db := d\<rparr>, ps[i := (rq, k r)])"
| draw: "i < length ps \<Longrightarrow> ps ! i = (rq, Draw k) \<Longrightarrow> NextID clock (mw_tick w) (mw_gen w) = Some (r, g, n) \<Longrightarrow>
    sched_step db exec clock gen marshal (w, ps) (w\<lparr>mw_gen := g, mw_tick := n\<rparr>, ps[i := (rq, k r)])"
| command: "i < length ps \<Longrightarrow> ps ! i = (rq, Command cs k) \<Longrightarrow> exec t cs (mw_redis w) = (r, s) \<Longrightarrow>
    sched_step db exec clock gen marshal (w, ps) (w\<lparr>mw_redis := s\<rparr>, ps[i := (rq, k r)])"

section \<open>The shared state\<close>

definition grows :: "tables \<Rightarrow> tables \<Rightarrow> bool" where
  "grows d d' \<longleftrightarrow> set (t_users d) \<subseteq> set (t_users d') \<and> set (t_guilds d) \<subseteq> set (t_guilds d') \<and>
     set (t_members d) \<subseteq> set (t_members d') \<and> set (t_messages d) \<subseteq> set (t_messages d')"

lemma grows_refl [simp]: "grows d d"
  by (simp add: grows_def)

lemma grows_trans: "grows d d1 \<Longrightarrow> grows d1 d2 \<Longrightarrow> grows d d2"
  by (auto simp: grows_def)

lemma growsD:
  assumes "grows d d'"
  shows "u \<in> set (t_users d) \<Longrightarrow> u \<in> set (t_users d')" and "g \<in> set (t_guilds d) \<Longrightarrow> g \<in> set (t_guilds d')"
    and "m \<in> set (t_messages d) \<Longrightarrow> m \<in> set (t_messages d')" and "member_of d gi ui \<Longrightarrow> member_of d' gi ui"
  using assms by (auto simp: grows_def member_of_def)

text \<open>What a statement may answer and do, by the contract of the database.\<close>

definition contract :: "int \<Rightarrow> stmt \<Rightarrow> tables \<Rightarrow> rows result \<Rightarrow> tables \<Rightarrow> bool" where
  "contract t q d r d' \<longleftrightarrow>
     (case r of
        Inr rs \<Rightarrow> \<exists>rs'. sql_step t q d = (Inr rs', d') \<and> (determined q d \<longrightarrow> rows_agree rs rs')
      | Inl e \<Rightarrow> (d' = d \<or> d' = snd (sql_step t q d)) \<and> \<not> errors_Is e ErrRecordNotFound)"

context sql_database
begin

lemma db_contract: "db t q d = (r, d') \<Longrightarrow> contract t q (view d) r (view d')"
  using db_ok [of t q d] db_err [of t q d] by (auto simp: contract_def split: sum.split)

end

text \<open>A database that gives a certain answer allowed by the contract, so that what is known of the repositories applies to the
  answer.\<close>

definition answering :: "int \<Rightarrow> stmt \<Rightarrow> tables \<Rightarrow> rows result \<Rightarrow> tables \<Rightarrow> tables database" where
  "answering t q d r d' = (\<lambda>t' q' x. if t' = t \<and> q' = q \<and> x = d then (r, d') else sql_step t' q' x)"

lemma answering_database: "contract t q d r d' \<Longrightarrow> sql_database (answering t q d r d') id"
proof unfold_locales
  fix t' q' x rs x' assume c: "contract t q d r d'" and a: "answering t q d r d' t' q' x = (Inr rs, x')"
  show "\<exists>rs'. sql_step t' q' (id x) = (Inr rs', id x') \<and> (determined q' (id x) \<longrightarrow> rows_agree rs rs')"
    using a c ref_db.db_ok [of t' q' x rs x'] by (auto simp: answering_def contract_def split: if_splits)
next
  fix t' q' x e x' assume c: "contract t q d r d'" and a: "answering t q d r d' t' q' x = (Inl e, x')"
  show "(id x' = id x \<or> id x' = snd (sql_step t' q' (id x))) \<and> \<not> errors_Is e ErrRecordNotFound"
    using a c ref_db.db_err [of t' q' x e x'] by (auto simp: answering_def contract_def split: if_splits)
qed

lemma answering_eq [simp]: "answering t q d r d' t q d = (r, d')"
  by (simp add: answering_def)

text \<open>The part of the invariant on the tables: the keys, the references between the tables, and the
  authors of the messages.  Unlike \<open>membership_inv\<close> it does not say that memberships are unique.\<close>

definition shared_tables :: "tables \<Rightarrow> bool" where
  "shared_tables d \<longleftrightarrow> db_integrity d \<and>
     (\<forall>m \<in> set (t_members d). gm_GuildID m \<in> g_ID ` set (t_guilds d) \<and> gm_UserID m \<in> u_ID ` set (t_users d)) \<and>
     (\<forall>g \<in> set (t_guilds d). g_OwnerID g \<in> u_ID ` set (t_users d)) \<and>
     (\<forall>m \<in> set (t_messages d). member_of d (m_GuildID m) (m_UserID m) \<and> 0 < length (m_Content m) \<and> length (m_Content m) \<le> 2000) \<and>
     distinct (map (\<lambda>m. (m_GuildID m, m_SeqID m)) (t_messages d))"

text \<open>Which statements a request may execute: it inserts only rows whose references exist, and a message only with a sequence
  number that it has drawn and not used (\<open>own\<close>).\<close>

fun permitted :: "tables \<Rightarrow> (string \<times> int) option \<Rightarrow> stmt \<Rightarrow> bool" where
  "permitted d own (SaveUser u) = False"
| "permitted d own (InsertGuild g) = (g_OwnerID g \<in> u_ID ` set (t_users d))"
| "permitted d own (InsertMember m) = (gm_GuildID m \<in> g_ID ` set (t_guilds d) \<and> gm_UserID m \<in> u_ID ` set (t_users d))"
| "permitted d own (InsertMessage m) =
     (own = Some (m_GuildID m, m_SeqID m) \<and> member_of d (m_GuildID m) (m_UserID m) \<and>
      0 < length (m_Content m) \<and> length (m_Content m) \<le> 2000)"
| "permitted d own q = True"

fun spend :: "stmt \<Rightarrow> (string \<times> int) option \<Rightarrow> (string \<times> int) option" where
  "spend (InsertMessage m) own = None"
| "spend q own = own"

lemma contract_grows: "permitted d own q \<Longrightarrow> contract t q d r d' \<Longrightarrow> grows d d'"
  by (cases q) (auto simp: contract_def grows_def split: sum.splits if_splits)

lemma contract_integrity: "db_integrity d \<Longrightarrow> contract t q d r d' \<Longrightarrow> db_integrity d'"
  using sql_step_integrity [of d t q] by (auto simp: contract_def split: sum.splits)

text \<open>A permitted statement leaves the messages alone or appends the one its request has drawn the number of.\<close>

lemma contract_messages:
  "permitted d own q \<Longrightarrow> contract t q d r d' \<Longrightarrow>
   t_messages d' = t_messages d \<or> (\<exists>m. q = InsertMessage m \<and> t_messages d' = t_messages d @ [fill_message t m])"
  by (cases q) (auto simp: contract_def split: sum.splits if_splits)

lemma contract_members:
  "permitted d own q \<Longrightarrow> contract t q d r d' \<Longrightarrow> m \<in> set (t_members d') \<Longrightarrow>
   m \<in> set (t_members d) \<or> gm_GuildID m \<in> g_ID ` set (t_guilds d) \<and> gm_UserID m \<in> u_ID ` set (t_users d)"
  by (cases q) (auto simp: contract_def split: sum.splits if_splits)

lemma contract_guilds:
  "permitted d own q \<Longrightarrow> contract t q d r d' \<Longrightarrow> g \<in> set (t_guilds d') \<Longrightarrow>
   g \<in> set (t_guilds d) \<or> g_OwnerID g \<in> u_ID ` set (t_users d)"
  by (cases q) (auto simp: contract_def split: sum.splits if_splits)

lemma contract_shared_tables:
  assumes "shared_tables d" and "permitted d own q" and "contract t q d r d'"
    and "\<And>g s m. own = Some (g, s) \<Longrightarrow> m \<in> set (t_messages d) \<Longrightarrow> (m_GuildID m, m_SeqID m) \<noteq> (g, s)"
  shows "shared_tables d'"
proof -
  have gr: "grows d d'" by (rule contract_grows [OF assms(2,3)])
  note D = assms(1) [unfolded shared_tables_def]
  have ids: "u_ID ` set (t_users d) \<subseteq> u_ID ` set (t_users d')" "g_ID ` set (t_guilds d) \<subseteq> g_ID ` set (t_guilds d')"
    using gr by (auto simp: grows_def)
  have "gm_GuildID m \<in> g_ID ` set (t_guilds d') \<and> gm_UserID m \<in> u_ID ` set (t_users d')" if "m \<in> set (t_members d')" for m
    using contract_members [OF assms(2,3) that] D ids by blast
  moreover have "g_OwnerID g \<in> u_ID ` set (t_users d')" if "g \<in> set (t_guilds d')" for g
    using contract_guilds [OF assms(2,3) that] D ids by blast
  moreover have "(\<forall>m \<in> set (t_messages d'). member_of d' (m_GuildID m) (m_UserID m) \<and> 0 < length (m_Content m) \<and>
      length (m_Content m) \<le> 2000) \<and> distinct (map (\<lambda>m. (m_GuildID m, m_SeqID m)) (t_messages d'))"
  proof (cases "t_messages d' = t_messages d")
    case True
    then show ?thesis using D growsD(4) [OF gr] by auto
  next
    case False
    then obtain m where m: "q = InsertMessage m" "t_messages d' = t_messages d @ [fill_message t m]"
      using contract_messages [OF assms(2,3)] by blast
    then have own: "own = Some (m_GuildID m, m_SeqID m)" using assms(2) by simp
    have "(m_GuildID k, m_SeqID k) \<noteq> (m_GuildID m, m_SeqID m)" if "k \<in> set (t_messages d)" for k
      by (rule assms(4) [OF own that])
    then show ?thesis using m D growsD(4) [OF gr] assms(2) by fastforce
  qed
  ultimately show ?thesis using contract_integrity [OF _ assms(3)] D by (auto simp: shared_tables_def)
qed

section \<open>What a request may do\<close>

text \<open>\<open>safe p Q d own\<close>: however the tables grow from \<open>d\<close> between its effects, the program executes permitted statements
  only, draws at most one sequence number at a time, and responds with a value that satisfies \<open>Q\<close>.\<close>

primrec safe :: "'a prog \<Rightarrow> (tables \<Rightarrow> 'a \<Rightarrow> bool) \<Rightarrow> tables \<Rightarrow> (string \<times> int) option \<Rightarrow> bool" where
  "safe (Return a) Q d own = Q d a"
| "safe (Query q k) Q d own =
     (\<forall>d1 t r d2. grows d d1 \<longrightarrow> shared_tables d1 \<longrightarrow>
        permitted d1 own q \<and> (contract t q d1 r d2 \<longrightarrow> safe (k r) Q d2 (spend q own)))"
| "safe (Draw k) Q d own = (\<forall>r. safe (k r) Q d own)"
| "safe (Command cs k) Q d own =
     ((\<exists>ch m. cs = [PUBLISH ch m] \<and> (\<forall>r. safe (k r) Q d own)) \<or>
      (\<exists>g. cs = [INCR (seq_key g)] \<and> own = None \<and>
        (\<forall>s. safe (k (Inr [IntReply s])) Q d (Some (g, s))) \<and> (\<forall>e. safe (k (Inl e)) Q d None)))"

definition stable :: "(tables \<Rightarrow> 'a \<Rightarrow> bool) \<Rightarrow> bool" where
  "stable Q \<longleftrightarrow> (\<forall>d d' a. Q d a \<longrightarrow> grows d d' \<longrightarrow> Q d' a)"

lemma safe_grows:
  assumes "safe p Q d own" and "grows d d'" and "stable Q"
  shows "safe p Q d' own"
  using assms(1,2)
proof (induction p arbitrary: own d d')
  case (Return a)
  then show ?case using assms(3) by (auto simp: stable_def)
next
  case (Query q k)
  then show ?case by (auto dest: grows_trans)
next
  case (Draw k)
  then show ?case by (simp; blast)
next
  case (Command cs k)
  then show ?case by (simp; blast)
qed

lemma safe_map_prog: "safe (map_prog h p) Q d own = safe p (\<lambda>d a. Q d (h a)) d own"
  by (induction p arbitrary: d own) auto

text \<open>Rules for the repositories at the head of a program.\<close>

lemma safe_FindByID:
  assumes "\<And>d1 u. grows d d1 \<Longrightarrow> u \<in> set (t_users d1) \<Longrightarrow> u_ID u = i \<Longrightarrow> safe (f (Inr u)) Q d1 own"
    and "\<And>d1 e. grows d d1 \<Longrightarrow> safe (f (Inl e)) Q d1 own"
  shows "safe (then_do (user_FindByID_p i) f) Q d own"
proof -
  have "safe (f (first_of user_rows r)) Q d2 own" if "grows d d1" "contract t (FirstUserById i) d1 r d2" for d1 t r d2
  proof -
    have db: "user_FindByID (answering t (FirstUserById i) d1 r d2) t i d1 = (first_of user_rows r, d2)"
      by (simp add: user_FindByID_def query_first_of)
    note u = sql_database.FindByID_user [OF answering_database [OF that(2)] db, unfolded id_apply]
    show ?thesis using u(1,2) assms that(1) by (cases "first_of user_rows r") auto
  qed
  then show ?thesis by (simp add: user_FindByID_p_def)
qed

lemma safe_FindByUsername:
  assumes "\<And>d1 u. grows d d1 \<Longrightarrow> u \<in> set (t_users d1) \<Longrightarrow> u_UserName u = n \<Longrightarrow> safe (f (Inr u)) Q d1 own"
    and "\<And>d1 e. grows d d1 \<Longrightarrow> safe (f (Inl e)) Q d1 own"
  shows "safe (then_do (user_FindByUsername_p n) f) Q d own"
proof -
  have "safe (f (first_of user_rows r)) Q d2 own" if "grows d d1" "contract t (FirstUserByName n) d1 r d2" for d1 t r d2
  proof -
    have db: "user_FindByUsername (answering t (FirstUserByName n) d1 r d2) t n d1 = (first_of user_rows r, d2)"
      by (simp add: user_FindByUsername_def query_first_of)
    note u = sql_database.FindByUsername_user [OF answering_database [OF that(2)] db, unfolded id_apply]
    show ?thesis using u(1,2) assms that(1) by (cases "first_of user_rows r") auto
  qed
  then show ?thesis by (simp add: user_FindByUsername_p_def)
qed

lemma safe_FindByInviteCode:
  assumes "\<And>d1 g. grows d d1 \<Longrightarrow> g \<in> set (t_guilds d1) \<Longrightarrow> g_InviteCode g = c \<Longrightarrow> safe (f (Inr g)) Q d1 own"
    and "\<And>d1 e. grows d d1 \<Longrightarrow> safe (f (Inl e)) Q d1 own"
  shows "safe (then_do (FindByInviteCode_p c) f) Q d own"
proof -
  have "safe (f (first_of guild_rows r)) Q d2 own" if "grows d d1" "contract t (FirstGuildByCode c) d1 r d2" for d1 t r d2
  proof -
    have db: "FindByInviteCode (answering t (FirstGuildByCode c) d1 r d2) t c d1 = (first_of guild_rows r, d2)"
      by (simp add: FindByInviteCode_def query_first_of)
    note g = sql_database.FindByInviteCode_guild [OF answering_database [OF that(2)] db, unfolded id_apply]
    show ?thesis using g(1,2) assms that(1) by (cases "first_of guild_rows r") auto
  qed
  then show ?thesis by (simp add: FindByInviteCode_p_def)
qed

lemma safe_IsMember:
  assumes "\<And>d1 b. grows d d1 \<Longrightarrow> b \<Longrightarrow> member_of d1 g u \<Longrightarrow> safe (f (Inr b)) Q d1 own"
    and "\<And>d1. grows d d1 \<Longrightarrow> safe (f (Inr False)) Q d1 own"
    and "\<And>d1 e. grows d d1 \<Longrightarrow> \<not> (\<exists>m. e = Err m) \<Longrightarrow> safe (f (Inl e)) Q d1 own"
  shows "safe (then_do (IsMember_p u g) f) Q d own"
proof -
  define res where "res r = (case all_of guild_rows r of
      Inl e \<Rightarrow> Inl (Wrap ''failed to get user guilds'' e) | Inr gs \<Rightarrow> Inr (list_ex (\<lambda>x. g_ID x = g) gs))" for r
  have "safe (f (res r)) Q d2 own" if "grows d d1" "contract t (GuildsOfUser u) d1 r d2" for d1 t r d2
  proof -
    have db: "IsMember (answering t (GuildsOfUser u) d1 r d2) t u g d1 = (res r, d2)"
      by (auto simp: IsMember_def GetMemberGuilds_def query_all_of res_def split: sum.split)
    note m = sql_database.IsMember_set [OF answering_database [OF that(2)] db, unfolded id_apply]
    show ?thesis
    proof (cases "res r")
      case (Inl e)
      then show ?thesis using assms(3) m(1,3) that(1) by auto
    next
      case (Inr b)
      then show ?thesis using assms(1,2) m(1) m(2) [OF Inr] that(1) by (cases b) auto
    qed
  qed
  then show ?thesis by (simp add: IsMember_p_def GetMemberGuilds_p_def res_def)
qed

lemma safe_user_Create:
  assumes "\<And>d1 t. grows d d1 \<Longrightarrow> fill_user t u \<in> set (t_users d1) \<Longrightarrow> safe (f (Inr (fill_user t u))) Q d1 own"
    and "\<And>d1 e. grows d d1 \<Longrightarrow> safe (f (Inl e)) Q d1 own"
  shows "safe (then_do (user_Create_p u) f) Q d own"
proof -
  have "safe (f (first_of user_rows r)) Q d2 own" if "grows d d1" "contract t (InsertUser u) d1 r d2" for d1 t r d2
  proof -
    have db: "user_Create (answering t (InsertUser u) d1 r d2) t u d1 = (first_of user_rows r, d2)"
      by (simp add: user_Create_def query_first_of)
    have gr: "grows d d2" using contract_grows [OF _ that(2)] that(1) by (auto intro: grows_trans)
    show ?thesis
    proof (cases "first_of user_rows r")
      case (Inr u')
      note u = sql_database.user_Create_ok [OF answering_database [OF that(2)] db [unfolded Inr], unfolded id_apply]
      show ?thesis using assms(1) [OF gr, of t] u(1,2) Inr by simp
    qed (use assms(2) gr in auto)
  qed
  then show ?thesis by (simp add: user_Create_p_def)
qed

lemma safe_guild_Create:
  assumes "g_OwnerID g \<in> u_ID ` set (t_users d)"
    and "\<And>d1 t. grows d d1 \<Longrightarrow> fill_guild t g \<in> set (t_guilds d1) \<Longrightarrow> safe (f (Inr (fill_guild t g))) Q d1 own"
    and "\<And>d1 e. grows d d1 \<Longrightarrow> safe (f (Inl e)) Q d1 own"
  shows "safe (then_do (guild_Create_p g) f) Q d own"
proof -
  have ok: "permitted d1 own (InsertGuild g)" if "grows d d1" for d1 using assms(1) growsD(1) [OF that] by auto
  have "safe (f (first_of guild_rows r)) Q d2 own" if "grows d d1" "contract t (InsertGuild g) d1 r d2" for d1 t r d2
  proof -
    have db: "guild_Create (answering t (InsertGuild g) d1 r d2) t g d1 = (first_of guild_rows r, d2)"
      by (simp add: guild_Create_def query_first_of)
    have gr: "grows d d2" using contract_grows [OF ok that(2)] that(1) by (auto intro: grows_trans)
    show ?thesis
    proof (cases "first_of guild_rows r")
      case (Inr g')
      note g = sql_database.guild_Create_ok [OF answering_database [OF that(2)] db [unfolded Inr], unfolded id_apply]
      show ?thesis using assms(2) [OF gr, of t] g(1,2) Inr by simp
    qed (use assms(3) gr in auto)
  qed
  then show ?thesis using ok by (simp add: guild_Create_p_def)
qed

lemma safe_AddMember:
  assumes "g \<in> g_ID ` set (t_guilds d)" and "u \<in> u_ID ` set (t_users d)"
    and "\<And>d1. grows d d1 \<Longrightarrow> member_of d1 g u \<Longrightarrow> safe (f (Inr ())) Q d1 own"
    and "\<And>d1 e. grows d d1 \<Longrightarrow> safe (f (Inl e)) Q d1 own"
  shows "safe (then_do (AddMember_p uuid g u) f) Q d own"
proof -
  define q where "q = InsertMember \<lparr>gm_ID = generateID uuid, gm_GuildID = g, gm_UserID = u, gm_JoinedAt = 0\<rparr>"
  have ok: "permitted d1 own q" if "grows d d1" for d1
    using assms(1,2) growsD(1,2) [OF that] by (auto simp: q_def)
  have "safe (f (all_of (\<lambda>_. ()) r)) Q d2 own" if "grows d d1" "contract t q d1 r d2" for d1 t r d2
  proof -
    have db: "AddMember (answering t q d1 r d2) t uuid g u d1 = (all_of (\<lambda>_. ()) r, d2)"
      by (simp add: AddMember_def query_all_of q_def)
    have gr: "grows d d2" using contract_grows [OF ok that(2)] that(1) by (auto intro: grows_trans)
    show ?thesis
    proof (cases "all_of (\<lambda>_. ()) r")
      case (Inr x)
      note g = sql_database.AddMember_ok [OF answering_database [OF that(2)] db [unfolded Inr], unfolded id_apply]
      then have "member_of d2 g u" by (simp add: joined_def member_of_def)
      then show ?thesis using assms(3) [OF gr] Inr by simp
    qed (use assms(4) gr in auto)
  qed
  then show ?thesis using ok by (simp add: AddMember_p_def q_def [symmetric]) (simp add: q_def)
qed

lemma safe_message_Create:
  assumes "own = Some (m_GuildID m, m_SeqID m)" and "member_of d (m_GuildID m) (m_UserID m)"
    and "0 < length (m_Content m)" and "length (m_Content m) \<le> 2000"
    and "\<And>d1 t. grows d d1 \<Longrightarrow> fill_message t m \<in> set (t_messages d1) \<Longrightarrow> safe (f (Inr (fill_message t m))) Q d1 None"
    and "\<And>d1 e. grows d d1 \<Longrightarrow> safe (f (Inl e)) Q d1 None"
  shows "safe (then_do (message_Create_p m) f) Q d own"
proof -
  have ok: "permitted d1 own (InsertMessage m)" if "grows d d1" for d1
    using assms(1-4) growsD(4) [OF that] by auto
  have "safe (f (first_of message_rows r)) Q d2 None" if "grows d d1" "contract t (InsertMessage m) d1 r d2" for d1 t r d2
  proof -
    have db: "message_Create (answering t (InsertMessage m) d1 r d2) t m d1 = (first_of message_rows r, d2)"
      by (simp add: message_Create_def query_first_of)
    have gr: "grows d d2" using contract_grows [OF ok that(2)] that(1) by (auto intro: grows_trans)
    show ?thesis
    proof (cases "first_of message_rows r")
      case (Inr m')
      note g = sql_database.message_Create_ok [OF answering_database [OF that(2)] db [unfolded Inr], unfolded id_apply]
      show ?thesis using assms(5) [OF gr, of t] g Inr by simp
    qed (use assms(6) gr in auto)
  qed
  then show ?thesis using ok by (simp add: message_Create_p_def)
qed

lemma safe_generateUniqueInviteCode:
  assumes "\<And>d1 res. grows d d1 \<Longrightarrow> safe (f res) Q d1 own"
  shows "safe (then_do (generateUniqueInviteCode_p src i) f) Q d own"
  using assms
proof (induction src i arbitrary: d rule: generateUniqueInviteCode_p.induct)
  case (1 src i)
  show ?case
  proof (cases "i < maxAttempts")
    case True
    show ?thesis unfolding generateUniqueInviteCode_p.simps [of src i] if_P [OF True] then_do_assoc
    proof (rule safe_FindByInviteCode)
      fix d1 g assume gr: "grows d d1"
      have "safe (then_do (generateUniqueInviteCode_p src (i + 1)) f) Q d1 own"
        by (rule "1.IH") (use True gr "1.prems" in \<open>auto intro: grows_trans\<close>)
      then show "safe (then_do (case Inr g of
            Inl e \<Rightarrow> if errors_Is e ErrRecordNotFound then Return (Inr (generateInviteCode (src i)))
              else Return (Inl (Wrap ''failed to check invite code'' e))
          | Inr g \<Rightarrow> generateUniqueInviteCode_p src (i + 1)) f) Q d1 own" by simp
    qed (use 1(2) in simp)
  next
    case False
    then show ?thesis using 1(2) [OF grows_refl] by (simp add: generateUniqueInviteCode_p.simps [of src i])
  qed
qed

section \<open>The requests are safe\<close>

text \<open>What holds of a response, at the time of the response and ever after.\<close>

fun response_ok :: "request \<Rightarrow> tables \<Rightarrow> response \<Rightarrow> bool" where
  "response_ok (RegisterRequest uuid req) d (Registered res) =
     (case res of
        Inr u \<Rightarrow> u \<in> set (t_users d) \<and> u_ID u = uuid \<and> u_UserName u = rr_Username req
      | Inl e \<Rightarrow> e = ErrUserAlreadyExists \<longrightarrow> (\<exists>u \<in> set (t_users d). u_UserName u = rr_Username req))"
| "response_ok (CreateGuildRequest src uuid uuidm u name) d (GuildCreated res) =
     (\<forall>g. res = Inr g \<longrightarrow> g \<in> set (t_guilds d) \<and> g_ID g = uuid \<and> g_Name g = name \<and> g_OwnerID g = u \<and> member_of d uuid u)"
| "response_ok (JoinGuildRequest uuidm u code) d (GuildJoined res) =
     (res = Inr () \<or> res = Inl ErrAlreadyMember \<longrightarrow> (\<exists>g \<in> set (t_guilds d). g_InviteCode g = code \<and> member_of d (g_ID g) u))"
| "response_ok (SendMessageRequest created stamp publish_first u g content) d (MessageSent res) =
     (case res of
        Inr m \<Rightarrow> m \<in> set (t_messages d) \<and> m_UserID m = u \<and> m_GuildID m = g \<and> m_Content m = content \<and> member_of d g u
      | Inl e \<Rightarrow> e = ErrInvalidMessageContent \<longleftrightarrow> \<not> (0 < length content \<and> length content \<le> 2000))"
| "response_ok (GetMessagesRequest g s l) d (Page res) =
     (\<forall>ms hasMore. res = Inr (ms, hasMore) \<longrightarrow>
        set ms \<subseteq> {m \<in> set (t_messages d). m_GuildID m = g \<and> (0 < s \<longrightarrow> s < m_SeqID m)} \<and> length ms \<le> 100 \<and>
        distinct (map m_SeqID ms) \<and> sorted (map m_SeqID (if 0 < s then ms else rev ms)))"
| "response_ok _ d _ = False"

lemma stable_response_ok: "stable (response_ok rq)"
proof -
  have "response_ok rq d' a" if ok: "response_ok rq d a" and gr: "grows d d'" for d d' a
  proof (cases rq)
    case (RegisterRequest uuid req)
    with ok growsD(1) [OF gr] show ?thesis by (cases a) (auto split: sum.splits)
  next
    case (CreateGuildRequest src uuid uuidm u name)
    with ok growsD(2,4) [OF gr] show ?thesis by (cases a) auto
  next
    case (JoinGuildRequest uuidm u code)
    with ok growsD(2,4) [OF gr] show ?thesis by (cases a) (simp_all, blast)
  next
    case (SendMessageRequest created stamp publish_first u g content)
    with ok growsD(3,4) [OF gr] show ?thesis by (cases a) (auto split: sum.splits)
  next
    case (GetMessagesRequest g s l)
    with ok growsD(3) [OF gr] show ?thesis by (cases a) (simp_all, blast)
  qed
  then show ?thesis by (auto simp: stable_def)
qed

lemma safe_Register:
  "safe (start_request gen marshal (RegisterRequest uuid req)) (response_ok (RegisterRequest uuid req)) d None"
  by (auto simp: safe_map_prog Register_p_def create_user_p_def ErrUserAlreadyExists_def new_user_def split: sum.split
      intro!: safe_FindByUsername safe_user_Create)

lemma safe_CreateGuild:
  "safe (start_request gen marshal (CreateGuildRequest src uuid uuidm u name))
     (response_ok (CreateGuildRequest src uuid uuidm u name)) d None"
  unfolding start_request.simps safe_map_prog CreateGuild_p_def
proof (rule safe_FindByID, goal_cases)
  case (1 d1 v)
  have v: "u \<in> u_ID ` set (t_users d2)" if "grows d1 d2" for d2 using 1 growsD(1) [OF that] by auto
  have g: "g_ID g \<in> g_ID ` set (t_guilds d2)" if "g \<in> set (t_guilds d2)" for g d2 using that by simp
  show ?case unfolding sum.case 1(3)
  proof (rule safe_generateUniqueInviteCode, goal_cases)
    case (1 d2 res)
    show ?case
    proof (cases res)
      case (Inr code)
      show ?thesis unfolding Inr sum.case
      proof (rule safe_guild_Create, goal_cases)
        case (2 d3 t)
        have gr: "grows d1 d3" by (rule grows_trans [OF 1 2(1)])
        show ?case unfolding sum.case
          using g [OF 2(2)] growsD(2) [OF _ 2(2)]
          by (intro safe_AddMember) (auto simp: new_guild_def intro: v [OF gr])
      qed (use v [OF 1] in \<open>auto simp: new_guild_def\<close>)
    qed simp
  qed
qed auto

lemma safe_JoinGuild:
  "safe (start_request gen marshal (JoinGuildRequest uuidm u code)) (response_ok (JoinGuildRequest uuidm u code)) d None"
  unfolding start_request.simps safe_map_prog JoinGuild_p_def
proof (rule safe_FindByID, goal_cases)
  case (1 d1 v)
  show ?case unfolding sum.case 1(3)
  proof (rule safe_FindByInviteCode, goal_cases)
    case (1 d2 g)
    note g = this
    have v: "u \<in> u_ID ` set (t_users d3)" if "grows d2 d3" for d3
      using \<open>v \<in> set (t_users d1)\<close> \<open>u_ID v = u\<close> growsD(1) [OF grows_trans [OF g(1) that]] by auto
    have j: "\<exists>h \<in> set (t_guilds d3). g_InviteCode h = code \<and> member_of d3 (g_ID h) u"
      if "member_of d3 (g_ID g) u" "grows d2 d3" for d3 using g(2,3) growsD(2) [OF that(2)] that(1) by blast
    have id: "g_ID g \<in> g_ID ` set (t_guilds d3)" if "grows d2 d3" for d3 using g(2) growsD(2) [OF that] by blast
    show ?case unfolding sum.case
      by (intro safe_IsMember) (auto simp: ErrAlreadyMember_def intro!: safe_AddMember v id j intro: grows_trans)
  qed (auto simp: ErrInvalidInviteCode_def ErrAlreadyMember_def)
qed (auto simp: user_not_found_def ErrAlreadyMember_def)

lemma safe_publishMessage:
  assumes "\<And>e. safe (f e) Q d own"
  shows "safe (then_do (publishMessage_p marshal stamp m n) f) Q d own"
  using assms by (auto simp: publishMessage_p_def Let_def split: sum.split)

lemma safe_GenerateSeqID:
  assumes "\<And>s. safe (f (Inr s)) Q d (Some (g, s))" and "\<And>e. safe (f (Inl (Wrap (''failed to generate seq id for guild '' @ g) e))) Q d None"
  shows "safe (then_do (GenerateSeqID_p g) f) Q d None"
  using assms by (simp add: GenerateSeqID_p_def)

lemma safe_store_and_publish:
  assumes "own = Some (m_GuildID m, m_SeqID m)" and "member_of d (m_GuildID m) (m_UserID m)"
    and "0 < length (m_Content m)" and "length (m_Content m) \<le> 2000"
    and "\<And>d1 t. grows d d1 \<Longrightarrow> fill_message t m \<in> set (t_messages d1) \<Longrightarrow> Q d1 (Inr (fill_message t m))"
    and "\<And>d1 e. grows d d1 \<Longrightarrow> Q d1 (Inl (Wrap ''failed to save message to database'' e))"
  shows "safe (store_and_publish_p marshal stamp publish_first m) Q d own"
proof -
  have create: "safe (then_do (message_Create_p m) f) Q d1 own"
    if "grows d d1" "\<And>res d2. safe (f res) Q d2 None = Q d2 (case res of
        Inl e \<Rightarrow> Inl (Wrap ''failed to save message to database'' e) | Inr stored \<Rightarrow> Inr stored)" for d1 f
    by (rule safe_message_Create)
      (use assms(1-4) growsD(4) [OF that(1)] assms(5,6) [OF grows_trans [OF that(1)]] in \<open>auto simp: that(2)\<close>)
  have finish: "safe (then_do (publishMessage_p marshal stamp m n) (\<lambda>_. Return x)) Q d2 None = Q d2 x" for n x d2
    by (auto simp: publishMessage_p_def Let_def split: sum.split)
  show ?thesis unfolding store_and_publish_p_def
    by (rule safe_FindByID)
      (auto simp: Let_def finish intro!: safe_publishMessage create)
qed

lemma safe_SendMessage:
  "safe (start_request gen marshal (SendMessageRequest created stamp publish_first u g content))
     (response_ok (SendMessageRequest created stamp publish_first u g content)) d None"
proof (cases "0 < length content \<and> length content \<le> 2000")
  case True
  then have c: "length content \<noteq> 0" "\<not> 2000 < length content" by auto
  define Q where "Q d a = response_ok (SendMessageRequest created stamp publish_first u g content) d (MessageSent a)" for d a
  have Q: "Q d2 (Inl (Wrap a e))" "Q d2 (Inl ErrUserNotInGuild)" for d2 a e
    using True by (simp_all add: Q_def ErrInvalidMessageContent_def ErrUserNotInGuild_def)
  show ?thesis unfolding start_request.simps safe_map_prog SendMessage_p_def if_not_P [OF c(1)] if_not_P [OF c(2)] Q_def [symmetric]
  proof (rule safe_IsMember, goal_cases)
    case (1 d1 b)
    have "safe (then_do (GenerateSeqID_p g) (\<lambda>res. case res of
          Inl e \<Rightarrow> Return (Inl (Wrap ''failed to generate seq ID'' e))
        | Inr seqID \<Rightarrow> store_and_publish_p marshal stamp publish_first \<lparr>m_ID = FormatInt i, m_UserID = u, m_GuildID = g,
            m_Content = content, m_SeqID = seqID, m_CreatedAt = created\<rparr>)) Q d1 None" for i
      by (rule safe_GenerateSeqID)
        (use 1 True growsD(4) [OF _ 1(3)] Q in \<open>auto intro!: safe_store_and_publish simp: Q_def\<close>)
    then show ?case using 1(2) Q by (simp split: sum.split)
  qed (use Q in simp_all)
qed (auto simp: safe_map_prog SendMessage_p_def)

lemma safe_GetMessages:
  "safe (start_request gen marshal (GetMessagesRequest g s l)) (response_ok (GetMessagesRequest g s l)) d None"
proof -
  define q where "q = MessagesOfGuild g (if 0 < s then Some s else None) (page_limit l + 1)"
  define res where "res r = (case all_of message_rows r of
      Inl e \<Rightarrow> Inl (Wrap ''failed to retrieve messages'' e)
    | Inr msgs \<Rightarrow> (let hasMore = (page_limit l < int (length msgs))
        in Inr (if hasMore then take (nat (page_limit l)) msgs else msgs, hasMore)))" for r
  have "response_ok (GetMessagesRequest g s l) d2 (Page (res r))"
    if "shared_tables d1" "contract t q d1 r d2" for d1 t r d2
  proof -
    have db: "GetMessages (answering t q d1 r d2) t g s l d1 = (res r, d2)"
      by (auto simp: GetMessages_def FindByGuild_def query_all_of q_def res_def Let_def split: sum.split)
    have dist: "distinct (map (\<lambda>m. (m_GuildID m, m_SeqID m)) (t_messages d1))" using that(1) by (simp add: shared_tables_def)
    show ?thesis
    proof (cases "res r")
      case (Inr p)
      obtain ms more where p: "p = (ms, more)" by fastforce
      note page = sql_database.GetMessages_page [OF answering_database [OF that(2)] db [unfolded Inr p], unfolded id_apply, OF dist]
      define all where "all = (if 0 < s then log_after d1 g s else rev (guild_log d1 g))"
      have ms: "ms = take (nat (page_limit l)) all" "d2 = d1" using page by (simp_all add: all_def Let_def)
      have "set all \<subseteq> {m \<in> set (t_messages d1). m_GuildID m = g \<and> (0 < s \<longrightarrow> s < m_SeqID m)}"
        by (auto simp: all_def log_after_def guild_log_def)
      moreover have "distinct (map m_SeqID all)" "sorted (map m_SeqID (if 0 < s then all else rev all))"
        using guild_log_distinct(2) [OF dist, of g] log_after_distinct log_after_sorted
        by (auto simp: all_def rev_map [symmetric] guild_log_def)
      moreover have "sorted (map m_SeqID (if 0 < s then take n all else rev (take n all)))" for n
        using calculation(3) by (auto simp: take_map [symmetric] rev_take drop_map [symmetric] rev_map [symmetric] sorted_wrt_take sorted_wrt_drop split: if_splits)
      ultimately show ?thesis using ms page_limit_bounds [of l] unfolding Inr p
        by (auto simp: take_map [symmetric] dest: in_set_takeD)
    qed simp
  qed
  moreover have "GetMessages_p g s l = Query q (\<lambda>r. Return (res r))"
    by (simp add: GetMessages_p_def FindByGuild_p_def q_def res_def Let_def)
  moreover have "permitted d1 own q" for d1 own by (simp add: q_def)
  ultimately show ?thesis by (simp add: safe_map_prog del: response_ok.simps)
qed

lemma safe_start: "safe (start_request gen marshal rq) (response_ok rq) d None"
  by (cases rq) (simp_all only: safe_Register safe_CreateGuild safe_JoinGuild safe_SendMessage safe_GetMessages)

section \<open>The invariant of the system\<close>

text \<open>The sequence numbers that are drawn and not yet stored: no two requests hold the same one, none is stored, and none is
  above its counter.\<close>

definition held :: "tables \<Rightarrow> rstate \<Rightarrow> (nat \<Rightarrow> (string \<times> int) option) \<Rightarrow> bool" where
  "held d r own \<longleftrightarrow> (\<forall>i g s. own i = Some (g, s) \<longrightarrow> s \<le> seq_value r g \<and>
     (\<forall>m \<in> set (t_messages d). (m_GuildID m, m_SeqID m) \<noteq> (g, s)) \<and> (\<forall>j. own j = Some (g, s) \<longrightarrow> j = i))"

lemma heldD:
  assumes "held d r own" and "own i = Some (g, s)"
  shows "s \<le> seq_value r g" and "m \<in> set (t_messages d) \<Longrightarrow> m_GuildID m = g \<Longrightarrow> m_SeqID m \<noteq> s"
    and "own j = Some (g, s) \<Longrightarrow> j = i"
  using assms by (auto simp: held_def)

definition shared_inv :: "tables \<Rightarrow> rstate \<Rightarrow> bool" where
  "shared_inv d r \<longleftrightarrow> shared_tables d \<and> message_inv d r"

definition pool_safe :: "(request \<times> response prog) list \<Rightarrow> tables \<Rightarrow> (nat \<Rightarrow> (string \<times> int) option) \<Rightarrow> bool" where
  "pool_safe ps d own \<longleftrightarrow> (\<forall>i < length ps. safe (snd (ps ! i)) (response_ok (fst (ps ! i))) d (own i)) \<and>
     (\<forall>i \<ge> length ps. own i = None)"

definition system_inv :: "tables \<Rightarrow> rstate \<Rightarrow> (request \<times> response prog) list \<Rightarrow> bool" where
  "system_inv d r ps \<longleftrightarrow> (\<exists>own. shared_inv d r \<and> held d r own \<and> pool_safe ps d own)"

lemma pool_safeD: "pool_safe ps d own \<Longrightarrow> i < length ps \<Longrightarrow> ps ! i = (rq, p) \<Longrightarrow> safe p (response_ok rq) d (own i)"
  unfolding pool_safe_def by (metis fst_conv snd_conv)

lemma pool_safe_update:
  assumes "pool_safe ps d own" and "grows d d'" and "i < length ps" and "safe p (response_ok (fst (ps ! i))) d' x"
  shows "pool_safe (ps[i := (fst (ps ! i), p)]) d' (own(i := x))"
  using assms safe_grows [OF _ assms(2) stable_response_ok]
  by (auto simp: pool_safe_def nth_list_update)

text \<open>A statement of one request.\<close>

lemma system_query:
  assumes inv: "shared_inv d r" "held d r own" "pool_safe ps d own"
    and i: "i < length ps" "ps ! i = (rq, Query q k)" and c: "contract t q d x d'"
  shows "system_inv d' r (ps[i := (rq, k x)])"
proof -
  have shared: "shared_tables d" using inv(1) by (simp add: shared_inv_def)
  have "safe (Query q k) (response_ok rq) d (own i)" by (rule pool_safeD [OF inv(3) i])
  then have per: "permitted d (own i) q" and safe: "safe (k x) (response_ok rq) d' (spend q (own i))"
    using shared c grows_refl [of d] unfolding safe.simps by blast+
  have gr: "grows d d'" by (rule contract_grows [OF per c])
  have free: "(m_GuildID m, m_SeqID m) \<noteq> (g, s)" if "own i = Some (g, s)" "m \<in> set (t_messages d)" for g s m
    using inv(2) that by (auto simp: held_def)
  have tables: "shared_tables d'" by (rule contract_shared_tables [OF shared per c free])
  have msgs: "t_messages d' = t_messages d \<or> (\<exists>m. q = InsertMessage m \<and> own i = Some (m_GuildID m, m_SeqID m) \<and>
      t_messages d' = t_messages d @ [fill_message t m])"
    using contract_messages [OF per c] per by auto
  have "held d' r (own(i := spend q (own i)))"
    unfolding held_def
  proof (intro allI impI)
    fix j g s assume j: "(own(i := spend q (own i))) j = Some (g, s)"
    then have own: "own j = Some (g, s)" "\<And>k. (own(i := spend q (own i))) k = Some (g, s) \<Longrightarrow> own k = Some (g, s)"
      by (cases q; auto split: if_splits)+
    have "(m_GuildID m, m_SeqID m) \<noteq> (g, s)" if "m \<in> set (t_messages d')" for m
      using msgs that heldD(2) [OF inv(2) own(1), of m] heldD(3) [OF inv(2) own(1), of i] j by (auto split: if_splits)
    then show "s \<le> seq_value r g \<and> (\<forall>m \<in> set (t_messages d'). (m_GuildID m, m_SeqID m) \<noteq> (g, s)) \<and>
        (\<forall>k. (own(i := spend q (own i))) k = Some (g, s) \<longrightarrow> k = j)"
      using heldD(1,3) [OF inv(2) own(1)] own(2) by blast
  qed
  moreover have "message_inv d' r"
    using msgs inv(1,2) tables by (auto simp: shared_inv_def message_inv_def shared_tables_def held_def)
  moreover have "pool_safe (ps[i := (rq, k x)]) d' (own(i := spend q (own i)))"
    using pool_safe_update [OF inv(3) gr i(1)] safe i(2) by simp
  ultimately show ?thesis using tables by (auto simp: system_inv_def shared_inv_def)
qed

text \<open>A sequence number drawn by one request.\<close>

lemma system_incr:
  assumes inv: "shared_inv d r" "held d r own" "pool_safe ps d own"
    and i: "i < length ps" "ps ! i = (rq, p)" "own i = None"
    and seq: "seq_inv r'" "\<And>g'. seq_value r g' \<le> seq_value r' g'"
    and p': "safe p' (response_ok rq) d x" "x = None \<or> x = Some (g, seq_value r' g) \<and> seq_value r g < seq_value r' g"
  shows "system_inv d r' (ps[i := (rq, p')])"
proof -
  have below: "m_SeqID m \<le> seq_value r (m_GuildID m)" if "m \<in> set (t_messages d)" for m
    using inv(1) that by (simp add: shared_inv_def message_inv_def)
  have le: "s \<le> seq_value r g'" if "own j = Some (g', s)" for j g' s using inv(2) that by (auto simp: held_def)
  have "held d r' (own(i := x))" unfolding held_def
  proof (intro allI impI)
    fix j g' s assume j: "(own(i := x)) j = Some (g', s)"
    have new: "seq_value r g' < s" "s = seq_value r' g'" if "x = Some (g', s)" using p'(2) that by auto
    have only: "k = j" if "(own(i := x)) k = Some (g', s)" for k
      using j that new le [of k g' s] le [of j g' s] heldD(3) [OF inv(2), of j g' s k] by (cases "j = i"; cases "k = i") auto
    show "s \<le> seq_value r' g' \<and> (\<forall>m \<in> set (t_messages d). (m_GuildID m, m_SeqID m) \<noteq> (g', s)) \<and>
        (\<forall>k. (own(i := x)) k = Some (g', s) \<longrightarrow> k = j)"
    proof (cases "j = i")
      case True
      then have x: "x = Some (g', s)" using j by simp
      have "(m_GuildID m, m_SeqID m) \<noteq> (g', s)" if "m \<in> set (t_messages d)" for m
        using below [OF that] new(1) [OF x] by auto
      then show ?thesis using new(2) [OF x] only by blast
    next
      case False
      then have "own j = Some (g', s)" using j by simp
      note own = heldD(1,2) [OF inv(2) this]
      have "s \<le> seq_value r' g'" using own(1) seq(2) by (rule order_trans)
      then show ?thesis using own(2) only by blast
    qed
  qed
  moreover have "shared_inv d r'"
    using inv(1) message_inv_raise [OF _ seq] by (auto simp: shared_inv_def)
  moreover have "pool_safe (ps[i := (rq, p')]) d (own(i := x))"
    using pool_safe_update [OF inv(3) grows_refl i(1)] p'(1) i(2) by simp
  ultimately show ?thesis by (auto simp: system_inv_def)
qed

lemma system_other:
  assumes inv: "shared_inv d r" "held d r own" "pool_safe ps d own"
    and i: "i < length ps" "ps ! i = (rq, p)" and p': "safe p' (response_ok rq) d (own i)"
    and seq: "seq_inv r'" "\<And>g'. seq_value r' g' = seq_value r g'"
  shows "system_inv d r' (ps[i := (rq, p')])"
proof -
  have "held d r' own" using inv(2) by (simp add: held_def seq(2))
  moreover have "shared_inv d r'" using inv(1) seq by (auto simp: shared_inv_def message_inv_def)
  moreover have "pool_safe (ps[i := (rq, p')]) d own"
    using pool_safe_update [OF inv(3) grows_refl i(1), of p' "own i"] p' i(2) by simp
  ultimately show ?thesis by (auto simp: system_inv_def)
qed

context message_store
begin

abbreviation inv_of :: "('d, 's) system \<Rightarrow> bool" where
  "inv_of S \<equiv> system_inv (view (mw_db (fst S))) (store (mw_redis (fst S))) (snd S)"

lemma command_step_inv:
  assumes "inv_of (w, ps)" and i: "i < length ps" "ps ! i = (rq, Command cs k)" and x: "exec t cs (mw_redis w) = (x, s)"
  shows "inv_of (w\<lparr>mw_redis := s\<rparr>, ps[i := (rq, k x)])"
proof -
  let ?d = "view (mw_db w)" and ?r = "store (mw_redis w)"
  obtain own where inv: "shared_inv ?d ?r" "held ?d ?r own" "pool_safe ps ?d own"
    using assms(1) by (auto simp: system_inv_def)
  have sq: "seq_inv ?r" using inv(1) by (simp add: shared_inv_def message_inv_def)
  have "safe (Command cs k) (response_ok rq) ?d (own i)" by (rule pool_safeD [OF inv(3) i])
  then consider (pub) ch m where "cs = [PUBLISH ch m]" "\<And>r. safe (k r) (response_ok rq) ?d (own i)"
    | (incr) g where "cs = [INCR (seq_key g)]" "own i = None"
        "\<And>s. safe (k (Inr [IntReply s])) (response_ok rq) ?d (Some (g, s))" "\<And>e. safe (k (Inl e)) (response_ok rq) ?d None"
    unfolding safe.simps by blast
  then show ?thesis
  proof cases
    case pub
    have "store s = ?r \<or> store s = ?r\<lparr>messages := messages ?r @ [(ch, m)]\<rparr>"
      using x pub(1) by (cases rule: exec_single_cases [of t "PUBLISH ch m" "mw_redis w"]) auto
    then have "seq_inv (store s)" "\<And>g'. seq_value (store s) g' = seq_value ?r g'" using sq by auto
    then show ?thesis using system_other [OF inv i pub(2)] by simp
  next
    case (incr g)
    obtain res where gs: "GenerateSeqID exec t g (mw_redis w) = (res, s)"
        and res: "\<And>rs. x = Inr rs \<Longrightarrow> res = Inr (int_reply rs)"
      using x incr(1) by (cases x) (auto simp: GenerateSeqID_def)
    note seq = GenerateSeqID_step [OF sq gs]
    show ?thesis
    proof (cases x)
      case (Inl e)
      then show ?thesis using system_incr [OF inv i incr(2) seq(1,2) incr(4)] by simp
    next
      case (Inr rs)
      obtain rep where "rs = [rep]" "redis_step t (INCR (seq_key g)) ?r = (Inr rep, store s)"
        using x incr(1) Inr by (cases rule: exec_single_cases [of t "INCR (seq_key g)" "mw_redis w"]) auto
      then have rs: "rs = [IntReply (seq_value (store s) g)]"
        using INCR_seq [OF sq, of t g] seq_put(2) [OF sq, of g] by (auto split: if_splits)
      then have "seq_value ?r g < seq_value (store s) g" using seq(3) res [OF Inr] by simp
      then show ?thesis
        using system_incr [OF inv i incr(2) seq(1,2) incr(3) [of "seq_value (store s) g"], of g] by (simp add: Inr rs)
    qed
  qed
qed

lemma sched_step_inv:
  assumes "sched_step db exec clock gen marshal S S'" and "inv_of S"
  shows "inv_of S'"
  using assms
proof (induction rule: sched_step.induct)
  case (arrive w ps rq)
  then obtain own where inv: "shared_inv (view (mw_db w)) (store (mw_redis w))"
      "held (view (mw_db w)) (store (mw_redis w)) own" "pool_safe ps (view (mw_db w)) own" by (auto simp: system_inv_def)
  have "pool_safe (ps @ [(rq, start_request gen marshal rq)]) (view (mw_db w)) own"
    using inv(3) safe_start [of gen marshal rq] by (auto simp: pool_safe_def nth_append less_Suc_eq)
  then show ?case using inv by (auto simp: system_inv_def)
next
  case (query i ps rq q k t w r d)
  then show ?case using system_query [OF _ _ _ query(1,2) db_contract [OF query(3)]] by (auto simp: system_inv_def)
next
  case (draw i ps rq k w r g n)
  then obtain own where inv: "shared_inv (view (mw_db w)) (store (mw_redis w))"
      "held (view (mw_db w)) (store (mw_redis w)) own" "pool_safe ps (view (mw_db w)) own" by (auto simp: system_inv_def)
  have "safe (Draw k) (response_ok rq) (view (mw_db w)) (own i)" by (rule pool_safeD [OF inv(3) draw(1,2)])
  then show ?case using system_other [OF inv draw(1,2)] inv(1) by (simp add: shared_inv_def message_inv_def)
next
  case (command i ps rq cs k t w r s)
  then show ?case by (intro command_step_inv)
qed

lemma sched_reach_inv:
  assumes "(sched_step db exec clock gen marshal)\<^sup>*\<^sup>* (w0, []) S" and "shared_inv (view (mw_db w0)) (store (mw_redis w0))"
  shows "inv_of S"
  using assms(1)
proof (induction rule: rtranclp_induct)
  case base
  have "held d r (\<lambda>_. None)" "pool_safe [] d (\<lambda>_. None)" for d r by (simp_all add: held_def pool_safe_def)
  then show ?case using assms(2) unfolding system_inv_def by (metis fst_conv snd_conv)
qed (rule sched_step_inv)

end

section \<open>Running a chosen request\<close>

text \<open>One effect of the request at a given place, as a function; a request that waits or has responded stays.\<close>

definition sched_at :: "'d database \<Rightarrow> 's redis \<Rightarrow> (nat \<Rightarrow> int) \<Rightarrow> int \<Rightarrow> nat \<Rightarrow> ('d, 's) system \<Rightarrow> ('d, 's) system" where
  "sched_at db exec clock t i S =
     (case S of (w, ps) \<Rightarrow>
        if i < length ps then
          (case ps ! i of
             (rq, Return a) \<Rightarrow> (w, ps)
           | (rq, Query q k) \<Rightarrow> (case db t q (mw_db w) of (r, d) \<Rightarrow> (w\<lparr>mw_db := d\<rparr>, ps[i := (rq, k r)]))
           | (rq, Draw k) \<Rightarrow>
               (case NextID clock (mw_tick w) (mw_gen w) of
                  None \<Rightarrow> (w, ps)
                | Some (r, g, n) \<Rightarrow> (w\<lparr>mw_gen := g, mw_tick := n\<rparr>, ps[i := (rq, k r)]))
           | (rq, Command cs k) \<Rightarrow> (case exec t cs (mw_redis w) of (r, s) \<Rightarrow> (w\<lparr>mw_redis := s\<rparr>, ps[i := (rq, k r)])))
        else (w, ps))"

lemma sched_at_step: "(sched_step db exec clock gen marshal)\<^sup>*\<^sup>* S (sched_at db exec clock t i S)"
proof -
  obtain w ps where S: "S = (w, ps)" by fastforce
  show ?thesis
  proof (cases "i < length ps")
    case True
    obtain rq p where p: "ps ! i = (rq, p)" by fastforce
    show ?thesis using True p
      by (cases p) (auto simp: S sched_at_def intro: sched_step.intros split: prod.split option.split)
  qed (simp add: S sched_at_def)
qed

lemma schedule_reach: "(sched_step db exec clock gen marshal)\<^sup>*\<^sup>* S (fold (sched_at db exec clock t) is S)"
proof (induction "is" arbitrary: S)
  case (Cons i "is")
  show ?case using rtranclp_trans [OF sched_at_step Cons] by simp
qed simp

lemma sched_at_query:
  "i < length ps \<Longrightarrow> ps ! i = (rq, Query q k) \<Longrightarrow> db t q (mw_db w) = (r, d) \<Longrightarrow>
   sched_at db exec clock t i (w, ps) = (w\<lparr>mw_db := d\<rparr>, ps[i := (rq, k r)])"
  by (simp add: sched_at_def)

lemma sched_at_draw:
  "i < length ps \<Longrightarrow> ps ! i = (rq, Draw k) \<Longrightarrow> NextID clock (mw_tick w) (mw_gen w) = Some (r, g, n) \<Longrightarrow>
   sched_at db exec clock t i (w, ps) = (w\<lparr>mw_gen := g, mw_tick := n\<rparr>, ps[i := (rq, k r)])"
  by (simp add: sched_at_def)

lemma sched_at_command:
  "i < length ps \<Longrightarrow> ps ! i = (rq, Command cs k) \<Longrightarrow> exec t cs (mw_redis w) = (r, s) \<Longrightarrow>
   sched_at db exec clock t i (w, ps) = (w\<lparr>mw_redis := s\<rparr>, ps[i := (rq, k r)])"
  by (simp add: sched_at_def)

lemmas sched_at_simps = sched_at_query sched_at_draw sched_at_command

text \<open>To run a program the simplifier must not look into what follows an effect before it has the reply.\<close>

lemma prog_congs:
  "q = q' \<Longrightarrow> Query q k = Query q' k" "Draw k' = Draw k'" "cs = cs' \<Longrightarrow> Command cs k'' = Command cs' k''"
  "p = p' \<Longrightarrow> then_do p f = then_do p' f" "p = p' \<Longrightarrow> map_prog h p = map_prog h p'"
  by simp_all

lemma arrivals_reach:
  "(sched_step db exec clock gen marshal)\<^sup>*\<^sup>* (w, ps) (w, ps @ map (\<lambda>rq. (rq, start_request gen marshal rq)) rqs)"
proof (induction rqs arbitrary: ps)
  case (Cons rq rqs)
  show ?case
    using converse_rtranclp_into_rtranclp [OF sched_step.arrive [of db exec clock gen marshal w ps rq] Cons] by simp
qed simp

lemma schedule_reach_all:
  "(sched_step db exec clock gen marshal)\<^sup>*\<^sup>* (w, [])
     (fold (sched_at db exec clock t) is (w, map (\<lambda>rq. (rq, start_request gen marshal rq)) rqs))"
  by (rule rtranclp_trans [OF _ schedule_reach]) (use arrivals_reach [of db exec clock gen marshal w "[]" rqs] in simp)

text \<open>One effect of one of the running requests; a step of the schedule is such a turn or the arrival of a request.\<close>

inductive turn_step :: "'d database \<Rightarrow> 's redis \<Rightarrow> (nat \<Rightarrow> int) \<Rightarrow> nat \<Rightarrow> ('d, 's) system \<Rightarrow> ('d, 's) system \<Rightarrow> bool"
  for db exec clock i where
  query: "i < length ps \<Longrightarrow> ps ! i = (rq, Query q k) \<Longrightarrow> db t q (mw_db w) = (r, d) \<Longrightarrow>
    turn_step db exec clock i (w, ps) (w\<lparr>mw_db := d\<rparr>, ps[i := (rq, k r)])"
| draw: "i < length ps \<Longrightarrow> ps ! i = (rq, Draw k) \<Longrightarrow> NextID clock (mw_tick w) (mw_gen w) = Some (r, g, n) \<Longrightarrow>
    turn_step db exec clock i (w, ps) (w\<lparr>mw_gen := g, mw_tick := n\<rparr>, ps[i := (rq, k r)])"
| command: "i < length ps \<Longrightarrow> ps ! i = (rq, Command cs k) \<Longrightarrow> exec t cs (mw_redis w) = (r, s) \<Longrightarrow>
    turn_step db exec clock i (w, ps) (w\<lparr>mw_redis := s\<rparr>, ps[i := (rq, k r)])"


text \<open>\<open>turns i S n S'\<close>: a schedule from \<open>S\<close> to \<open>S'\<close> in which request \<open>i\<close> had \<open>n\<close> turns, the other requests any number of them, and
  any number of requests arrived.\<close>

inductive turns :: "'d database \<Rightarrow> 's redis \<Rightarrow> (nat \<Rightarrow> int) \<Rightarrow> bcrypt_gen \<Rightarrow> ws_marshal \<Rightarrow> nat \<Rightarrow> ('d, 's) system \<Rightarrow> nat \<Rightarrow> ('d, 's) system \<Rightarrow> bool"
  for db exec clock gen marshal i S where
  start: "turns db exec clock gen marshal i S 0 S"
| arrival: "turns db exec clock gen marshal i S n (w, ps) \<Longrightarrow>
    turns db exec clock gen marshal i S n (w, ps @ [(rq, start_request gen marshal rq)])"
| other: "turns db exec clock gen marshal i S n S' \<Longrightarrow> turn_step db exec clock j S' S'' \<Longrightarrow> j \<noteq> i \<Longrightarrow>
    turns db exec clock gen marshal i S n S''"
| own: "turns db exec clock gen marshal i S n S' \<Longrightarrow> turn_step db exec clock i S' S'' \<Longrightarrow>
    turns db exec clock gen marshal i S (Suc n) S''"

lemma sched_step_turn:
  "sched_step db exec clock gen marshal S S' \<longleftrightarrow>
     (\<exists>w ps rq. S = (w, ps) \<and> S' = (w, ps @ [(rq, start_request gen marshal rq)])) \<or> (\<exists>i. turn_step db exec clock i S S')"
  by (auto elim!: sched_step.cases turn_step.cases intro: sched_step.intros turn_step.intros)

text \<open>Every schedule is counted, whichever request is watched.\<close>

lemma turns_of_schedule:
  assumes "(sched_step db exec clock gen marshal)\<^sup>*\<^sup>* S S'"
  shows "\<exists>n. turns db exec clock gen marshal i S n S'"
  using assms
proof induction
  case base
  show ?case using turns.start by blast
next
  case (step S1 S2)
  then obtain n where n: "turns db exec clock gen marshal i S n S1" by blast
  from step.hyps(2) show ?case unfolding sched_step_turn
  proof (elim disjE exE conjE)
    fix w ps rq assume "S1 = (w, ps)" "S2 = (w, ps @ [(rq, start_request gen marshal rq)])"
    then show ?thesis using turns.arrival n by blast
  next
    fix j assume "turn_step db exec clock j S1 S2"
    then show ?thesis using turns.own [OF n] turns.other [OF n, of j] by (cases "j = i") blast+
  qed
qed

text \<open>A bound on the effects of a program, whatever the replies.\<close>

primrec within :: "'a prog \<Rightarrow> nat \<Rightarrow> bool" where
  "within (Return a) n = True"
| "within (Query q k) n = (0 < n \<and> (\<forall>r. within (k r) (n - 1)))"
| "within (Draw k) n = (0 < n \<and> (\<forall>r. within (k r) (n - 1)))"
| "within (Command cs k) n = (0 < n \<and> (\<forall>r. within (k r) (n - 1)))"



lemma within_map_prog [simp]: "within (map_prog h p) n = within p n"
  by (induction p arbitrary: n) auto









section \<open>Properties\<close>

text \<open>C2. Any number of requests, interleaved in any way with any failures of the database and of Redis: the keys of the tables
  stay unique, every membership, guild owner and message refers to existing rows, messages are written by members of their guild and have
  1 to 2000 bytes, and no two messages of a guild share a sequence number.  What a request responds is true then and ever
  after: a registered user, a created or joined guild and a sent message are in the tables, and a page holds messages of
  its guild in order.  Of the registrations of one name at most one user is the result.\<close>

theorem concurrent_requests:
  assumes "sql_database db view" and "redis_server exec store"
    and "shared_inv (view (mw_db w0)) (store (mw_redis w0))"
    and "(sched_step db exec clock gen marshal)\<^sup>*\<^sup>* (w0, []) (w, ps)"
  shows "shared_inv (view (mw_db w)) (store (mw_redis w)) \<and>
    (\<forall>(rq, p) \<in> set ps. \<forall>a. p = Return a \<longrightarrow> response_ok rq (view (mw_db w)) a) \<and>
    (\<forall>(rq, p) \<in> set ps. \<forall>(rq', p') \<in> set ps. \<forall>u v. p = Return (Registered (Inr u)) \<and> p' = Return (Registered (Inr v)) \<and>
       u_UserName u = u_UserName v \<longrightarrow> u = v)"
proof -
  have "system_inv (view (mw_db w)) (store (mw_redis w)) ps"
    using message_store.sched_reach_inv [OF message_store.intro [OF assms(1,2)] assms(4,3)] by simp
  then obtain own where inv: "shared_inv (view (mw_db w)) (store (mw_redis w))" and pool: "pool_safe ps (view (mw_db w)) own"
    by (auto simp: system_inv_def)
  have ok: "response_ok rq (view (mw_db w)) a" if "(rq, Return a) \<in> set ps" for rq a
    using that pool_safeD [OF pool, of _ rq "Return a"] by (auto simp: in_set_conv_nth)
  have names: "distinct (map u_UserName (t_users (view (mw_db w))))"
    using inv by (simp add: shared_inv_def shared_tables_def db_integrity_def)
  have "u \<in> set (t_users (view (mw_db w)))" if "(rq, Return (Registered (Inr u))) \<in> set ps" for rq u
    using ok [OF that] by (cases rq) auto
  then have "u = v" if "(rq, Return (Registered (Inr u))) \<in> set ps" "(rq', Return (Registered (Inr v))) \<in> set ps"
      "u_UserName u = u_UserName v" for rq rq' u v
    using that names by (auto simp: distinct_map dest: inj_onD)
  then show ?thesis using inv ok by blast
qed

theorem concurrent_requests_witness:
  "shared_inv demo_tables empty_redis \<and>
   response_ok (JoinGuildRequest ''m-2'' ''id-2'' ''0a0b0c0d'') (demo_tables\<lparr>t_members := t_members demo_tables @ [new_member 7 ''m-2'' ''g-1'' ''id-2'']\<rparr>)
     (GuildJoined (Inr ()))"
proof -
  define rq where "rq = JoinGuildRequest ''m-2'' ''id-2'' ''0a0b0c0d''"
  define S where "S = fold (sched_at sql_step redis_run demo_clock 7) [0, 0, 0, 0]
    (demo_world, map (\<lambda>rq. (rq, start_request demo_bcrypt_gen demo_marshal rq)) [rq])"
  have reach: "(sched_step sql_step redis_run demo_clock demo_bcrypt_gen demo_marshal)\<^sup>*\<^sup>* (demo_world, []) S"
    unfolding S_def by (rule schedule_reach_all)
  have S: "S = (demo_world\<lparr>mw_db := demo_tables\<lparr>t_members := t_members demo_tables @ [new_member 7 ''m-2'' ''g-1'' ''id-2'']\<rparr>\<rparr>,
      [(rq, Return (GuildJoined (Inr ())))])"
    by (simp add: S_def rq_def sched_at_simps JoinGuild_p_def IsMember_p_def repository_programs first_of_def all_of_def
        demo_world_def demo_tables_def new_member_def generateID_def cong: prog_congs)
  have inv: "shared_inv demo_tables empty_redis"
    using demo_membership_inv demo_world_inv
    by (auto simp: shared_inv_def shared_tables_def membership_inv_def demo_world_def) (simp_all add: demo_tables_def)
  from concurrent_requests [OF ref_db.sql_database_axioms ref_redis.redis_server_axioms _ reach [unfolded S]] inv
  show ?thesis by (simp add: rq_def demo_world_def)
qed



text \<open>What the database does not enforce can happen: two interleaved requests of one user to join one guild can both succeed
  and leave two memberships of the user in the guild, since nothing makes the check and the insertion of \<^verbatim>\<open>JoinGuild\<close>
  one step and the table has no unique index on the pair.\<close>

lemma concurrent_joins_duplicate:
  "\<exists>w rq rq'. (sched_step sql_step redis_run demo_clock demo_bcrypt_gen demo_marshal)\<^sup>*\<^sup>* (demo_world, [])
      (w, [(rq, Return (GuildJoined (Inr ()))), (rq', Return (GuildJoined (Inr ())))]) \<and>
    \<not> distinct (map (\<lambda>m. (gm_GuildID m, gm_UserID m)) (t_members (mw_db w)))"
proof -
  define r1 where "r1 = JoinGuildRequest ''m-2'' ''id-2'' ''0a0b0c0d''"
  define r2 where "r2 = JoinGuildRequest ''m-3'' ''id-2'' ''0a0b0c0d''"
  define S where "S = fold (sched_at sql_step redis_run demo_clock 7) [0, 0, 0, 1, 1, 1, 0, 1]
    (demo_world, map (\<lambda>rq. (rq, start_request demo_bcrypt_gen demo_marshal rq)) [r1, r2])"
  have reach: "(sched_step sql_step redis_run demo_clock demo_bcrypt_gen demo_marshal)\<^sup>*\<^sup>* (demo_world, []) S"
    unfolding S_def by (rule schedule_reach_all)
  have S: "S = (demo_world\<lparr>mw_db := demo_tables\<lparr>t_members := t_members demo_tables @
      [new_member 7 ''m-2'' ''g-1'' ''id-2'', new_member 7 ''m-3'' ''g-1'' ''id-2'']\<rparr>\<rparr>,
      [(r1, Return (GuildJoined (Inr ()))), (r2, Return (GuildJoined (Inr ())))])"
    by (simp add: S_def r1_def r2_def sched_at_simps JoinGuild_p_def IsMember_p_def repository_programs first_of_def all_of_def
        demo_world_def demo_tables_def new_member_def generateID_def cong: prog_congs)
  show ?thesis using reach unfolding S by (intro exI conjI) (assumption, simp add: demo_tables_def)
qed

text \<open>Sequence numbers are drawn before the messages are stored, so messages can become visible out of order: a client that reads
  on from the last number it has seen misses a message that is stored later with a smaller number.\<close>

definition late_message :: "int \<Rightarrow> int \<Rightarrow> string \<Rightarrow> message" where
  "late_message i s content = \<lparr>m_ID = FormatInt i, m_UserID = ''id-1'', m_GuildID = ''g-1'', m_Content = content, m_SeqID = s, m_CreatedAt = 9\<rparr>"

definition late_world :: "(tables, rstate) msg_world" where
  "late_world = demo_world\<lparr>mw_db := demo_tables\<lparr>t_messages := [late_message 5 1 ''hi'']\<rparr>,
     mw_redis := put_entry (seq_key ''g-1'') (Some (FormatInt 1, None)) empty_redis\<rparr>"

lemma demo_next_second: "NextID demo_clock (Suc 0) (Snowflake.demo_gen 1 0 1704067202000) = Some (Inr 8388612097, Snowflake.demo_gen 1 1 1704067202000, 2)"
  by code_simp

lemma late_message_missed:
  "\<exists>w a b. (sched_step sql_step redis_run demo_clock demo_bcrypt_gen demo_marshal)\<^sup>*\<^sup>* (late_world, [])
      (w, [(SendMessageRequest 9 8 False ''id-1'' ''g-1'' ''a'', Return (MessageSent (Inr a))),
           (SendMessageRequest 9 8 False ''id-1'' ''g-1'' ''b'', Return (MessageSent (Inr b))),
           (GetMessagesRequest ''g-1'' 1 50, Return (Page (Inr ([b], False)))),
           (GetMessagesRequest ''g-1'' (m_SeqID b) 50, Return (Page (Inr ([], False))))]) \<and>
    1 < m_SeqID a \<and> m_SeqID a < m_SeqID b"
proof -
  define rqs where "rqs = [SendMessageRequest 9 8 False ''id-1'' ''g-1'' ''a'', SendMessageRequest 9 8 False ''id-1'' ''g-1'' ''b'',
    GetMessagesRequest ''g-1'' 1 50, GetMessagesRequest ''g-1'' 3 50]"
  define S where "S = fold (sched_at sql_step redis_run demo_clock 7) [0, 0, 0, 1, 1, 1, 1, 1, 1, 2, 0, 0, 0, 3]
    (late_world, map (\<lambda>rq. (rq, start_request demo_bcrypt_gen demo_marshal rq)) rqs)"
  have reach: "(sched_step sql_step redis_run demo_clock demo_bcrypt_gen demo_marshal)\<^sup>*\<^sup>* (late_world, []) S"
    unfolding S_def by (rule schedule_reach_all)
  have "snd S = [(rqs ! 0, Return (MessageSent (Inr (late_message 8388612096 2 ''a'')))),
      (rqs ! 1, Return (MessageSent (Inr (late_message 8388612097 3 ''b'')))),
      (rqs ! 2, Return (Page (Inr ([late_message 8388612097 3 ''b''], False)))), (rqs ! 3, Return (Page (Inr ([], False))))]"
    by (simp add: S_def rqs_def sched_at_simps SendMessage_p_def GetMessages_p_def IsMember_p_def store_and_publish_p_def
        publishMessage_p_def GenerateSeqID_p_def repository_programs first_of_def all_of_def late_world_def late_message_def
        demo_world_def demo_tables_def demo_next demo_next_second redis_incrby_def live_def empty_redis_def int64_range_def put_entry_def
        page_limit_def order_messages_def fill_message_def demo_marshal_def Let_def cong: prog_congs)
  then show ?thesis using reach
    by (intro exI [of _ "fst S"] exI [of _ "late_message 8388612096 2 ''a''"] exI [of _ "late_message 8388612097 3 ''b''"])
      (cases S, simp add: rqs_def late_message_def)
qed

end
