(* ===== verification/Pipeline.thy ===== *)
theory Pipeline
  imports Server
begin

text \<open>
  How a message travels through the components: the Kafka consumer with its retries around the handler that stores and publishes a message,
  and the way of a published message over Redis to the connections of a gateway node.  The consumer's state is any type that holds the
  world of the message service; the locale \<open>message_consumer\<close> says that its handler is \<^verbatim>\<open>consumerHandler\<close> of \<^verbatim>\<open>main\<close>, with
  times of its own at every attempt, and that it returns.
\<close>

section \<open>One attempt\<close>

text \<open>A row of the message table that stores a Kafka message.\<close>

definition stores :: "ws_message \<Rightarrow> message \<Rightarrow> bool" where
  "stores ws m \<longleftrightarrow> m_UserID m = w_UserId ws \<and> m_GuildID m = w_GuildId ws \<and> m_Content m = w_Content ws"

text \<open>The message tables of two worlds differ by appended rows that store the message; nothing else has changed in the database.\<close>

definition appended :: "ws_message \<Rightarrow> tables \<Rightarrow> message list \<Rightarrow> tables \<Rightarrow> bool" where
  "appended ws d ms d' \<longleftrightarrow> d' = d\<lparr>t_messages := t_messages d @ ms\<rparr> \<and> (\<forall>m \<in> set ms. stores ws m) \<and>
     (ms \<noteq> [] \<longrightarrow> member_of d (w_GuildId ws) (w_UserId ws))"

lemma appended_Nil [simp]: "appended ws d [] d' \<longleftrightarrow> d' = d"
  by (auto simp: appended_def)

lemma appended_trans:
  "appended ws d ms d1 \<Longrightarrow> appended ws d1 ms' d2 \<Longrightarrow> appended ws d (ms @ ms') d2"
  by (auto simp: appended_def member_of_def)

definition clean_errors :: "'d database \<Rightarrow> ('d \<Rightarrow> tables) \<Rightarrow> bool" where
  "clean_errors db view \<longleftrightarrow> (\<forall>t q d e d'. db t q d = (Inl e, d') \<longrightarrow> view d' = view d)"

context message_store
begin

text \<open>With a database whose errors have no effect, an error of \<^verbatim>\<open>SendMessage\<close> means that nothing is stored.\<close>

lemma SendMessage_clean:
  assumes "clean_errors db view" and "SendMessage db exec marshal clock t created stamp u g content w = Some (Inl e, w')"
    and "message_inv (view (mw_db w)) (store (mw_redis w))"
  shows "view (mw_db w') = view (mw_db w)"
proof (cases "\<exists>d1 i gen' k' q s1. 0 < length content \<and> length content \<le> 2000 \<and> IsMember db t u g (mw_db w) = (Inr True, d1) \<and>
      NextID clock (mw_tick w) (mw_gen w) = Some (Inr i, gen', k') \<and> GenerateSeqID exec t g (mw_redis w) = (Inr q, s1)")
  case True
  then obtain d1 i gen' k' q s1 where ok: "0 < length content" "length content \<le> 2000"
      "IsMember db t u g (mw_db w) = (Inr True, d1)" "NextID clock (mw_tick w) (mw_gen w) = Some (Inr i, gen', k')"
      "GenerateSeqID exec t g (mw_redis w) = (Inr q, s1)" by blast
  define m where "m = \<lparr>m_ID = FormatInt i, m_UserID = u, m_GuildID = g, m_Content = content, m_SeqID = q, m_CreatedAt = created\<rparr>"
  let ?w = "w\<lparr>mw_db := d1, mw_redis := s1, mw_gen := gen', mw_tick := k'\<rparr>"
  have run: "store_and_publish db exec marshal t stamp m ?w = (Inl e, w')"
    using assms(2) ok by (simp add: SendMessage_def m_def)
  obtain user d2 where u: "user_FindByID db t (m_UserID m) d1 = (user, d2)" by fastforce
  obtain r d3 where c: "message_Create db t m d2 = (r, d3)" by fastforce
  have w': "mw_db w' = d3" "\<exists>e'. r = Inl e'"
    using run u c by (auto simp: store_and_publish_def Let_def split: prod.splits sum.splits)
  have "view d3 = view d2"
  proof -
    obtain x where db: "db t (InsertMessage m) d2 = (x, d3)"
      using c by (auto simp: message_Create_def query_first_def split: prod.splits sum.splits list.splits)
    show ?thesis
    proof (cases x)
      case (Inl e')
      then show ?thesis using assms(1) db by (simp add: clean_errors_def)
    next
      case (Inr rs)
      from db_ok [OF db [unfolded Inr]] have "rs = MessageRows [fill_message t m]"
        by (auto split: if_splits dest: message_rows_agree)
      then show ?thesis using w'(2) c db Inr by (auto simp: message_Create_def query_first_def)
    qed
  qed
  then show ?thesis using w'(1) FindByID_user(1) [OF u] IsMember_set(1) [OF ok(3)] by simp
next
  case False
  then have early: "\<not> (0 < length content \<and> length content \<le> 2000 \<and> IsMember db t u g (mw_db w) = (Inr True, d1) \<and>
      NextID clock (mw_tick w) (mw_gen w) = Some (Inr i, gen', k') \<and> GenerateSeqID exec t g (mw_redis w) = (Inr q, s1))"
    for d1 i gen' k' q s1 by blast
  from SendMessage_early [OF assms(2,3) early] show ?thesis by blast
qed

lemma consumerHandler_attempt:
  assumes "consumerHandler unmarshal db exec marshal clock t created stamp msg w = Some (res, w')"
    and "message_inv (view (mw_db w)) (store (mw_redis w))"
  shows "\<exists>ms. appended (snd (unmarshal (cm_Value msg))) (view (mw_db w)) ms (view (mw_db w')) \<and> length ms \<le> 1 \<and>
    (res = None \<longrightarrow> length ms = 1) \<and> (clean_errors db view \<longrightarrow> res \<noteq> None \<longrightarrow> ms = []) \<and>
    message_inv (view (mw_db w')) (store (mw_redis w'))"
proof (cases "unmarshal (cm_Value msg)")
  case (Pair err ws)
  show ?thesis
  proof (cases err)
    case (Some e)
    then show ?thesis using assms Pair by (auto simp: consumerHandler_def intro: exI [of _ "[]"])
  next
    case None
    obtain r where run: "SendMessage db exec marshal clock t created stamp (w_UserId ws) (w_GuildId ws) (w_Content ws) w = Some (r, w')"
        and res: "res = (case r of Inl e \<Rightarrow> Some e | Inr _ \<Rightarrow> None)"
      using assms(1) Pair None by (auto simp: consumerHandler_def split: option.splits sum.splits)
    note cases = SendMessage_cases [OF run assms(2)]
    have one: "appended ws (view (mw_db w)) [m] (view (mw_db w'))" if "view (mw_db w') = log_append (view (mw_db w)) m"
        "m_UserID m = w_UserId ws" "m_GuildID m = w_GuildId ws" "m_Content m = w_Content ws"
        "member_of (view (mw_db w)) (w_GuildId ws) (w_UserId ws)" for m
      using that by (simp add: appended_def stores_def log_append_def)
    show ?thesis
    proof (cases r)
      case (Inr m)
      with cases one [of m] res Pair show ?thesis by (intro exI [of _ "[m]"]) auto
    next
      case (Inl e)
      have clean: "view (mw_db w') = view (mw_db w)" if "clean_errors db view"
        by (rule SendMessage_clean [OF that run [unfolded Inl] assms(2)])
      show ?thesis
      proof (cases "view (mw_db w') = view (mw_db w)")
        case True
        then show ?thesis using cases Inl res Pair by (intro exI [of _ "[]"]) simp
      next
        case False
        then obtain m where "view (mw_db w') = log_append (view (mw_db w)) m" "m_UserID m = w_UserId ws" "m_GuildID m = w_GuildId ws"
            "m_Content m = w_Content ws" "member_of (view (mw_db w)) (w_GuildId ws) (w_UserId ws)"
          using cases Inl by auto
        then show ?thesis using one [of m] cases Inl res Pair clean False by (intro exI [of _ "[m]"]) auto
      qed
    qed
  qed
qed

end

section \<open>The consumer's retries\<close>

locale message_consumer = message_store db view exec store
  for db :: "'d database" and view :: "'d \<Rightarrow> tables" and exec :: "'s redis" and store :: "'s \<Rightarrow> rstate" +
  fixes unmarshal :: ws_unmarshal and marshal :: ws_marshal and clock :: "nat \<Rightarrow> int"
    and world :: "'c \<Rightarrow> ('d, 's) msg_world" and h :: "'c handler" and sleep :: "int \<Rightarrow> 'c \<Rightarrow> 'c"
  assumes handler_runs: "\<exists>t created stamp. consumerHandler unmarshal db exec marshal clock t created stamp msg (world c) =
      Some (fst (h msg c), world (snd (h msg c)))"
    and sleep_world: "world (sleep n c) = world c"
begin

abbreviation rows_of :: "'c \<Rightarrow> tables" where "rows_of c \<equiv> view (mw_db (world c))"

abbreviation log_inv :: "'c \<Rightarrow> bool" where
  "log_inv c \<equiv> message_inv (view (mw_db (world c))) (store (mw_redis (world c)))"

lemma attempt:
  assumes "handler_action h msg c = (res, c')" and "log_inv c"
  shows "\<exists>ms. appended (snd (unmarshal (cm_Value msg))) (rows_of c) ms (rows_of c') \<and> length ms \<le> 1 \<and>
    (\<not> isl res \<longrightarrow> length ms = 1) \<and> (clean_errors db view \<longrightarrow> isl res \<longrightarrow> ms = []) \<and> log_inv c'"
proof -
  obtain t created stamp where "consumerHandler unmarshal db exec marshal clock t created stamp msg (world c) =
      Some (fst (h msg c), world (snd (h msg c)))" using handler_runs by blast
  from consumerHandler_attempt [OF this assms(2)] show ?thesis
    using assms(1) by (cases "h msg c"; cases "fst (h msg c)") (auto simp: handler_action_def)
qed

lemma retries:
  assumes "retry_loop ctx_err sleep (handler_action h msg) errText maxRetries attempt backoff lastErr c = (res, c')" and "log_inv c"
  shows "\<exists>ms. appended (snd (unmarshal (cm_Value msg))) (rows_of c) ms (rows_of c') \<and> length ms \<le> nat (maxRetries + 1 - attempt) \<and>
    (\<not> isl res \<longrightarrow> ms \<noteq> []) \<and> (clean_errors db view \<longrightarrow> length ms = (if isl res then 0 else 1)) \<and> log_inv c'"
  using assms
proof (induction "nat (maxRetries + 1 - attempt)" arbitrary: attempt backoff lastErr c)
  case 0
  then show ?case by (auto simp: retry_loop.simps [of ctx_err sleep])
next
  case (Suc n)
  then have le: "attempt \<le> maxRetries" by linarith
  obtain r c1 where a: "handler_action h msg c = (r, c1)" by fastforce
  obtain ms where ms: "appended (snd (unmarshal (cm_Value msg))) (rows_of c) ms (rows_of c1)" "length ms \<le> 1"
      "\<not> isl r \<longrightarrow> length ms = 1" "clean_errors db view \<longrightarrow> isl r \<longrightarrow> ms = []" "log_inv c1"
    using attempt [OF a Suc.prems(2)] by blast
  show ?case
  proof (cases "ctx_err c = None \<and> isl r")
    case True
    then obtain b e c2 where go: "retry_loop ctx_err sleep (handler_action h msg) errText maxRetries (attempt + 1) b e c2 = (res, c')"
        and c2: "world c2 = world c1"
      using Suc.prems(1) le a sleep_world
      by (cases r) (auto simp: retry_loop.simps [of ctx_err sleep _ errText maxRetries attempt] split: if_splits)
    have n: "n = nat (maxRetries + 1 - (attempt + 1))" using Suc.hyps(2) by linarith
    obtain ms' where ms': "appended (snd (unmarshal (cm_Value msg))) (rows_of c2) ms' (rows_of c')"
        "length ms' \<le> nat (maxRetries + 1 - (attempt + 1))" "\<not> isl res \<longrightarrow> ms' \<noteq> []"
        "clean_errors db view \<longrightarrow> length ms' = (if isl res then 0 else 1)" "log_inv c'"
      using Suc.hyps(1) [OF n go] ms(5) c2 by auto
    have "appended (snd (unmarshal (cm_Value msg))) (rows_of c) (ms @ ms') (rows_of c')"
      using appended_trans [OF ms(1)] ms'(1) c2 by simp
    moreover have "length (ms @ ms') \<le> nat (maxRetries + 1 - attempt)" using ms(2) ms'(2) Suc.hyps(2) n by simp
    ultimately show ?thesis using ms(4) ms'(3-5) True by (intro exI [of _ "ms @ ms'"]) auto
  next
    case False
    then consider e where "ctx_err c = Some e" "res = Inl e" "c' = c" | v where "r = Inr v" "res = Inr v" "c' = c1"
      using Suc.prems(1) le a
      by (cases "ctx_err c"; cases r) (auto simp: retry_loop.simps [of ctx_err sleep _ errText maxRetries attempt])
    then show ?thesis
    proof cases
      case 1
      then show ?thesis using Suc.prems(2) by (intro exI [of _ "[]"]) simp
    next
      case 2
      then show ?thesis using ms Suc.hyps(2) by (intro exI [of _ ms]) auto
    qed
  qed
qed

end

section \<open>From Redis to the connections\<close>

context redis_server
begin

lemma GenerateSeqID_messages:
  assumes "GenerateSeqID exec t g s = (res, s')"
  shows "messages (store s') = messages (store s)"
proof -
  have incr: "messages (snd (redis_step t (INCR k) r)) = messages r" for k r
    by (simp add: redis_incrby_def put_entry_def split: option.split)
  show ?thesis
  proof (cases rule: exec_single_cases [of t "INCR (seq_key g)" s])
    case (1 r s'')
    then show ?thesis using assms incr [of "seq_key g" "store s"] by (simp add: GenerateSeqID_def)
  next
    case (2 e s'')
    then show ?thesis using assms incr [of "seq_key g" "store s"] by (auto simp: GenerateSeqID_def)
  qed
qed

end

section \<open>Properties\<close>

text \<open>C9. A Kafka message and its retries, for any failures of the database and of Redis: the attempts store at most \<open>maxRetries + 1\<close>
  copies of the message, all with its author, guild and content and only if the author is a member of the guild, and change nothing else in the
  database; if processing succeeds there is at least one.  With a database whose errors have no effect a message is stored exactly once if processing
  succeeds and not at all otherwise.  Sequence numbers stay unique.\<close>

theorem consumed_message_stored:
  assumes "message_consumer db view exec store unmarshal marshal clock world h sleep"
    and "message_inv (view (mw_db (world c))) (store (mw_redis (world c)))"
    and "processMessageWithRetry ctx_err sleep cfg h msg c = (res, c')"
  shows "\<exists>ms. appended (snd (unmarshal (cm_Value msg))) (view (mw_db (world c))) ms (view (mw_db (world c'))) \<and>
    length ms \<le> nat (co_MaxRetries (kf_Consumer cfg) + 1) \<and> (res = Inr () \<longrightarrow> ms \<noteq> []) \<and>
    (clean_errors db view \<longrightarrow> length ms = (if res = Inr () then 1 else 0)) \<and>
    message_inv (view (mw_db (world c'))) (store (mw_redis (world c')))"
proof -
  have "isl res \<longleftrightarrow> res \<noteq> Inr ()" by (cases res) auto
  then show ?thesis
    using message_consumer.retries [OF assms(1) assms(3) [unfolded processMessageWithRetry_def] assms(2)]
    by (cases "res = Inr ()") auto
qed

text \<open>C10. The way of a sent message to the clients: if \<^verbatim>\<open>SendMessage\<close> succeeds and has published, then exactly one payload was published, on the channel of the
  guild; it decodes to the stored message, and a gateway node that takes it queues it, unchanged, once on every registered connection
  of the guild that has room, and on no other connection.\<close>

theorem sent_message_delivered:
  assumes "sql_database db view" and "redis_server exec store" and "ws_codec marshal unmarshal"
    and "message_inv (view (mw_db w)) (store (mw_redis w))"
    and "SendMessage db exec marshal clock t created stamp u g content w = Some (Inr m, w')"
    and "messages (store (mw_redis w')) \<noteq> messages (store (mw_redis w))" and "gw_inv gate"
  shows "\<exists>data ws gate'. messages (store (mw_redis w')) = messages (store (mw_redis w)) @ [(''guild:'' @ g, data)] \<and>
    unmarshal data = (None, ws) \<and> w_MessageId ws = m_ID m \<and> w_SeqId ws = m_SeqID m \<and> stores ws m \<and>
    m \<in> set (t_messages (view (mw_db w'))) \<and>
    handleDownstreamMessage unmarshal marshal data gate = Returns (None, gate') \<and> gw_conns gate' = gw_conns gate \<and>
    (\<forall>j < length (gw_heap gate). gw_heap gate' ! j =
       (if GetConnection (cn_UserID (gw_heap gate ! j)) gate = Some j \<and> cn_GuildID (gw_heap gate ! j) = g
        then delivered data (gw_heap gate ! j) else gw_heap gate ! j))"
proof -
  from message_store.SendMessage_cases [OF message_store.intro [OF assms(1,2)] assms(5,4)]
  obtain s1 where m: "m_UserID m = u" "m_GuildID m = g" "m_Content m = content" "view (mw_db w') = log_append (view (mw_db w)) m"
      and seq: "GenerateSeqID exec t g (mw_redis w) = (Inr (m_SeqID m), s1)"
      and pub: "store (mw_redis w') = store s1 \<or> (\<exists>un. published marshal stamp m un (store s1) (store (mw_redis w')))"
    by auto
  have s1: "messages (store s1) = messages (store (mw_redis w))"
    by (rule redis_server.GenerateSeqID_messages [OF assms(2) seq])
  then obtain un data where data: "marshal (pb_message m stamp un) = Inr data"
      "messages (store (mw_redis w')) = messages (store (mw_redis w)) @ [(''guild:'' @ g, data)]"
    using pub assms(6) m(2) by (auto simp: published_def guild_channel_def)
  have dec: "unmarshal data = (None, pb_message m stamp un)" by (rule ws_codec.unmarshal_marshal [OF assms(3) data(1)])
  from handleDownstreamMessage_delivers [of gate unmarshal data "pb_message m stamp un" marshal data, OF assms(7) dec data(1)] obtain gate' where
    "handleDownstreamMessage unmarshal marshal data gate = Returns (None, gate')" "gw_conns gate' = gw_conns gate"
    "\<forall>j < length (gw_heap gate). gw_heap gate' ! j =
       (if GetConnection (cn_UserID (gw_heap gate ! j)) gate = Some j \<and> cn_GuildID (gw_heap gate ! j) = g
        then delivered data (gw_heap gate ! j) else gw_heap gate ! j)"
    using m(2) by (auto simp: pb_message_def)
  then show ?thesis using data(2) dec m
    by (intro exI [of _ data] exI [of _ "pb_message m stamp un"] exI [of _ gate']) (simp add: pb_message_def stores_def log_append_def)
qed

section \<open>Examples\<close>

text \<open>The consumer's handler over a world; with a clock that goes on it always returns.\<close>

definition world_handler :: "'d database \<Rightarrow> 's redis \<Rightarrow> (nat \<Rightarrow> int) \<Rightarrow> ('d, 's) msg_world handler" where
  "world_handler db exec clock msg w =
     (case consumerHandler demo_unmarshal db exec demo_marshal clock 7 9 8 msg w of Some r \<Rightarrow> r | None \<Rightarrow> (None, w))"

definition running_clock :: "nat \<Rightarrow> int" where
  "running_clock k = 1704067202000000000 + int k * 1000000"

lemma running_clock_progress: "\<exists>m > k. l < currentTimestamp running_clock m"
proof -
  have "currentTimestamp running_clock m = 1704067202000 + int m" for m
    by (simp add: currentTimestamp_def running_clock_def sdiv_nonneg)
  then show ?thesis by (intro exI [of _ "Suc (k + nat l)"]) simp
qed

interpretation world_consumer: message_consumer sql_step id redis_run id demo_unmarshal demo_marshal running_clock id
    "world_handler sql_step redis_run running_clock" "\<lambda>n w. w"
proof (intro message_consumer.intro message_consumer_axioms.intro ref_store.message_store_axioms)
  fix msg :: consumer_message and w :: "(tables, rstate) msg_world"
  have "consumerHandler demo_unmarshal sql_step redis_run demo_marshal running_clock 7 9 8 msg w \<noteq> None"
    using NextID_progress [OF running_clock_progress, of "mw_tick w" "mw_gen w"]
    by (auto simp: consumerHandler_def SendMessage_def split: option.split sum.split prod.split if_splits)
  then show "\<exists>t created stamp. consumerHandler demo_unmarshal sql_step redis_run demo_marshal running_clock t created stamp msg (id w) =
      Some (fst (world_handler sql_step redis_run running_clock msg w), id (snd (world_handler sql_step redis_run running_clock msg w)))"
    by (intro exI [of _ 7] exI [of _ 9] exI [of _ 8]) (auto simp: world_handler_def)
qed simp

definition demo_kafka_message :: consumer_message where
  "demo_kafka_message = \<lparr>cm_Topic = ''chat_messages'', cm_Partition = 0, cm_Offset = 0, cm_Key = Some ''g-1'',
     cm_Value = projr (demo_marshal (empty_ws\<lparr>w_UserId := ''id-1'', w_GuildId := ''g-1'', w_Content := ''hi''\<rparr>))\<rparr>"

lemma clean_reference: "clean_errors sql_step id"
  using sql_step_not_RecordNotFound by (auto simp: clean_errors_def)

theorem consumed_message_stored_witness:
  "\<exists>res w' ms. processMessageWithRetry (\<lambda>_. None) (\<lambda>n w. w) demo_kafka (world_handler sql_step redis_run running_clock)
      demo_kafka_message demo_world = (res, w') \<and> appended (snd (demo_unmarshal (cm_Value demo_kafka_message))) demo_tables ms (mw_db w') \<and>
    length ms = (if res = Inr () then 1 else 0)"
proof -
  obtain res w' where run: "processMessageWithRetry (\<lambda>_. None) (\<lambda>n w. w) demo_kafka (world_handler sql_step redis_run running_clock)
      demo_kafka_message demo_world = (res, w')" by fastforce
  from consumed_message_stored [OF world_consumer.message_consumer_axioms _ run] clean_reference demo_world_inv run
  show ?thesis by (auto simp: demo_world_def)
qed

lemma demo_SendMessage_publishes:
  "\<exists>m w' data. SendMessage sql_step redis_run demo_marshal demo_clock 7 9 8 ''id-1'' ''g-1'' ''hi'' demo_world = Some (Inr m, w') \<and>
     messages (mw_redis w') = [(''guild:g-1'', data)]"
  by (simp add: SendMessage_def IsMember_def GetMemberGuilds_def query_def query_first_def demo_world_def demo_tables_def demo_next
      GenerateSeqID_def redis_incrby_def live_def empty_redis_def int64_range_def put_entry_def store_and_publish_def publishMessage_def
      Publish_def run_cmd_def message_Create_def user_FindByID_def guild_channel_def demo_marshal_def Let_def)

theorem sent_message_delivered_witness:
  "\<exists>m w' data gate'. SendMessage sql_step redis_run demo_marshal demo_clock 7 9 8 ''id-1'' ''g-1'' ''hi'' demo_world = Some (Inr m, w') \<and>
     messages (mw_redis w') = [(''guild:g-1'', data)] \<and>
     handleDownstreamMessage demo_unmarshal demo_marshal data (snd (AddConnection demo_manager 0 0 ''ann'' ''g-1'' demo_gw0)) = Returns (None, gate') \<and>
     cn_Send (gw_heap gate' ! 0) = [data]"
proof -
  obtain m w' data where run: "SendMessage sql_step redis_run demo_marshal demo_clock 7 9 8 ''id-1'' ''g-1'' ''hi'' demo_world = Some (Inr m, w')"
      and msgs: "messages (mw_redis w') = [(''guild:g-1'', data)]" using demo_SendMessage_publishes by blast
  define gate where "gate = snd (AddConnection demo_manager 0 0 ''ann'' ''g-1'' demo_gw0)"
  have gate: "gw_inv gate" "gw_conns gate = [(''ann'', 0)]" "gw_heap gate = [NewConnection 0 ''ann'' ''g-1'']"
    by (simp add: gate_def demo_gw0_def gw_inv_AddConnection)
      (simp_all add: gate_def demo_gw0_def AddConnection_conns AddConnection_heap NewConnectionManager_def)
  have "messages (mw_redis w') \<noteq> messages (mw_redis demo_world)" using msgs by (simp add: demo_world_def empty_redis_def)
  from sent_message_delivered [OF ref_db.sql_database_axioms ref_redis.redis_server_axioms demo_codec.ws_codec_axioms _ run _ gate(1)]
    this demo_world_inv msgs
  obtain gate' where "handleDownstreamMessage demo_unmarshal demo_marshal data gate = Returns (None, gate')"
      "\<forall>j < length (gw_heap gate). gw_heap gate' ! j =
       (if GetConnection (cn_UserID (gw_heap gate ! j)) gate = Some j \<and> cn_GuildID (gw_heap gate ! j) = ''g-1''
        then delivered data (gw_heap gate ! j) else gw_heap gate ! j)"
    by (auto simp: demo_world_def empty_redis_def)
  then have "handleDownstreamMessage demo_unmarshal demo_marshal data gate = Returns (None, gate') \<and> cn_Send (gw_heap gate' ! 0) = [data]"
    using gate by (simp add: NewConnection_def GetConnection_def delivered_def send_capacity_def)
  then show ?thesis using run msgs unfolding gate_def by blast
qed

text \<open>A database that loses the reply of its first \<open>n\<close> committed message inserts.\<close>

definition lossy_db :: "(nat \<times> tables) database" where
  "lossy_db t q s =
     (case s of (n, d) \<Rightarrow>
        case sql_step t q d of (r, d') \<Rightarrow>
          if 0 < n \<and> (case q of InsertMessage m \<Rightarrow> True | _ \<Rightarrow> False) then (Inl (Err ''connection reset by peer''), (n - 1, d')) else (r, (n, d')))"

interpretation lossy: sql_database lossy_db snd
proof unfold_locales
  fix t q d rs d' assume "lossy_db t q d = (Inr rs, d')"
  then show "\<exists>rs'. sql_step t q (snd d) = (Inr rs', snd d') \<and> (determined q (snd d) \<longrightarrow> rows_agree rs rs')"
    by (auto simp: lossy_db_def split: prod.splits if_splits)
next
  fix t q d e d' assume "lossy_db t q d = (Inl e, d')"
  then show "(snd d' = snd d \<or> snd d' = snd (sql_step t q (snd d))) \<and> \<not> errors_Is e ErrRecordNotFound"
    by (auto simp: lossy_db_def ErrRecordNotFound_def duplicate_key_def split: prod.splits if_splits dest: sql_step_not_RecordNotFound)
qed

lemma demo_next_again: "NextID demo_clock (Suc 0) (Snowflake.demo_gen 1 0 1704067202000) = Some (Inr 8388612097, Snowflake.demo_gen 1 1 1704067202000, 2)"
  by code_simp

lemma consumerHandler_demo:
  "consumerHandler demo_unmarshal db exec marshal clock t created stamp demo_kafka_message w =
     (case SendMessage db exec marshal clock t created stamp ''id-1'' ''g-1'' ''hi'' w of
             None \<Rightarrow> None
           | Some (Inl err, w') \<Rightarrow> Some (Some err, w')
           | Some (Inr _, w') \<Rightarrow> Some (None, w'))"
proof -
  define ws where "ws = empty_ws\<lparr>w_UserId := ''id-1'', w_GuildId := ''g-1'', w_Content := ''hi''\<rparr>"
  obtain d where d: "demo_marshal ws = Inr d" by (simp add: demo_marshal_def)
  show ?thesis using demo_codec.unmarshal_marshal [OF d] d
    by (simp add: consumerHandler_def demo_kafka_message_def ws_def empty_ws_def)
qed

text \<open>Then a retry of the consumer stores and publishes the message a second time, and reports success.\<close>

lemma retry_stores_twice:
  "\<exists>w'. processMessageWithRetry (\<lambda>_. None) (\<lambda>n w. w) demo_kafka (world_handler lossy_db redis_run demo_clock)
      demo_kafka_message \<lparr>mw_db = (1, demo_tables), mw_redis = empty_redis, mw_gen = Snowflake.demo_gen 1 0 0, mw_tick = 0\<rparr> = (Inr (), w') \<and>
     length (t_messages (snd (mw_db w'))) = 2 \<and> length (messages (mw_redis w')) = 2"
  by (simp add: processMessageWithRetry_def demo_kafka_def retry_loop.simps handler_action_def world_handler_def consumerHandler_demo
      SendMessage_def IsMember_def GetMemberGuilds_def query_def query_first_def demo_world_def demo_tables_def demo_next demo_next_again
      GenerateSeqID_def redis_incrby_def live_def empty_redis_def int64_range_def put_entry_def store_and_publish_def publishMessage_def
      Publish_def run_cmd_def message_Create_def user_FindByID_def guild_channel_def demo_marshal_def fill_message_def lossy_db_def Let_def)

end
