(* ===== verification/Node.thy ===== *)
theory Node
  imports Pipeline
begin

text \<open>
  A whole node of the chat server: the HTTP engine with the API and the websocket route, the read pumps that produce to Kafka, the Kafka consumer, the
  goroutines of the gateway and the gRPC services, over one database, one Redis and one Kafka.  A run interleaves their steps; the ghost
  list of origins records whose token a request presented and for whom a gRPC caller claimed to speak.  The interleaving inside a
  request is the subject of the theory \<open>Concurrency\<close>.
\<close>

section \<open>What the gateway leaves alone\<close>

text \<open>The gateway only touches the presence keys of Redis.\<close>

definition keeps_counters :: "rstate \<Rightarrow> rstate \<Rightarrow> bool" where
  "keeps_counters r r' \<longleftrightarrow> (\<forall>g. entries r' (seq_key g) = entries r (seq_key g)) \<and> messages r' = messages r"

lemma keeps_counters_refl [simp]: "keeps_counters r r"
  by (simp add: keeps_counters_def)

lemma keeps_counters_trans: "keeps_counters r r1 \<Longrightarrow> keeps_counters r1 r2 \<Longrightarrow> keeps_counters r r2"
  by (simp add: keeps_counters_def)

lemma message_inv_keeps: "keeps_counters r r' \<Longrightarrow> message_inv d r' = message_inv d r"
  by (simp add: message_inv_def keeps_counters_def seq_inv_def seq_value_def)

definition heap_users :: "'r gateway \<Rightarrow> string list" where
  "heap_users g = map cn_UserID (gw_heap g)"

lemma heap_users_upd:
  assumes "cn_UserID (f (gw_heap g ! i)) = cn_UserID (gw_heap g ! i)"
  shows "heap_users (upd_conn i f g) = heap_users g"
proof (cases "i < length (gw_heap g)")
  case True
  then have "map cn_UserID (gw_heap g) ! i = cn_UserID (gw_heap g ! i)" by simp
  then show ?thesis using assms by (metis heap_users_def list_update_id map_update upd_conn_def gateway.update_convs(1) gateway.select_convs(1) gateway.surjective)
next
  case False
  then show ?thesis by (simp add: heap_users_def upd_conn_def list_update_beyond)
qed

lemma heap_users_simps [simp]:
  "heap_users (close_conn cfg i g) = heap_users g"
  "heap_users (g\<lparr>gw_redis := r\<rparr>) = heap_users g"
  "heap_users (g\<lparr>gw_conns := cs\<rparr>) = heap_users g"
  "heap_users (refresh_online cfg t u g) = heap_users g"
  unfolding close_conn_def by (rule heap_users_upd, simp) (simp_all add: heap_users_def)

text \<open>A step of the gateway that opens no connection keeps the users of the connections and the counters.\<close>

definition gate_frame :: "('s \<Rightarrow> rstate) \<Rightarrow> 's gateway \<Rightarrow> 's gateway \<Rightarrow> bool" where
  "gate_frame store g g' \<longleftrightarrow> heap_users g' = heap_users g \<and> keeps_counters (store (gw_redis g)) (store (gw_redis g'))"

lemma gate_frame_trans: "gate_frame store g g1 \<Longrightarrow> gate_frame store g1 g2 \<Longrightarrow> gate_frame store g g2"
  by (auto simp: gate_frame_def intro: keeps_counters_trans)

lemma gate_frame_fold:
  assumes "\<And>x g. gate_frame store g (f x g)"
  shows "gate_frame store g (fold f xs g)"
  using assms
proof (induction xs arbitrary: g)
  case Nil
  then show ?case by (simp add: gate_frame_def)
next
  case (Cons x xs)
  then show ?case using gate_frame_trans [OF Cons.prems [of g x]] by simp
qed

lemma gate_frame_upd:
  assumes "cn_UserID (f (gw_heap g ! i)) = cn_UserID (gw_heap g ! i)"
  shows "gate_frame store g (upd_conn i f g)"
  using heap_users_upd [of f g i, OF assms] by (simp add: gate_frame_def)

lemma gate_frame_close: "gate_frame store g (close_conn cfg i g)"
  by (simp add: gate_frame_def)

context redis_server
begin

lemma exec_keeps:
  assumes "\<And>r. keeps_counters r (snd (redis_step t c r))"
  shows "keeps_counters (store s) (store (snd (exec t [c] s)))"
  using assms [of "store s"] by (cases rule: exec_single_cases [of t c s]) auto

lemma presence_keeps:
  "keeps_counters (store s) (store (snd (SetUserOnline exec t u node ttl s)))"
  "keeps_counters (store s) (store (snd (RemoveUserOnline exec t u s)))"
  "keeps_counters (store s) (store (snd (IsUserOnline exec t u s)))"
proof -
  have snd_run: "snd (run_cmd exec t c f s) = snd (exec t [c] s)" for c f
    by (simp add: run_cmd_def split: prod.split sum.split)
  show "keeps_counters (store s) (store (snd (SetUserOnline exec t u node ttl s)))"
    "keeps_counters (store s) (store (snd (RemoveUserOnline exec t u s)))"
    unfolding SetUserOnline_def RemoveUserOnline_def snd_run
    by (rule exec_keeps, simp add: keeps_counters_def put_entry_def)+
  have "snd (IsUserOnline exec t u s) = snd (exec t [EXISTS [online_key u]] s)"
    by (simp add: IsUserOnline_def split: prod.split sum.split)
  then show "keeps_counters (store s) (store (snd (IsUserOnline exec t u s)))"
    using exec_keeps [of t "EXISTS [online_key u]" s] by simp
qed

lemma refresh_frame: "mc_exec cfg = exec \<Longrightarrow> gate_frame store g (refresh_online cfg t u g)"
  using presence_keeps(1) by (simp add: gate_frame_def) (simp add: refresh_online_def)

lemma RemoveConnection_frame:
  assumes "mc_exec cfg = exec"
  shows "gate_frame store g (snd (RemoveConnection cfg t u g))"
  using presence_keeps(2) [of "gw_redis g" t u] assms
  by (auto simp: RemoveConnection_def gate_frame_def Let_def split: option.split prod.split)

lemma AddConnection_frame:
  assumes "mc_exec cfg = exec" and "AddConnection cfg t now u guild g = (i, g')"
  shows "heap_users g' = heap_users g @ [u]" and "keeps_counters (store (gw_redis g)) (store (gw_redis g'))" and "i = length (gw_heap g)"
proof -
  define g1 where "g1 = (case map_of (gw_conns g) u of None \<Rightarrow> g | Some i \<Rightarrow> close_conn cfg i g)"
  have g1: "heap_users g1 = heap_users g" "gw_redis g1 = gw_redis g" "length (gw_heap g1) = length (gw_heap g)"
    by (simp_all add: g1_def split: option.split)
  have eq: "g' = refresh_online cfg t u (g1\<lparr>gw_heap := gw_heap g1 @ [NewConnection now u guild], gw_conns := AList.update u i (gw_conns g1)\<rparr>)"
    "i = length (gw_heap g1)" using assms(2) by (auto simp: AddConnection_def Let_def g1_def)
  show "heap_users g' = heap_users g @ [u]" using g1(1) eq(1) by (simp add: heap_users_def NewConnection_def)
  show "i = length (gw_heap g)" using g1(3) eq(2) by simp
  show "keeps_counters (store (gw_redis g)) (store (gw_redis g'))"
    using presence_keeps(1) [of "gw_redis g" t u "mc_nodeID cfg" "online_ttl cfg"] assms(1) g1(2) eq(1)
    by (simp add: refresh_online_def)
qed

lemma handleDisconnect_frame:
  assumes "mc_exec cfg = exec"
  shows "gate_frame store g (handleDisconnect cfg t i g)"
proof -
  define u where "u = cn_UserID (gw_heap g ! i)"
  define g2 where "g2 = close_conn cfg i (snd (RemoveConnection cfg t u g))"
  define r1 where "r1 = snd (IsUserOnline exec t u (gw_redis g2))"
  have 2: "gate_frame store g g2"
    unfolding g2_def by (rule gate_frame_trans [OF RemoveConnection_frame [OF assms] gate_frame_close])
  have r: "keeps_counters (store (gw_redis g2)) (store r1)" "keeps_counters (store r1) (store (snd (RemoveUserOnline exec t u r1)))"
    using presence_keeps by (simp_all add: r1_def)
  have "handleDisconnect cfg t i g = g2\<lparr>gw_redis := r1\<rparr> \<or>
      handleDisconnect cfg t i g = g2\<lparr>gw_redis := snd (RemoveUserOnline exec t u r1)\<rparr>"
    by (simp add: handleDisconnect_def Let_def g2_def u_def r1_def assms split: prod.split sum.split)
  then show ?thesis using 2 r by (auto simp: gate_frame_def intro: keeps_counters_trans)
qed

lemma checkHeartbeats_frame:
  assumes "mc_exec cfg = exec"
  shows "gate_frame store g (checkHeartbeats cfg t now timeout g)"
  unfolding checkHeartbeats_def remove_users_def
  by (rule gate_frame_trans [OF gate_frame_fold [OF RemoveConnection_frame [OF assms]] gate_frame_fold [OF refresh_frame [OF assms]]])

end

lemma Shutdown_frame: "gate_frame store g (manager_Shutdown cfg g)"
proof -
  have "gate_frame store (g\<lparr>gw_cancelled := True\<rparr>) (fold (close_conn cfg) (map snd (gw_conns g)) (g\<lparr>gw_cancelled := True\<rparr>))"
    by (rule gate_frame_fold [OF gate_frame_close])
  then show ?thesis by (simp add: manager_Shutdown_def gate_frame_def heap_users_def)
qed

lemma try_send_frame: "try_send i data g = Returns (sent, g') \<Longrightarrow> gate_frame store g g'"
  by (auto simp: try_send_def Let_def split: if_splits intro!: gate_frame_upd) (simp add: gate_frame_def)

lemma push_all_frame: "push_all is data g = Returns (n, g') \<Longrightarrow> gate_frame store g g'"
proof (induction "is" arbitrary: g n)
  case Nil
  then show ?case by (simp add: gate_frame_def)
next
  case (Cons i "is")
  then obtain sent g1 m where "try_send i data g = Returns (sent, g1)" "push_all is data g1 = Returns (m, g')"
    by (auto split: outcome.splits prod.splits)
  then show ?case using gate_frame_trans [OF try_send_frame] Cons.IH by blast
qed

lemma handleDownstreamMessage_frame:
  assumes "handleDownstreamMessage unmarshal marshal payload g = Returns (e, g')"
  shows "gate_frame store g g'"
proof (cases "\<exists>is data n. push_all is data g = Returns (n, g')")
  case False
  then have "g' = g" using assms
    by (auto simp: handleDownstreamMessage_def Let_def split: prod.splits option.splits if_splits sum.splits outcome.splits)
  then show ?thesis by (simp add: gate_frame_def)
qed (blast intro: push_all_frame)

lemma sendError_frame: "sendError marshal now i msg g = Returns g' \<Longrightarrow> gate_frame store g g'"
  by (auto simp: sendError_def gate_frame_def split: sum.splits outcome.splits dest: try_send_frame [of _ _ _ _ _ store, unfolded gate_frame_def])

lemma write_turn_frame: "gate_frame store g (snd (write_turn cfg i ev g))"
  by (cases ev) (auto simp: write_turn_def case_prod_beta gate_frame_def heap_users_upd split: list.split)

text \<open>The gRPC services write to connections directly.\<close>

lemma write_conn_keeps:
  assumes "gw_inv g" and "i < length (gw_heap g)"
  shows "gw_inv (snd (write_conn cfg data i g))"
  unfolding write_conn_def using assms
  by (auto simp: conn_ok_def intro!: gw_inv_upd_at)

lemma write_conn_frame: "gate_frame store g (snd (write_conn cfg data i g))"
  by (simp add: write_conn_def gate_frame_upd)

lemma broadcast_loop_keeps:
  assumes "gw_inv g" and "\<forall>i \<in> set is. i < length (gw_heap g)"
  shows "gw_inv (snd (broadcast_loop cfg exclude data is n failed g)) \<and> gate_frame store g (snd (broadcast_loop cfg exclude data is n failed g))"
  using assms
proof (induction "is" arbitrary: n failed g)
  case Nil
  then show ?case by (simp add: gate_frame_def)
next
  case (Cons i "is")
  let ?g1 = "snd (write_conn cfg data i g)"
  have 1: "gw_inv ?g1" "gate_frame store g ?g1" "length (gw_heap ?g1) = length (gw_heap g)"
    using Cons.prems write_conn_keeps write_conn_frame by (auto simp: write_conn_def)
  have rec: "gw_inv (snd (broadcast_loop cfg exclude data is m fl ?g1)) \<and> gate_frame store g (snd (broadcast_loop cfg exclude data is m fl ?g1))"
    for m fl using Cons.IH [of ?g1 m fl] Cons.prems(2) 1 gate_frame_trans by auto
  show ?case
  proof (cases "cn_UserID (gw_heap g ! i) \<in> set exclude")
    case True
    then show ?thesis using Cons.IH [of g n failed] Cons.prems by simp
  next
    case False
    obtain e g1 where w: "write_conn cfg data i g = (e, g1)" by fastforce
    show ?thesis using False rec w by (cases e) auto
  qed
qed

lemma rpc_gateway_keeps:
  assumes "gw_inv g" and "PushMessage cfg marshal u m g = (r, g') \<or> BroadcastToGuild cfg marshal guild m exclude g = (r', g')"
  shows "gw_inv g' \<and> gate_frame store g g'"
proof -
  have self: "gate_frame store g g" by (simp add: gate_frame_def)
  have loop: "gw_inv (snd (broadcast_loop cfg exclude d (GetConnectionsByGuild guild g) 0 [] g)) \<and>
      gate_frame store g (snd (broadcast_loop cfg exclude d (GetConnectionsByGuild guild g) 0 [] g))" for d
    using assms(1) gw_inv_mapped(1) [OF assms(1)] by (intro broadcast_loop_keeps) (auto simp: set_GetConnectionsByGuild)
  have push: "gw_inv (snd (write_conn cfg d i g)) \<and> gate_frame store g (snd (write_conn cfg d i g))" if "GetConnection u g = Some i" for d i
    using write_conn_keeps [OF assms(1) gw_invD(1) [OF assms(1)]] write_conn_frame that by (auto simp: GetConnection_def)
  from assms(2) show ?thesis
  proof
    assume p: "PushMessage cfg marshal u m g = (r, g')"
    then have "g' = g \<or> (\<exists>i d. GetConnection u g = Some i \<and> g' = snd (write_conn cfg d i g))"
      by (auto simp: PushMessage_def split: if_splits option.splits sum.splits prod.splits) (metis snd_conv)+
    then show ?thesis using push self assms(1) by blast
  next
    assume b: "BroadcastToGuild cfg marshal guild m exclude g = (r', g')"
    then have "g' = g \<or> (\<exists>d. g' = snd (broadcast_loop cfg exclude d (GetConnectionsByGuild guild g) 0 [] g))"
      by (auto simp: BroadcastToGuild_def Let_def split: if_splits option.splits sum.splits prod.splits) (metis snd_conv)+
    then show ?thesis using loop self assms(1) by blast
  qed
qed

text \<open>The steps of the gateway's own goroutines that neither open a connection nor queue a message.\<close>

inductive house_step :: "'r manager_config \<Rightarrow> 'r gateway \<Rightarrow> 'r gateway \<Rightarrow> bool" for cfg where
  house_remove: "house_step cfg g (snd (RemoveConnection cfg t u g))"
| house_disconnect: "i < length (gw_heap g) \<Longrightarrow> house_step cfg g (handleDisconnect cfg t i g)"
| house_heartbeats: "house_step cfg g (checkHeartbeats cfg t now timeout g)"
| house_shutdown: "house_step cfg g (manager_Shutdown cfg g)"
| house_write: "i < length (gw_heap g) \<Longrightarrow> house_step cfg g (snd (write_turn cfg i ev g))"
| house_heartbeat: "i < length (gw_heap g) \<Longrightarrow> house_step cfg g (upd_conn i (UpdateHeartbeat now) g)"

lemma house_step_gateway: "house_step cfg g g' \<Longrightarrow> gateway_step cfg g g'"
  by (induction rule: house_step.induct) (auto intro: gateway_step.intros)

context redis_server
begin

lemma house_step_frame:
  assumes "house_step cfg g g'" and "mc_exec cfg = exec"
  shows "gate_frame store g g'"
  using assms by (induction rule: house_step.induct)
    (auto intro: RemoveConnection_frame handleDisconnect_frame checkHeartbeats_frame Shutdown_frame write_turn_frame gate_frame_upd
     simp: UpdateHeartbeat_def)

end

section \<open>The node\<close>

record ('d, 's, 'k) node =
  nd_server :: "('d, 's) server"
  nd_kafka :: 'k

text \<open>The parts a node is built from: the services, the connection manager's configuration, the codecs, the Kafka client with the records its
  broker keeps, the messages published on Redis so far, and what gin and the websocket library do.\<close>

record ('d, 's, 'k) node_env =
  ne_app :: "('d, 's) app"
  ne_manager :: "'s manager_config"
  ne_unmarshal :: ws_unmarshal
  ne_json :: "string \<Rightarrow> ws_message \<Rightarrow> go_error option \<times> ws_message"
  ne_send :: "producer_message \<Rightarrow> (int \<times> int, 'k) action"
  ne_log :: "'k \<Rightarrow> producer_message list"
  ne_published :: "'s \<Rightarrow> (string \<times> string) list"
  ne_kafka :: kafka_config
  ne_upgrade :: "gin_context \<Rightarrow> go_error option"
  ne_serveFile :: "string \<Rightarrow> gin_context \<Rightarrow> gin_context"
  ne_no_route :: "gin_context \<Rightarrow> gin_context"

definition new_node :: "('d, 's) msg_world \<Rightarrow> 'k \<Rightarrow> ('d, 's, 'k) node" where
  "new_node w k = \<lparr>nd_server = \<lparr>sv_world = w, sv_gateway = NewConnectionManager (mw_redis w), sv_spawned = []\<rparr>, nd_kafka = k\<rparr>"

text \<open>Whom the tokens of a request stand for: the API reads the header or the query, the websocket route the query.\<close>

datatype origin = TokenOf string | GrpcFor string

definition presented :: "('d, 's) app \<Rightarrow> draws \<Rightarrow> gin_context \<Rightarrow> origin list" where
  "presented app dr c =
     concat (map (\<lambda>tok. case ParseToken (a_parse app) (a_tm app) (dr_now dr) tok of Inl e \<Rightarrow> [] | Inr cl \<Rightarrow> [TokenOf (c_UserID cl)])
       [request_token c, lookup_str (rq_query c) ''token''])"

definition set_world :: "('d, 's) msg_world \<Rightarrow> ('d, 's, 'k) node \<Rightarrow> ('d, 's, 'k) node" where
  "set_world w s = s\<lparr>nd_server := (nd_server s)\<lparr>sv_world := w\<rparr>\<rparr>"

definition set_gateway :: "'s gateway \<Rightarrow> ('d, 's, 'k) node \<Rightarrow> ('d, 's, 'k) node" where
  "set_gateway g s = s\<lparr>nd_server := put_gateway g (nd_server s)\<rparr>"

text \<open>A record of the message topic can be delivered to the consumer any number of times, in any order; so can a published message to the
  gateway's subscription.  What the consumer prints on standard output is not part of the state.\<close>

definition delivers :: "('d, 's, 'k) node_env \<Rightarrow> 'k \<Rightarrow> consumer_message \<Rightarrow> bool" where
  "delivers env k msg \<longleftrightarrow>
     (\<exists>pm \<in> set (ne_log env k). pm_Topic pm = tp_Message (kf_Topics (ne_kafka env)) \<and> cm_Value msg = pm_Value pm)"

inductive node_step :: "('d, 's, 'k) node_env \<Rightarrow> ('d, 's, 'k) node \<Rightarrow> origin list \<Rightarrow> ('d, 's, 'k) node \<Rightarrow> bool" for env where
  node_request: "main_engine (ne_app env) dr (ne_upgrade env) (ne_serveFile env) (ne_no_route env) (ne_manager env) c (nd_server s) = Done c' sv \<Longrightarrow>
    node_step env s (presented (ne_app env) dr c) (s\<lparr>nd_server := sv\<rparr>)"
| node_frame: "ReadPump i \<in> set (sv_spawned (nd_server s)) \<Longrightarrow>
    handleUpstreamMessage (ne_unmarshal env) (ne_json env) (a_marshal (ne_app env)) (ne_send env) (ne_kafka env) now
      (gw_heap (sv_gateway (nd_server s)) ! i) data (nd_kafka s) = (e, k) \<Longrightarrow>
    node_step env s [] (s\<lparr>nd_kafka := k\<rparr>)"
| node_gateway: "house_step (ne_manager env) (gateway_of (nd_server s)) g \<Longrightarrow> node_step env s [] (set_gateway g s)"
| node_downstream: "(channel, payload) \<in> set (ne_published env (mw_redis (sv_world (nd_server s)))) \<Longrightarrow>
    handleDownstreamMessage (ne_unmarshal env) (a_marshal (ne_app env)) payload (gateway_of (nd_server s)) = Returns (e, g) \<Longrightarrow>
    node_step env s [] (set_gateway g s)"
| node_error: "ReadPump i \<in> set (sv_spawned (nd_server s)) \<Longrightarrow>
    sendError (a_marshal (ne_app env)) now i msg (gateway_of (nd_server s)) = Returns g \<Longrightarrow> node_step env s [] (set_gateway g s)"
| node_consume: "delivers env (nd_kafka s) msg \<Longrightarrow>
    consumerHandler (ne_unmarshal env) (a_db (ne_app env)) (a_exec (ne_app env)) (a_marshal (ne_app env)) (a_clock (ne_app env)) t created stamp msg
      (sv_world (nd_server s)) = Some (e, w) \<Longrightarrow>
    node_step env s [] (set_world w s)"
| node_dead_letter: "delivers env (nd_kafka s) msg \<Longrightarrow> sendToDLQ (\<lambda>_ k. k) (ne_send env) (ne_kafka env) msg err (nd_kafka s) = (e, k) \<Longrightarrow>
    node_step env s [] (s\<lparr>nd_kafka := k\<rparr>)"
| node_rpc_send: "rpc_SendMessage (a_db (ne_app env)) (a_exec (ne_app env)) (a_marshal (ne_app env)) (a_clock (ne_app env)) t created stamp u g content
      (sv_world (nd_server s)) = Some (r, w) \<Longrightarrow>
    node_step env s [GrpcFor u] (set_world w s)"
| node_rpc_push: "PushMessage (ne_manager env) (a_marshal (ne_app env)) u m (gateway_of (nd_server s)) = (r, g) \<Longrightarrow>
    node_step env s [] (set_gateway g s)"
| node_rpc_broadcast: "BroadcastToGuild (ne_manager env) (a_marshal (ne_app env)) guild m exclude (gateway_of (nd_server s)) = (r, g) \<Longrightarrow>
    node_step env s [] (set_gateway g s)"

inductive node_reach :: "('d, 's, 'k) node_env \<Rightarrow> ('d, 's, 'k) node \<Rightarrow> origin list \<Rightarrow> ('d, 's, 'k) node \<Rightarrow> bool" for env s0 where
  node_start: "node_reach env s0 [] s0"
| node_more: "node_reach env s0 os s \<Longrightarrow> node_step env s new s' \<Longrightarrow> node_reach env s0 (os @ new) s'"

section \<open>Authorship over all entrances\<close>

text \<open>What is known of a stored message, of a Kafka record and of a connection.\<close>

definition message_ok :: "origin set \<Rightarrow> tables \<Rightarrow> message \<Rightarrow> bool" where
  "message_ok os d m \<longleftrightarrow> (TokenOf (m_UserID m) \<in> os \<or> GrpcFor (m_UserID m) \<in> os) \<and> member_of d (m_GuildID m) (m_UserID m) \<and>
     0 < length (m_Content m) \<and> length (m_Content m) \<le> 2000"

definition record_ok :: "origin set \<Rightarrow> ws_unmarshal \<Rightarrow> producer_message \<Rightarrow> bool" where
  "record_ok os unmarshal pm \<longleftrightarrow> (\<exists>m. unmarshal (pm_Value pm) = (None, m) \<and> TokenOf (w_UserId m) \<in> os)"

definition tables_ok :: "origin set \<Rightarrow> tables \<Rightarrow> rstate \<Rightarrow> bool" where
  "tables_ok os d r \<longleftrightarrow> message_inv d r \<and> (\<forall>m \<in> set (t_messages d). message_ok os d m)"

definition gate_ok :: "origin set \<Rightarrow> ('d, 's) server \<Rightarrow> bool" where
  "gate_ok os sv \<longleftrightarrow> gw_inv (sv_gateway sv) \<and> (\<forall>u \<in> set (heap_users (sv_gateway sv)). TokenOf u \<in> os) \<and>
     (\<forall>i. ReadPump i \<in> set (sv_spawned sv) \<longrightarrow> i < length (gw_heap (sv_gateway sv)))"

definition world_ok :: "('d \<Rightarrow> tables) \<Rightarrow> ('s \<Rightarrow> rstate) \<Rightarrow> origin set \<Rightarrow> ('d, 's) msg_world \<Rightarrow> bool" where
  "world_ok view store os w \<longleftrightarrow> tables_ok os (view (mw_db w)) (store (mw_redis w))"

definition log_ok :: "('d, 's, 'k) node_env \<Rightarrow> origin set \<Rightarrow> 'k \<Rightarrow> bool" where
  "log_ok env os k \<longleftrightarrow> (\<forall>pm \<in> set (ne_log env k). record_ok os (ne_unmarshal env) pm)"

definition node_inv :: "('d, 's, 'k) node_env \<Rightarrow> ('d \<Rightarrow> tables) \<Rightarrow> ('s \<Rightarrow> rstate) \<Rightarrow> origin set \<Rightarrow> ('d, 's, 'k) node \<Rightarrow> bool" where
  "node_inv env view store os s \<longleftrightarrow>
     world_ok view store os (sv_world (nd_server s)) \<and> gate_ok os (nd_server s) \<and> log_ok env os (nd_kafka s)"

lemma message_ok_mono:
  assumes "message_ok os d m" and "os \<subseteq> os'" and "set (t_members d) \<subseteq> set (t_members d')"
  shows "message_ok os' d' m"
  using assms by (auto simp: message_ok_def member_of_def)

lemma tables_ok_mono: "tables_ok os d r \<Longrightarrow> os \<subseteq> os' \<Longrightarrow> keeps_counters r r' \<Longrightarrow> tables_ok os' d r'"
  by (auto simp: tables_ok_def message_inv_keeps intro: message_ok_mono)

lemma gate_ok_mono: "gate_ok os sv \<Longrightarrow> os \<subseteq> os' \<Longrightarrow> sv_gateway sv' = sv_gateway sv \<Longrightarrow> sv_spawned sv' = sv_spawned sv \<Longrightarrow> gate_ok os' sv'"
  by (auto simp: gate_ok_def)

lemma record_ok_mono: "record_ok os f pm \<Longrightarrow> os \<subseteq> os' \<Longrightarrow> record_ok os' f pm"
  by (auto simp: record_ok_def)

lemma gate_ok_frame:
  assumes "gate_ok os sv" and "gate_frame store (gateway_of sv) g" and "gw_inv g"
  shows "gate_ok os (put_gateway g sv)"
proof -
  have users: "heap_users g = heap_users (sv_gateway sv)" using assms(2) by (simp add: gate_frame_def gateway_of_def)
  then have "length (gw_heap g) = length (gw_heap (sv_gateway sv))" by (metis heap_users_def length_map)
  with users show ?thesis using assms(1,3) by (simp add: gate_ok_def put_gateway_def)
qed

lemma main_engine_cases:
  assumes "main_engine app dr upgrade serveFile no_route cfg c sv = Done c' sv'"
  obtains (static) "sv' = sv"
    | (ws) g oi c1 where "ws_route (a_parse app) (a_tm app) (dr_now dr) (dr_t dr) upgrade cfg c (gateway_of sv) = (c1, g, oi)"
        "sv' = (case oi of None \<Rightarrow> put_gateway g sv | Some i \<Rightarrow> HandleConnection i (put_gateway g sv))"
    | (api) w where "RegisterRoutes app dr (\<lambda>c w. Done (no_route c) w) c (sv_world sv) = Done c' w" "sv' = sv\<lparr>sv_world := w\<rparr>"
proof (cases "(rq_method c = ''GET'' \<or> rq_method c = ''HEAD'') \<and> (rq_path c = ''/'' \<or> rq_path c = ''/index.html'')")
  case True
  then show thesis using static assms by (simp add: main_engine_def)
next
  case no_file: False
  show thesis
  proof (cases "rq_method c = ''GET'' \<and> rq_path c = ''/ws''")
    case True
    obtain c1 g oi where run: "ws_route (a_parse app) (a_tm app) (dr_now dr) (dr_t dr) upgrade cfg c (gateway_of sv) = (c1, g, oi)"
      by (metis prod_cases3)
    show thesis using assms True by (intro ws [OF run]) (cases oi; simp add: main_engine_def run)
  next
    case False
    then have eq: "main_engine app dr upgrade serveFile no_route cfg c sv = (case RegisterRoutes app dr (\<lambda>c w. Done (no_route c) w) c (sv_world sv) of
          Done c' w \<Rightarrow> Done c' (sv\<lparr>sv_world := w\<rparr>) | Panicked c' w \<Rightarrow> Panicked c' (sv\<lparr>sv_world := w\<rparr>) | Hangs \<Rightarrow> Hangs)"
      using no_file by (simp only: main_engine_def if_False)
    show thesis
    proof (cases "RegisterRoutes app dr (\<lambda>c w. Done (no_route c) w) c (sv_world sv)")
      case (Done c1 w)
      then show thesis using api [of w] assms eq by simp
    qed (use assms eq in simp_all)
  qed
qed

lemma handleUpstreamMessage_produces:
  assumes "handleUpstreamMessage unmarshal js marshal send kcfg now conn data k = (e, k')"
  shows "k' = k \<or> (\<exists>m d topic key. marshal (stamp_upstream now conn m) = Inr d \<and> k' = snd (Produce send topic key d k))"
  using assms
  by (auto simp: handleUpstreamMessage_def Let_def split: sum.splits option.splits prod.splits) (metis snd_conv)+

text \<open>What a node relies on of its parts: their contracts, and that services and gateway share one Redis.\<close>

locale node_environment =
  fixes env :: "('d, 's, 'k) node_env" and view :: "'d \<Rightarrow> tables" and store :: "'s \<Rightarrow> rstate"
  assumes database: "sql_database (a_db (ne_app env)) view"
    and redis: "redis_server (a_exec (ne_app env)) store"
    and broker: "kafka_broker (ne_send env) (ne_log env)"
    and codec: "ws_codec (a_marshal (ne_app env)) (ne_unmarshal env)"
    and one_redis: "mc_exec (ne_manager env) = a_exec (ne_app env)"
    and pubsub: "ne_published env r = messages (store r)"

sublocale node_environment < message_store "a_db (ne_app env)" view "a_exec (ne_app env)" store
  by (rule message_store.intro [OF database redis])

sublocale node_environment < kafka_broker "ne_send env" "ne_log env"
  by (rule broker)

sublocale node_environment < ws_codec "a_marshal (ne_app env)" "ne_unmarshal env"
  by (rule codec)

context node_environment
begin

lemma world_ok_mono: "world_ok view store os w \<Longrightarrow> os \<subseteq> os' \<Longrightarrow> world_ok view store os' w"
  unfolding world_ok_def by (erule tables_ok_mono) simp_all

lemma world_ok_send:
  assumes "SendMessage (a_db (ne_app env)) (a_exec (ne_app env)) marshal clock t created stamp u g content w = Some (res, w')"
    and "world_ok view store os w" and "TokenOf u \<in> os \<or> GrpcFor u \<in> os"
  shows "world_ok view store os w'"
proof -
  from SendMessage_stored [OF assms(1)] assms(2)
  have inv: "message_inv (view (mw_db w')) (store (mw_redis w'))"
    and st: "view (mw_db w') = view (mw_db w) \<or> (\<exists>m. view (mw_db w') = log_append (view (mw_db w)) m \<and>
       m_UserID m = u \<and> m_GuildID m = g \<and> m_Content m = content \<and> member_of (view (mw_db w)) g u \<and>
       0 < length content \<and> length content \<le> 2000)"
    by (auto simp: world_ok_def tables_ok_def)
  have members: "t_members (view (mw_db w')) = t_members (view (mw_db w))" using st by (auto simp: log_append_def)
  then have same: "message_ok os (view (mw_db w')) m = message_ok os (view (mw_db w)) m" for m
    by (simp add: message_ok_def member_of_def)
  show ?thesis using st inv assms(2,3) unfolding world_ok_def tables_ok_def same
    by (auto simp: log_append_def message_ok_def)
qed

lemma world_ok_routes:
  assumes "RegisterRoutes (ne_app env) dr (\<lambda>c w. Done (f c) w) c w = Done c' w'" and "world_ok view store os w" and "os \<subseteq> os'"
    and "set (presented (ne_app env) dr c) \<subseteq> os'"
  shows "world_ok view store os' w'"
proof -
  have inv: "message_inv (view (mw_db w)) (store (mw_redis w))"
    and old: "\<And>m. m \<in> set (t_messages (view (mw_db w))) \<Longrightarrow> message_ok os (view (mw_db w)) m"
    using assms(2) by (auto simp: world_ok_def tables_ok_def)
  note run = RegisterRoutes_messages [OF assms(1) refl refl inv] and mem = RegisterRoutes_members [OF assms(1) refl refl inv]
  have kept: "message_ok os' (view (mw_db w')) m" if "m \<in> set (t_messages (view (mw_db w)))" for m
    by (rule message_ok_mono [OF old [OF that] assms(3) mem])
  have new: "message_ok os' (view (mw_db w')) m"
    if "ParseToken (a_parse (ne_app env)) (a_tm (ne_app env)) (dr_now dr) (request_token c) = Inr cl" "m_UserID m = c_UserID cl"
      "member_of (view (mw_db w)) (m_GuildID m) (c_UserID cl)" "0 < length (m_Content m)" "length (m_Content m) \<le> 2000" for cl m
    using that assms(4) mem by (auto simp: message_ok_def presented_def member_of_def)
  show ?thesis using run kept new by (auto simp: world_ok_def tables_ok_def)
qed

text \<open>A websocket is only opened for the user of the presented token.\<close>

lemma server_ok_ws:
  assumes "ws_route (a_parse (ne_app env)) (a_tm (ne_app env)) (dr_now dr) t upgrade (ne_manager env) c (gateway_of sv) = (c', g, oi)"
    and "gate_ok os sv" and "os \<subseteq> os'" and "set (presented (ne_app env) dr c) \<subseteq> os'"
  shows "gate_ok os' (put_gateway g sv) \<and> (\<forall>i. oi = Some i \<longrightarrow> i < length (gw_heap g)) \<and>
    keeps_counters (store (mw_redis (sv_world sv))) (store (gw_redis g))"
proof (cases oi)
  case None
  then have "g = gateway_of sv" using assms(1) by (auto simp: ws_route_def Let_def split: if_splits sum.splits option.splits prod.splits)
  then show ?thesis using None gate_ok_mono [OF assms(2,3), of sv]
    by (simp add: gateway_of_def put_gateway_def gate_ok_def)
next
  case (Some i)
  obtain cl where cl: "ParseToken (a_parse (ne_app env)) (a_tm (ne_app env)) (dr_now dr) (lookup_str (rq_query c) ''token'') = Inr cl"
      and add: "AddConnection (ne_manager env) t (dr_now dr) (c_UserID cl) (lookup_str (rq_query c) ''guild_id'') (gateway_of sv) = (i, g)"
    using assms(1) Some by (auto simp: ws_route_def Let_def split: if_splits sum.splits option.splits prod.splits)
  note fr = AddConnection_frame [OF one_redis add]
  have len: "length (gw_heap g) = Suc (length (gw_heap (sv_gateway sv)))"
    using fr(1) by (metis length_append_singleton heap_users_def length_map gateway_of_def heap_users_simps(2))
  have inv: "gw_inv g" using gw_inv_AddConnection [of "gateway_of sv" "ne_manager env" t "dr_now dr"] add assms(2)
    by (metis gate_ok_def gateway_of_def gw_inv_redis snd_conv)
  have "TokenOf (c_UserID cl) \<in> os'" using cl assms(4) by (auto simp: presented_def)
  then show ?thesis using fr len inv assms(2,3) Some
    by (auto simp: gate_ok_def put_gateway_def gateway_of_def less_Suc_eq)
qed

lemma node_request_inv:
  assumes "main_engine (ne_app env) dr upgrade serveFile no_route (ne_manager env) c sv = Done c' sv'"
    and "world_ok view store os (sv_world sv)" and "gate_ok os sv" and "os \<subseteq> os'" and "set (presented (ne_app env) dr c) \<subseteq> os'"
  shows "world_ok view store os' (sv_world sv') \<and> gate_ok os' sv'"
proof -
  consider (static) "sv' = sv"
    | (ws) g oi c1 where "ws_route (a_parse (ne_app env)) (a_tm (ne_app env)) (dr_now dr) (dr_t dr) upgrade (ne_manager env) c (gateway_of sv) = (c1, g, oi)"
        "sv' = (case oi of None \<Rightarrow> put_gateway g sv | Some i \<Rightarrow> HandleConnection i (put_gateway g sv))"
    | (api) w where "RegisterRoutes (ne_app env) dr (\<lambda>c w. Done (no_route c) w) c (sv_world sv) = Done c' w" "sv' = sv\<lparr>sv_world := w\<rparr>"
    by (rule main_engine_cases [OF assms(1)])
  then show ?thesis
  proof cases
    case static
    then show ?thesis using world_ok_mono [OF assms(2,4)] gate_ok_mono [OF assms(3,4) refl refl] by simp
  next
    case ws
    note fr = server_ok_ws [OF ws(1) assms(3-5)]
    have "world_ok view store os' (sv_world (put_gateway g sv))"
      using fr tables_ok_mono [OF assms(2) [unfolded world_ok_def] assms(4)] by (simp add: world_ok_def put_gateway_def)
    with fr ws(2) show ?thesis by (cases oi) (auto simp: HandleConnection_def gate_ok_def put_gateway_def)
  next
    case api
    then show ?thesis using world_ok_routes [OF api(1) assms(2,4,5)] gate_ok_mono [OF assms(3,4), of sv'] by simp
  qed
qed

lemma upstream_log_ok:
  assumes "handleUpstreamMessage (ne_unmarshal env) js (a_marshal (ne_app env)) (ne_send env) kcfg now conn data k = (e, k')"
    and "log_ok env os k" and "TokenOf (cn_UserID conn) \<in> os"
  shows "log_ok env os k'"
proof (cases "k' = k")
  case False
  then obtain m d topic key where enc: "a_marshal (ne_app env) (stamp_upstream now conn m) = Inr d"
    and k': "k' = snd (Produce (ne_send env) topic key d k)"
    using handleUpstreamMessage_produces [OF assms(1)] by blast
  have "record_ok os (ne_unmarshal env) \<lparr>pm_Topic = topic, pm_Key = key, pm_Value = d\<rparr>"
    using unmarshal_marshal [OF enc] assms(3) by (simp add: record_ok_def stamp_upstream_fields)
  then show ?thesis using assms(2) Produce_appends [of topic key d k] k' by (auto simp: log_ok_def)
qed (use assms(2) in simp)

lemma gateway_of_inv: "node_inv env view store os s \<Longrightarrow> gw_inv (gateway_of (nd_server s))"
  by (simp add: node_inv_def gate_ok_def gateway_of_def)

lemma gateway_inv:
  assumes "node_inv env view store os s" and "gate_frame store (gateway_of (nd_server s)) g" and "gw_inv g"
  shows "node_inv env view store os (set_gateway g s)"
proof -
  have "keeps_counters (store (mw_redis (sv_world (nd_server s)))) (store (gw_redis g))"
    using assms(2) by (simp add: gate_frame_def gateway_of_def)
  from tables_ok_mono [OF _ subset_refl this] have "world_ok view store os (sv_world (put_gateway g (nd_server s)))"
    using assms(1) by (simp add: node_inv_def world_ok_def put_gateway_def)
  then show ?thesis using assms gate_ok_frame [OF _ assms(2,3)] by (simp add: node_inv_def set_gateway_def)
qed

lemma set_world_inv:
  assumes "node_inv env view store os s" and "os \<subseteq> os'" and "world_ok view store os' w"
  shows "node_inv env view store os' (set_world w s)"
  using assms gate_ok_mono [of os "nd_server s" os' "(nd_server s)\<lparr>sv_world := w\<rparr>"] record_ok_mono [OF _ assms(2)]
  by (auto simp: node_inv_def set_world_def log_ok_def)

lemma consume_inv:
  assumes "node_inv env view store os s" and "delivers env (nd_kafka s) msg"
    and "consumerHandler (ne_unmarshal env) (a_db (ne_app env)) (a_exec (ne_app env)) (a_marshal (ne_app env)) clock t created stamp msg
      (sv_world (nd_server s)) = Some (e, w)"
  shows "node_inv env view store os (set_world w s)"
proof -
  obtain m where m: "ne_unmarshal env (cm_Value msg) = (None, m)" "TokenOf (w_UserId m) \<in> os"
    using assms(1,2) by (auto simp: delivers_def node_inv_def log_ok_def record_ok_def)
  from assms(3) m(1) obtain res where
    "SendMessage (a_db (ne_app env)) (a_exec (ne_app env)) (a_marshal (ne_app env)) clock t created stamp
      (w_UserId m) (w_GuildId m) (w_Content m) (sv_world (nd_server s)) = Some (res, w)"
    by (auto simp: consumerHandler_def split: option.splits sum.splits)
  from world_ok_send [OF this] m(2) assms(1) show ?thesis
    using set_world_inv [OF assms(1) subset_refl, of w] by (simp add: node_inv_def)
qed

lemma dead_letter_log_ok:
  assumes "log_ok env os k" and "delivers env k msg" and "sendToDLQ (\<lambda>_ k. k) (ne_send env) kcfg msg err k = (e, k')"
  shows "log_ok env os k'"
proof -
  have k': "k' = snd (Produce (ne_send env) (tp_DLQ (kf_Topics kcfg)) (cm_Key msg) (cm_Value msg) k)"
    using assms(3) by (auto simp: sendToDLQ_def split: prod.splits sum.splits)
  have "record_ok os (ne_unmarshal env) \<lparr>pm_Topic = tp, pm_Key = key, pm_Value = cm_Value msg\<rparr>" for tp key
    using assms(1,2) by (auto simp: delivers_def log_ok_def record_ok_def)
  then show ?thesis using assms(1) Produce_appends [of "tp_DLQ (kf_Topics kcfg)" "cm_Key msg" "cm_Value msg" k] k'
    by (auto simp: log_ok_def)
qed

lemma rpc_send_inv:
  assumes "node_inv env view store os s"
    and "rpc_SendMessage (a_db (ne_app env)) (a_exec (ne_app env)) marshal clock t created stamp u g content
      (sv_world (nd_server s)) = Some (r, w)"
  shows "node_inv env view store (insert (GrpcFor u) os) (set_world w s)"
proof (rule set_world_inv [OF assms(1)])
  have old: "world_ok view store (insert (GrpcFor u) os) (sv_world (nd_server s))"
    using assms(1) world_ok_mono [of os _ "insert (GrpcFor u) os"] by (auto simp: node_inv_def)
  have "w = sv_world (nd_server s) \<or> (\<exists>res. SendMessage (a_db (ne_app env)) (a_exec (ne_app env)) marshal clock
      t created stamp u g content (sv_world (nd_server s)) = Some (res, w))"
    using assms(2) by (auto simp: rpc_SendMessage_def split: if_splits option.splits sum.splits)
  then show "world_ok view store (insert (GrpcFor u) os) w" using old world_ok_send [OF _ old] by auto
qed blast

lemma node_step_inv:
  assumes "node_step env s new s'" and "node_inv env view store os s"
  shows "node_inv env view store (os \<union> set new) s'"
  using assms
proof (induction rule: node_step.induct)
  case (node_request dr c s c' sv)
  from node_request_inv [OF node_request.hyps, of os "os \<union> set (presented (ne_app env) dr c)"] node_request.prems
  show ?case by (auto simp: node_inv_def log_ok_def intro: record_ok_mono)
next
  case (node_frame i s now data e k)
  have "TokenOf (cn_UserID (gw_heap (sv_gateway (nd_server s)) ! i)) \<in> os"
    using node_frame.prems node_frame.hyps(1) by (auto simp: node_inv_def gate_ok_def heap_users_def)
  with upstream_log_ok [OF node_frame.hyps(2)] node_frame.prems show ?case by (simp add: node_inv_def)
next
  case (node_gateway s g)
  from gateway_inv [OF node_gateway.prems house_step_frame [OF node_gateway.hyps one_redis]
      gateway_step_inv [OF house_step_gateway [OF node_gateway.hyps] gateway_of_inv [OF node_gateway.prems]]] show ?case by simp
next
  case (node_downstream channel payload s e g)
  from gateway_inv [OF node_downstream.prems handleDownstreamMessage_frame [OF node_downstream.hyps(2)]
      gateway_step_inv [OF step_downstream [OF node_downstream.hyps(2)] gateway_of_inv [OF node_downstream.prems]]] show ?case by simp
next
  case (node_error i s now msg g)
  have "i < length (gw_heap (gateway_of (nd_server s)))"
    using node_error.prems node_error.hyps(1) by (auto simp: node_inv_def gate_ok_def gateway_of_def)
  from gateway_inv [OF node_error.prems sendError_frame [OF node_error.hyps(2)]
      gateway_step_inv [OF step_error [OF this node_error.hyps(2)] gateway_of_inv [OF node_error.prems]]] show ?case by simp
next
  case (node_consume s msg t created stamp e w)
  from consume_inv [OF node_consume.prems node_consume.hyps] show ?case by simp
next
  case (node_dead_letter s msg e k)
  then show ?case using dead_letter_log_ok [OF _ node_dead_letter.hyps] by (simp add: node_inv_def)
next
  case (node_rpc_send t created stamp u g content s r w)
  from rpc_send_inv [OF node_rpc_send.prems node_rpc_send.hyps] show ?case by simp
next
  case (node_rpc_push u m s r g)
  from rpc_gateway_keeps [OF gateway_of_inv [OF node_rpc_push.prems] disjI1 [OF node_rpc_push.hyps]] gateway_inv [OF node_rpc_push.prems] show ?case by simp
next
  case (node_rpc_broadcast guild m exclude s r g)
  from rpc_gateway_keeps [OF gateway_of_inv [OF node_rpc_broadcast.prems] disjI2 [OF node_rpc_broadcast.hyps]] gateway_inv [OF node_rpc_broadcast.prems] show ?case by simp
qed

lemma node_reach_inv:
  assumes "node_reach env s0 os s" and "node_inv env view store {} s0"
  shows "node_inv env view store (set os) s"
  using assms by (induction rule: node_reach.induct) (auto dest: node_step_inv)

end

lemma new_node_inv:
  assumes "t_messages (view (mw_db w)) = []" and "seq_inv (store (mw_redis w))" and "ne_log env k = []"
  shows "node_inv env view store {} (new_node w k)"
  using assms by (simp add: node_inv_def new_node_def world_ok_def tables_ok_def message_inv_def gate_ok_def log_ok_def heap_users_def)
    (simp add: NewConnectionManager_def)

section \<open>Property\<close>

text \<open>C1. Authorship over every entrance and in every interleaving: in every state a node can reach from an empty database and topic, by HTTP
  requests, websocket frames, steps of the gateway's goroutines, (repeated) deliveries of the Kafka consumer, dead letters and gRPC calls, for any failures of
  PostgreSQL, Redis and Kafka, each stored message has an author whose valid token some request presented or for whom a gRPC caller
  spoke, who is a member of its guild, and a content of 1 to 2000 bytes; every Kafka record carries a user whose token opened a websocket and every
  connection belongs to such a user; sequence numbers are unique per guild and the gateway's registry is consistent.\<close>

theorem node_authenticity:
  assumes "node_environment env view store"
    and "t_messages (view (mw_db w)) = []" and "seq_inv (store (mw_redis w))" and "ne_log env k = []"
    and "node_reach env (new_node w k) os s"
  shows "(\<forall>m \<in> set (t_messages (view (mw_db (sv_world (nd_server s))))).
      (TokenOf (m_UserID m) \<in> set os \<or> GrpcFor (m_UserID m) \<in> set os) \<and>
      member_of (view (mw_db (sv_world (nd_server s)))) (m_GuildID m) (m_UserID m) \<and> 0 < length (m_Content m) \<and> length (m_Content m) \<le> 2000) \<and>
    message_inv (view (mw_db (sv_world (nd_server s)))) (store (mw_redis (sv_world (nd_server s)))) \<and>
    (\<forall>pm \<in> set (ne_log env (nd_kafka s)). \<exists>m. ne_unmarshal env (pm_Value pm) = (None, m) \<and> TokenOf (w_UserId m) \<in> set os) \<and>
    (\<forall>c \<in> set (gw_heap (sv_gateway (nd_server s))). TokenOf (cn_UserID c) \<in> set os) \<and> gw_inv (sv_gateway (nd_server s))"
proof -
  from node_environment.node_reach_inv [OF assms(1,5) new_node_inv [of view w store env k, OF assms(2-4)]] show ?thesis
    by (auto simp: node_inv_def world_ok_def tables_ok_def message_ok_def log_ok_def record_ok_def gate_ok_def heap_users_def)
qed

section \<open>Example\<close>

definition demo_env :: "(tables, rstate, nat \<times> producer_message list) node_env" where
  "demo_env = \<lparr>ne_app = demo_app,
     ne_manager = \<lparr>mc_exec = redis_run, mc_HeartbeatInterval = 30, mc_nodeID = ''node-1'', mc_sockWrite = (\<lambda>_ _ _. None), mc_sockClose = (\<lambda>_. None)\<rparr>,
     ne_unmarshal = demo_unmarshal, ne_json = (\<lambda>_ m. (None, m)), ne_send = demo_send, ne_log = snd, ne_published = messages, ne_kafka = demo_kafka,
     ne_upgrade = (\<lambda>_. None), ne_serveFile = (\<lambda>_ c. c), ne_no_route = id\<rparr>"

interpretation demo_node: node_environment demo_env id id
  by (intro node_environment.intro)
    (use ref_db.sql_database_axioms ref_redis.redis_server_axioms demo_broker.kafka_broker_axioms demo_codec.ws_codec_axioms
     in \<open>simp_all add: demo_env_def demo_app_def\<close>)

theorem node_authenticity_witness:
  "\<exists>os s m. node_reach demo_env (new_node demo_world (0, [])) os s \<and> t_messages (mw_db (sv_world (nd_server s))) = [m] \<and>
     m_UserID m = ''id-1'' \<and> (TokenOf (m_UserID m) \<in> set os \<or> GrpcFor (m_UserID m) \<in> set os)"
proof -
  define s0 where "s0 = new_node demo_world (0 :: nat, [] :: producer_message list)"
  obtain tok c' w' where run: "RegisterRoutes demo_app demo_draws (\<lambda>c w. Done (id c) w)
      (demo_get ''POST'' ''/api/v1/messages'' tok ''hi'') demo_world = Done c' w'"
    and stored: "mw_db w' = log_append demo_tables (MessageService.demo_message 1)" using demo_post by blast
  define c where "c = demo_get ''POST'' ''/api/v1/messages'' tok ''hi''"
  define s where "s = s0\<lparr>nd_server := (nd_server s0)\<lparr>sv_world := w'\<rparr>\<rparr>"
  have "sv_world (nd_server s0) = demo_world" "rq_method c = ''POST''" by (simp_all add: s0_def new_node_def c_def demo_get_def)
  then have "main_engine demo_app demo_draws (ne_upgrade demo_env) (ne_serveFile demo_env) id (ne_manager demo_env) c (nd_server s0) =
      Done c' ((nd_server s0)\<lparr>sv_world := w'\<rparr>)"
    using run [folded c_def] by (simp add: main_engine_def)
  then have "node_step demo_env s0 (presented demo_app demo_draws c) s"
    using node_request [of demo_env demo_draws c s0 c'] by (simp add: demo_env_def s_def)
  from node_more [OF node_start this] have reach: "node_reach demo_env s0 (presented demo_app demo_draws c) s" by simp
  have msgs: "t_messages (mw_db (sv_world (nd_server s))) = [MessageService.demo_message 1]"
    using stored by (simp add: s_def log_append_def demo_tables_def)
  from node_authenticity [OF demo_node.node_environment_axioms _ _ _ reach [unfolded s0_def]] msgs reach show ?thesis unfolding s0_def
    by (intro exI [of _ "presented demo_app demo_draws c"] exI [of _ s] exI [of _ "MessageService.demo_message 1"])
      (simp add: demo_world_def demo_tables_def demo_env_def MessageService.demo_message_def)
qed

end
