(* ===== verification/Delivery.thy ===== *)
theory Delivery
  imports Node
begin

text \<open>
  What reaches the clients of a node: the messages published on Redis and the payloads queued on the websocket connections, in every state of the
  step relation of the theory \<open>Node\<close>.  A message can be published although its insert into the database failed, so this does not follow
  from what is known of the stored messages.
\<close>

section \<open>Queues of the connections\<close>

definition queues_ok :: "(string \<Rightarrow> string \<Rightarrow> bool) \<Rightarrow> 'r gateway \<Rightarrow> bool" where
  "queues_ok P g \<longleftrightarrow> (\<forall>c \<in> set (gw_heap g). \<forall>data \<in> set (cn_Send c). P (cn_GuildID c) data)"

lemma queues_ok_mono: "queues_ok P g \<Longrightarrow> (\<And>guild data. P guild data \<Longrightarrow> Q guild data) \<Longrightarrow> queues_ok Q g"
  by (auto simp: queues_ok_def)

lemma queues_ok_heap: "queues_ok P g \<Longrightarrow> gw_heap g' = gw_heap g \<Longrightarrow> queues_ok P g'"
  by (simp add: queues_ok_def)

lemma queues_ok_upd:
  assumes "queues_ok P g" and "cn_GuildID (f (gw_heap g ! i)) = cn_GuildID (gw_heap g ! i)"
    and "\<And>data. i < length (gw_heap g) \<Longrightarrow> data \<in> set (cn_Send (f (gw_heap g ! i))) \<Longrightarrow>
      data \<in> set (cn_Send (gw_heap g ! i)) \<or> P (cn_GuildID (gw_heap g ! i)) data"
  shows "queues_ok P (upd_conn i f g)"
proof (cases "i < length (gw_heap g)")
  case True
  then have "gw_heap g ! i \<in> set (gw_heap g)" by simp
  then show ?thesis using assms True set_update_subset_insert [of "gw_heap g" i "f (gw_heap g ! i)"]
    by (fastforce simp: queues_ok_def upd_conn_def)
next
  case False
  then show ?thesis using assms(1) by (simp add: queues_ok_def upd_conn_def list_update_beyond)
qed

lemma queues_ok_close: "queues_ok P g \<Longrightarrow> queues_ok P (close_conn cfg i g)"
  unfolding close_conn_def by (rule queues_ok_upd) auto

lemma queues_ok_fold: "(\<And>x g. queues_ok P g \<Longrightarrow> queues_ok P (f x g)) \<Longrightarrow> queues_ok P g \<Longrightarrow> queues_ok P (fold f xs g)"
  by (induction xs arbitrary: g) simp_all

lemma queues_ok_Remove:
  assumes "queues_ok P g"
  shows "queues_ok P (snd (RemoveConnection cfg t u g))"
proof (cases "map_of (gw_conns g) u")
  case None
  then show ?thesis using assms by (simp add: RemoveConnection_def)
next
  case (Some i)
  show ?thesis by (rule queues_ok_heap [OF queues_ok_close [OF assms, of cfg i]])
    (simp add: RemoveConnection_def Some Let_def split: prod.split option.split)
qed

lemma queues_ok_Add:
  assumes "queues_ok P g"
  shows "queues_ok P (snd (AddConnection cfg t now u guild g))"
proof -
  have "queues_ok P (case map_of (gw_conns g) u of None \<Rightarrow> g | Some i \<Rightarrow> close_conn cfg i g)"
    using assms by (simp add: queues_ok_close split: option.split)
  then show ?thesis by (simp add: AddConnection_def Let_def queues_ok_def NewConnection_def)
qed

lemma WriteMessage_queue:
  "cn_GuildID (snd (WriteMessage sock mt data c)) = cn_GuildID c" "cn_Send (snd (WriteMessage sock mt data c)) = cn_Send c"
  by (simp_all add: WriteMessage_def split: option.split)

lemma queues_ok_Write: "queues_ok P g \<Longrightarrow> queues_ok P (snd (write_turn cfg i ev g))"
  by (cases ev) (auto simp: write_turn_def case_prod_beta WriteMessage_queue split: list.split intro!: queues_ok_upd)

lemma house_step_queues: "house_step cfg g g' \<Longrightarrow> queues_ok P g \<Longrightarrow> queues_ok P g'"
proof (induction rule: house_step.induct)
  case (house_disconnect i g t)
  have "queues_ok P (close_conn cfg i (snd (RemoveConnection cfg t (cn_UserID (gw_heap g ! i)) g)))"
    by (rule queues_ok_close [OF queues_ok_Remove [OF house_disconnect.prems]])
  then show ?case by (rule queues_ok_heap) (simp add: handleDisconnect_def Let_def split: prod.split sum.split)
next
  case (house_heartbeats g t now timeout)
  have "queues_ok P (remove_users cfg t (dead_users now timeout g) g)"
    unfolding remove_users_def by (rule queues_ok_fold [OF queues_ok_Remove house_heartbeats.prems])
  then show ?case by (rule queues_ok_heap) (simp add: checkHeartbeats_def)
next
  case (house_shutdown g)
  have "queues_ok P (fold (close_conn cfg) (map snd (gw_conns g)) (g\<lparr>gw_cancelled := True\<rparr>))"
    by (rule queues_ok_fold [OF queues_ok_close]) (use house_shutdown.prems in \<open>simp_all add: queues_ok_def\<close>)
  then show ?case by (rule queues_ok_heap) (simp add: manager_Shutdown_def)
qed (auto intro: queues_ok_Remove queues_ok_Write intro!: queues_ok_upd simp: UpdateHeartbeat_def)

lemma rpc_gateway_queues:
  assumes "queues_ok P g" and "PushMessage cfg marshal u m g = (r, g') \<or> BroadcastToGuild cfg marshal guild m exclude g = (r', g')"
  shows "queues_ok P g'"
proof -
  have one: "queues_ok P (snd (write_conn cfg d i g))" if "queues_ok P g" for d i and g :: "'a gateway"
    using that by (auto simp: write_conn_def WriteMessage_queue intro!: queues_ok_upd)
  have loop: "queues_ok P (snd (broadcast_loop cfg exclude d is n failed g))" if "queues_ok P g" for d "is" n failed and g :: "'a gateway"
    using that
  proof (induction "is" arbitrary: n failed g)
    case (Cons i "is")
    then show ?case using one [OF Cons.prems, of d i] by (auto split: prod.split option.split)
  qed simp
  from assms(2) show ?thesis
  proof
    assume "PushMessage cfg marshal u m g = (r, g')"
    then have "g' = g \<or> (\<exists>i d. g' = snd (write_conn cfg d i g))"
      by (auto simp: PushMessage_def split: if_splits option.splits sum.splits prod.splits) (metis snd_conv)+
    then show ?thesis using one [OF assms(1)] assms(1) by blast
  next
    assume "BroadcastToGuild cfg marshal guild m exclude g = (r', g')"
    then have "g' = g \<or> (\<exists>d. g' = snd (broadcast_loop cfg exclude d (GetConnectionsByGuild guild g) 0 [] g))"
      by (auto simp: BroadcastToGuild_def Let_def split: if_splits option.splits sum.splits prod.splits) (metis snd_conv)+
    then show ?thesis using loop [OF assms(1)] assms(1) by blast
  qed
qed

lemma sendError_queues:
  assumes "sendError marshal now i msg g = Returns g'" and "queues_ok P g"
    and "\<And>data guild. marshal (empty_ws\<lparr>w_Type := MessageType_SYSTEM, w_Content := msg, w_Timestamp := now div 10 ^ 9\<rparr>) = Inr data \<Longrightarrow> P guild data"
  shows "queues_ok P g'"
  using assms by (auto simp: sendError_def try_send_def Let_def split: sum.splits if_splits outcome.splits prod.splits intro!: queues_ok_upd)

lemma downstream_queues:
  assumes "handleDownstreamMessage unmarshal marshal payload g = Returns (e, g')" and "queues_ok P g" and "gw_inv g"
    and "\<And>m data. unmarshal payload = (None, m) \<Longrightarrow> marshal m = Inr data \<Longrightarrow> P (w_GuildId m) data"
  shows "queues_ok P g'"
proof (cases "\<exists>m data. unmarshal payload = (None, m) \<and> marshal m = Inr data")
  case True
  then obtain m data where m: "unmarshal payload = (None, m)" "marshal m = Inr data" by blast
  from handleDownstreamMessage_delivers [of g unmarshal payload m marshal data, OF assms(3) m] assms(1)
  have heap: "length (gw_heap g') = length (gw_heap g)" "\<forall>j < length (gw_heap g). gw_heap g' ! j =
       (if GetConnection (cn_UserID (gw_heap g ! j)) g = Some j \<and> cn_GuildID (gw_heap g ! j) = w_GuildId m
        then delivered data (gw_heap g ! j) else gw_heap g ! j)" by auto
  have "P (cn_GuildID (gw_heap g' ! j)) x" if "j < length (gw_heap g)" "x \<in> set (cn_Send (gw_heap g' ! j))" for j x
  proof -
    have old: "P (cn_GuildID (gw_heap g ! j)) y" if "y \<in> set (cn_Send (gw_heap g ! j))" for y
      using assms(2) that nth_mem [OF \<open>j < length (gw_heap g)\<close>] by (simp add: queues_ok_def)
    show ?thesis using heap(2) that old assms(4) [OF m] by (auto simp: delivered_def split: if_splits)
  qed
  then show ?thesis using heap(1) by (metis queues_ok_def in_set_conv_nth)
next
  case False
  then have "g' = g" using assms(1)
    by (auto simp: handleDownstreamMessage_def Let_def split: prod.splits option.splits if_splits sum.splits)
  then show ?thesis using assms(2) by simp
qed

section \<open>What is published\<close>

context message_store
begin

text \<open>A call of \<^verbatim>\<open>SendMessage\<close> publishes at most once, on the channel of its guild, for a member and with admissible content, also when it fails.\<close>

lemma SendMessage_publishes:
  assumes "SendMessage db exec marshal clock t created stamp u g content w = Some (res, w')"
    and "message_inv (view (mw_db w)) (store (mw_redis w))"
  shows "messages (store (mw_redis w')) = messages (store (mw_redis w)) \<or>
    (\<exists>m un data. messages (store (mw_redis w')) = messages (store (mw_redis w)) @ [(guild_channel g, data)] \<and>
       marshal (pb_message m stamp un) = Inr data \<and> m_UserID m = u \<and> m_GuildID m = g \<and> m_Content m = content \<and>
       member_of (view (mw_db w)) g u \<and> 0 < length content \<and> length content \<le> 2000)"
proof (cases "\<exists>d1 i gen' k' q s1. 0 < length content \<and> length content \<le> 2000 \<and> IsMember db t u g (mw_db w) = (Inr True, d1) \<and>
      NextID clock (mw_tick w) (mw_gen w) = Some (Inr i, gen', k') \<and> GenerateSeqID exec t g (mw_redis w) = (Inr q, s1)")
  case True
  then obtain d1 i gen' k' q s1 where ok: "0 < length content" "length content \<le> 2000"
      and m: "IsMember db t u g (mw_db w) = (Inr True, d1)"
      and n: "NextID clock (mw_tick w) (mw_gen w) = Some (Inr i, gen', k')"
      and q: "GenerateSeqID exec t g (mw_redis w) = (Inr q, s1)" by blast
  have "member_of (view (mw_db w)) g u" using IsMember_set(2) [OF m, of True] by simp
  then show ?thesis using SendMessage_drawn [OF assms ok m n q] ok GenerateSeqID_messages [OF q]
    by (fastforce simp: Let_def published_def)
next
  case False
  have "mw_redis w' = mw_redis w \<or> (\<exists>y. GenerateSeqID exec t g (mw_redis w) = (y, mw_redis w'))"
    using assms(1) False by (auto simp: SendMessage_def split: if_splits prod.splits sum.splits option.splits)
  then show ?thesis using GenerateSeqID_messages by auto
qed

end

section \<open>What reaches the clients\<close>

text \<open>A chat message of a guild: its author is known and a member, its content has a valid length.  A notice is an error message of the gateway
  itself; it has no author.\<close>

definition genuine :: "('d, 's, 'k) node_env \<Rightarrow> origin set \<Rightarrow> tables \<Rightarrow> string \<Rightarrow> string \<Rightarrow> bool" where
  "genuine env os d guild data \<longleftrightarrow> (\<exists>m. ne_unmarshal env data = (None, m) \<and> w_GuildId m = guild \<and> w_Type m = MessageType_TEXT \<and>
     (TokenOf (w_UserId m) \<in> os \<or> GrpcFor (w_UserId m) \<in> os) \<and> member_of d guild (w_UserId m) \<and>
     0 < length (w_Content m) \<and> length (w_Content m) \<le> 2000)"

definition notice :: "('d, 's, 'k) node_env \<Rightarrow> string \<Rightarrow> bool" where
  "notice env data \<longleftrightarrow> (\<exists>m. ne_unmarshal env data = (None, m) \<and> w_Type m = MessageType_SYSTEM \<and> w_UserId m = [])"

definition published_ok :: "('d, 's, 'k) node_env \<Rightarrow> origin set \<Rightarrow> tables \<Rightarrow> rstate \<Rightarrow> bool" where
  "published_ok env os d r \<longleftrightarrow> (\<forall>(channel, data) \<in> set (messages r). \<exists>guild. channel = guild_channel guild \<and> genuine env os d guild data)"

abbreviation queued_ok :: "('d, 's, 'k) node_env \<Rightarrow> origin set \<Rightarrow> tables \<Rightarrow> 's gateway \<Rightarrow> bool" where
  "queued_ok env os d \<equiv> queues_ok (\<lambda>guild data. genuine env os d guild data \<or> notice env data)"

abbreviation tables_of :: "('d \<Rightarrow> tables) \<Rightarrow> ('d, 's, 'k) node \<Rightarrow> tables" where
  "tables_of view s \<equiv> view (mw_db (sv_world (nd_server s)))"

abbreviation redis_of :: "('s \<Rightarrow> rstate) \<Rightarrow> ('d, 's, 'k) node \<Rightarrow> rstate" where
  "redis_of store s \<equiv> store (mw_redis (sv_world (nd_server s)))"

definition delivery_inv :: "('d, 's, 'k) node_env \<Rightarrow> ('d \<Rightarrow> tables) \<Rightarrow> ('s \<Rightarrow> rstate) \<Rightarrow> origin set \<Rightarrow> ('d, 's, 'k) node \<Rightarrow> bool" where
  "delivery_inv env view store os s \<longleftrightarrow>
     published_ok env os (tables_of view s) (redis_of store s) \<and> queued_ok env os (tables_of view s) (sv_gateway (nd_server s))"

lemma genuine_mono:
  "genuine env os d guild data \<Longrightarrow> os \<subseteq> os' \<Longrightarrow> set (t_members d) \<subseteq> set (t_members d') \<Longrightarrow> genuine env os' d' guild data"
  by (fastforce simp: genuine_def member_of_def)

lemma published_ok_mono:
  assumes "published_ok env os d r" and "os \<subseteq> os'" and "set (t_members d) \<subseteq> set (t_members d')" and "messages r' = messages r"
  shows "published_ok env os' d' r'"
  using assms genuine_mono [OF _ assms(2,3)] by (fastforce simp: published_ok_def)

lemma queued_ok_mono: "queued_ok env os d g \<Longrightarrow> os \<subseteq> os' \<Longrightarrow> set (t_members d) \<subseteq> set (t_members d') \<Longrightarrow> queued_ok env os' d' g"
  by (erule queues_ok_mono) (auto intro: genuine_mono)

context node_environment
begin

text \<open>A step that changes the world only: it keeps the memberships and publishes nothing or one genuine message.\<close>

definition world_publishes :: "origin set \<Rightarrow> ('d, 's) msg_world \<Rightarrow> ('d, 's) msg_world \<Rightarrow> bool" where
  "world_publishes os w w' \<longleftrightarrow> set (t_members (view (mw_db w))) \<subseteq> set (t_members (view (mw_db w'))) \<and>
     (messages (store (mw_redis w')) = messages (store (mw_redis w)) \<or>
      (\<exists>guild data. messages (store (mw_redis w')) = messages (store (mw_redis w)) @ [(guild_channel guild, data)] \<and>
         genuine env os (view (mw_db w')) guild data))"

lemma send_publishes:
  assumes "SendMessage (a_db (ne_app env)) (a_exec (ne_app env)) (a_marshal (ne_app env)) clock t created stamp u g content w = Some (res, w')"
    and "world_ok view store os0 w" and "TokenOf u \<in> os \<or> GrpcFor u \<in> os"
  shows "world_publishes os w w'"
proof -
  have inv: "message_inv (view (mw_db w)) (store (mw_redis w))" using assms(2) by (simp add: world_ok_def tables_ok_def)
  have mem: "t_members (view (mw_db w')) = t_members (view (mw_db w))"
    using SendMessage_stored [OF assms(1) inv] by (auto simp: log_append_def)
  have new: "genuine env os (view (mw_db w')) g data" if "a_marshal (ne_app env) (pb_message m stamp un) = Inr data" "m_UserID m = u" "m_GuildID m = g"
      "m_Content m = content" "member_of (view (mw_db w)) g u" "0 < length content" "length content \<le> 2000" for m un data
    using unmarshal_marshal [OF that(1)] that(2-) assms(3) mem by (simp add: genuine_def pb_message_def member_of_def)
  from SendMessage_publishes [OF assms(1) inv] show ?thesis
  proof (elim disjE exE conjE)
    fix m un data assume data: "messages (store (mw_redis w')) = messages (store (mw_redis w)) @ [(guild_channel g, data)]"
      "a_marshal (ne_app env) (pb_message m stamp un) = Inr data" "m_UserID m = u" "m_GuildID m = g" "m_Content m = content"
      "member_of (view (mw_db w)) g u" "0 < length content" "length content \<le> 2000"
    from new [OF this(2-)] data(1) mem show ?thesis by (auto simp: world_publishes_def)
  qed (use mem in \<open>simp add: world_publishes_def\<close>)
qed

lemma routes_publish:
  assumes "RegisterRoutes (ne_app env) dr (\<lambda>c w. Done (f c) w) c w = Done c' w'" and "world_ok view store os0 w"
    and "set (presented (ne_app env) dr c) \<subseteq> os"
  shows "world_publishes os w w'"
proof -
  have inv: "message_inv (view (mw_db w)) (store (mw_redis w))" using assms(2) by (simp add: world_ok_def tables_ok_def)
  note mem = RegisterRoutes_members [OF assms(1) refl refl inv]
  from RegisterRoutes_runs [OF assms(1)] show ?thesis
  proof (elim disjE exE conjE)
    fix h c1 assume "h \<in> other_handlers (ne_app env) dr" "h c1 w = Done c' w'"
    from other_handlers_effect [OF this refl] mem show ?thesis by (simp add: world_publishes_def)
  next
    fix cl c2 assume cl: "ParseToken (a_parse (ne_app env)) (a_tm (ne_app env)) (dr_now dr) (request_token c) = Inr cl"
      "GetString_user_id c2 = c_UserID cl" "handler_SendMessage (ne_app env) dr c2 w = Done c' w'"
    have "TokenOf (c_UserID cl) \<in> os" using cl(1) assms(3) by (auto simp: presented_def)
    then have send: "world_publishes os w w'" if "SendMessage (a_db (ne_app env)) (a_exec (ne_app env)) (a_marshal (ne_app env)) (a_clock (ne_app env))
        (dr_t dr) (dr_created dr) (dr_stamp dr) (GetString_user_id c2) g content w = Some (res, w')" for g content res
      using send_publishes [OF that assms(2)] cl(2) by simp
    have "world_publishes os w w" by (simp add: world_publishes_def)
    then show ?thesis using handler_SendMessage_runs [OF cl(3) refl refl] send by blast
  qed (use mem in \<open>simp add: world_publishes_def\<close>)
qed

lemma delivery_world:
  assumes "delivery_inv env view store os s" and "os \<subseteq> os'" and "world_publishes os' (sv_world (nd_server s)) w"
  shows "delivery_inv env view store os' (set_world w s)"
proof -
  have mem: "set (t_members (tables_of view s)) \<subseteq> set (t_members (view (mw_db w)))" using assms(3) by (simp add: world_publishes_def)
  have "published_ok env os' (view (mw_db w)) (redis_of store s)"
    using assms(1) by (auto simp: delivery_inv_def intro: published_ok_mono [OF _ assms(2) mem])
  then have "published_ok env os' (view (mw_db w)) (store (mw_redis w))"
    using assms(3) by (auto simp: world_publishes_def published_ok_def)
  moreover have "queued_ok env os' (view (mw_db w)) (sv_gateway (nd_server s))"
    by (rule queued_ok_mono [OF _ assms(2) mem]) (use assms(1) in \<open>simp add: delivery_inv_def\<close>)
  ultimately show ?thesis by (simp add: delivery_inv_def set_world_def)
qed

text \<open>A step of the gateway only: it publishes nothing, and what it queues is genuine or a notice.\<close>

lemma delivery_gateway:
  assumes "delivery_inv env view store os s" and "os \<subseteq> os'" and "keeps_counters (redis_of store s) (store (gw_redis g))"
    and "queued_ok env os' (tables_of view s) g"
  shows "delivery_inv env view store os' (set_gateway g s)"
  using assms published_ok_mono [OF _ assms(2) subset_refl, of env "tables_of view s" "redis_of store s" "store (gw_redis g)"]
  by (simp add: delivery_inv_def set_gateway_def put_gateway_def keeps_counters_def)

lemma delivery_frame:
  assumes "delivery_inv env view store os s" and "gate_frame store (gateway_of (nd_server s)) g" and "queued_ok env os (tables_of view s) g"
  shows "delivery_inv env view store os (set_gateway g s)"
  by (rule delivery_gateway [OF assms(1) subset_refl _ assms(3)]) (use assms(2) in \<open>simp add: gate_frame_def gateway_of_def\<close>)

lemma queued_gateway_of: "delivery_inv env view store os s \<Longrightarrow> queued_ok env os (tables_of view s) (gateway_of (nd_server s))"
  by (simp add: delivery_inv_def gateway_of_def queues_ok_def)

end

section \<open>Every step keeps it\<close>

context node_environment
begin

lemma delivery_request:
  assumes "main_engine (ne_app env) dr upgrade serveFile no_route (ne_manager env) c (nd_server s) = Done c' sv'"
    and "node_inv env view store os s" and "delivery_inv env view store os s" and "os \<subseteq> os'" and "set (presented (ne_app env) dr c) \<subseteq> os'"
  shows "delivery_inv env view store os' (s\<lparr>nd_server := sv'\<rparr>)"
proof -
  have world: "world_ok view store os (sv_world (nd_server s))" and gate: "gate_ok os (nd_server s)"
    using assms(2) by (simp_all add: node_inv_def)
  have same: "world_publishes os' (sv_world (nd_server s)) (sv_world (nd_server s))" by (simp add: world_publishes_def)
  from assms(1) show ?thesis
  proof (cases rule: main_engine_cases)
    case static
    then show ?thesis using delivery_world [OF assms(3,4) same] by (simp add: set_world_def)
  next
    case (ws g oi c1)
    have "g = gateway_of (nd_server s) \<or> (\<exists>t u guild. g = snd (AddConnection (ne_manager env) t (dr_now dr) u guild (gateway_of (nd_server s))))"
      using ws(1) by (auto simp: ws_route_def Let_def split: if_splits sum.splits option.splits prod.splits) (metis snd_conv)
    moreover have "queued_ok env os' (tables_of view s) (gateway_of (nd_server s))"
      by (rule queued_ok_mono [OF queued_gateway_of [OF assms(3)] assms(4) subset_refl])
    ultimately have "queued_ok env os' (tables_of view s) g" by (auto intro: queues_ok_Add)
    from delivery_gateway [OF assms(3,4) _ this] server_ok_ws [OF ws(1) gate assms(4,5)]
    have "delivery_inv env view store os' (set_gateway g s)" by blast
    then show ?thesis unfolding ws(2)
      by (cases oi) (simp_all add: delivery_inv_def set_gateway_def HandleConnection_def)
  next
    case (api w)
    from delivery_world [OF assms(3,4) routes_publish [OF api(1) world assms(5)]] api(2) show ?thesis by (simp add: set_world_def)
  qed
qed

lemma delivery_consume:
  assumes "node_inv env view store os s" and "delivery_inv env view store os s" and "delivers env (nd_kafka s) msg"
    and "consumerHandler (ne_unmarshal env) (a_db (ne_app env)) (a_exec (ne_app env)) (a_marshal (ne_app env)) clock t created stamp msg
      (sv_world (nd_server s)) = Some (e, w)"
  shows "delivery_inv env view store os (set_world w s)"
proof -
  obtain m where m: "ne_unmarshal env (cm_Value msg) = (None, m)" "TokenOf (w_UserId m) \<in> os"
    using assms(1,3) by (auto simp: delivers_def node_inv_def log_ok_def record_ok_def)
  from assms(4) m(1) obtain res where
    "SendMessage (a_db (ne_app env)) (a_exec (ne_app env)) (a_marshal (ne_app env)) clock t created stamp
      (w_UserId m) (w_GuildId m) (w_Content m) (sv_world (nd_server s)) = Some (res, w)"
    by (auto simp: consumerHandler_def split: option.splits sum.splits)
  from send_publishes [OF this] m(2) assms(1) show ?thesis
    by (intro delivery_world [OF assms(2) subset_refl]) (auto simp: node_inv_def)
qed

lemma delivery_rpc_send:
  assumes "node_inv env view store os s" and "delivery_inv env view store os s"
    and "rpc_SendMessage (a_db (ne_app env)) (a_exec (ne_app env)) (a_marshal (ne_app env)) clock t created stamp u g content
      (sv_world (nd_server s)) = Some (r, w)"
  shows "delivery_inv env view store (insert (GrpcFor u) os) (set_world w s)"
proof (rule delivery_world [OF assms(2)])
  have "w = sv_world (nd_server s) \<or> (\<exists>res. SendMessage (a_db (ne_app env)) (a_exec (ne_app env)) (a_marshal (ne_app env)) clock
      t created stamp u g content (sv_world (nd_server s)) = Some (res, w))"
    using assms(3) by (auto simp: rpc_SendMessage_def split: if_splits option.splits sum.splits)
  then show "world_publishes (insert (GrpcFor u) os) (sv_world (nd_server s)) w"
  proof (elim disjE exE)
    fix res assume "SendMessage (a_db (ne_app env)) (a_exec (ne_app env)) (a_marshal (ne_app env)) clock
      t created stamp u g content (sv_world (nd_server s)) = Some (res, w)"
    from send_publishes [OF this] show ?thesis using assms(1) by (auto simp: node_inv_def)
  qed (simp add: world_publishes_def)
qed blast

lemma delivery_step:
  assumes "node_step env s new s'" and "node_inv env view store os s" and "delivery_inv env view store os s"
  shows "delivery_inv env view store (os \<union> set new) s'"
  using assms
proof (induction rule: node_step.induct)
  case (node_request dr c s c' sv)
  show ?case by (rule delivery_request [OF node_request.hyps node_request.prems]) auto
next
  case (node_gateway s g)
  from delivery_frame [OF node_gateway.prems(2) house_step_frame [OF node_gateway.hyps one_redis]
      house_step_queues [OF node_gateway.hyps queued_gateway_of [OF node_gateway.prems(2)]]] show ?case by simp
next
  case (node_downstream channel payload s e g)
  obtain guild where gen: "genuine env os (tables_of view s) guild payload"
    using node_downstream.hyps(1) node_downstream.prems(2) by (auto simp: pubsub delivery_inv_def published_ok_def)
  have "queued_ok env os (tables_of view s) g"
  proof (rule downstream_queues [OF node_downstream.hyps(2) queued_gateway_of [OF node_downstream.prems(2)] gateway_of_inv [OF node_downstream.prems(1)]])
    fix m data assume "ne_unmarshal env payload = (None, m)" "a_marshal (ne_app env) m = Inr data"
    then show "genuine env os (tables_of view s) (w_GuildId m) data \<or> notice env data"
      using gen unmarshal_marshal [of m data] by (auto simp: genuine_def)
  qed
  from delivery_frame [OF node_downstream.prems(2) handleDownstreamMessage_frame [OF node_downstream.hyps(2)] this] show ?case by simp
next
  case (node_error i s now msg g)
  have "queued_ok env os (tables_of view s) g"
  proof (rule sendError_queues [OF node_error.hyps(2) queued_gateway_of [OF node_error.prems(2)]])
    fix data guild
    assume "a_marshal (ne_app env) (empty_ws\<lparr>w_Type := MessageType_SYSTEM, w_Content := msg, w_Timestamp := now div 10 ^ 9\<rparr>) = Inr data"
    from unmarshal_marshal [OF this] show "genuine env os (tables_of view s) guild data \<or> notice env data"
      by (simp add: notice_def empty_ws_def)
  qed
  from delivery_frame [OF node_error.prems(2) sendError_frame [OF node_error.hyps(2)] this] show ?case by simp
next
  case (node_consume s msg t created stamp e w)
  from delivery_consume [OF node_consume.prems node_consume.hyps] show ?case by simp
next
  case (node_rpc_send t created stamp u g content s r w)
  from delivery_rpc_send [OF node_rpc_send.prems node_rpc_send.hyps] show ?case by simp
next
  case (node_rpc_push u m s r g)
  note inv = gateway_of_inv [OF node_rpc_push.prems(1)]
  from delivery_frame [OF node_rpc_push.prems(2) conjunct2 [OF rpc_gateway_keeps [OF inv disjI1 [OF node_rpc_push.hyps]]]
      rpc_gateway_queues [OF queued_gateway_of [OF node_rpc_push.prems(2)] disjI1 [OF node_rpc_push.hyps]]] show ?case by simp
next
  case (node_rpc_broadcast guild m exclude s r g)
  note inv = gateway_of_inv [OF node_rpc_broadcast.prems(1)]
  from delivery_frame [OF node_rpc_broadcast.prems(2) conjunct2 [OF rpc_gateway_keeps [OF inv disjI2 [OF node_rpc_broadcast.hyps]]]
      rpc_gateway_queues [OF queued_gateway_of [OF node_rpc_broadcast.prems(2)] disjI2 [OF node_rpc_broadcast.hyps]]] show ?case by simp
qed (simp_all add: delivery_inv_def)

lemma delivery_reach:
  assumes "node_reach env s0 os s" and "node_inv env view store {} s0" and "delivery_inv env view store {} s0"
  shows "delivery_inv env view store (set os) s"
  using assms
proof (induction rule: node_reach.induct)
  case (node_more os s new s')
  show ?case using delivery_step [OF node_more.hyps(2) node_reach_inv [OF node_more.hyps(1) node_more.prems(1)] node_more.IH [OF node_more.prems]] by simp
qed simp

end

section \<open>Property\<close>

text \<open>C3. What clients are sent: in every state a node can reach from an empty database, topic and Redis, by the same steps and for any failures, each message on
  the pub/sub channels is on the channel of its own guild and was sent for a user whose token was presented or for whom a gRPC caller spoke, a member of
  that guild, with 1 to 2000 bytes; and each payload queued on a websocket connection is such a message of the guild the connection was
  opened for, or an error notice of the gateway without an author.\<close>

theorem node_delivery:
  assumes "node_environment env view store"
    and "t_messages (view (mw_db w)) = []" and "seq_inv (store (mw_redis w))" and "messages (store (mw_redis w)) = []" and "ne_log env k = []"
    and "node_reach env (new_node w k) os s"
  shows "(\<forall>(channel, data) \<in> set (messages (store (mw_redis (sv_world (nd_server s))))). \<exists>m. ne_unmarshal env data = (None, m) \<and>
      channel = guild_channel (w_GuildId m) \<and> (TokenOf (w_UserId m) \<in> set os \<or> GrpcFor (w_UserId m) \<in> set os) \<and>
      member_of (view (mw_db (sv_world (nd_server s)))) (w_GuildId m) (w_UserId m) \<and> 0 < length (w_Content m) \<and> length (w_Content m) \<le> 2000) \<and>
    (\<forall>c \<in> set (gw_heap (sv_gateway (nd_server s))). \<forall>data \<in> set (cn_Send c). \<exists>m. ne_unmarshal env data = (None, m) \<and>
      (w_Type m = MessageType_SYSTEM \<and> w_UserId m = [] \<or>
       w_Type m = MessageType_TEXT \<and> w_GuildId m = cn_GuildID c \<and> (TokenOf (w_UserId m) \<in> set os \<or> GrpcFor (w_UserId m) \<in> set os) \<and>
       member_of (view (mw_db (sv_world (nd_server s)))) (cn_GuildID c) (w_UserId m) \<and> 0 < length (w_Content m) \<and> length (w_Content m) \<le> 2000))"
proof -
  have "node_inv env view store {} (new_node w k)" by (rule new_node_inv [of view w store env k, OF assms(2,3,5)])
  moreover have "delivery_inv env view store {} (new_node w k)"
    using assms(4) by (simp add: delivery_inv_def new_node_def published_ok_def queues_ok_def NewConnectionManager_def)
  ultimately have "delivery_inv env view store (set os) s" by (rule node_environment.delivery_reach [OF assms(1,6)])
  then have pub: "published_ok env (set os) (tables_of view s) (redis_of store s)"
    and queued: "queued_ok env (set os) (tables_of view s) (sv_gateway (nd_server s))" by (simp_all add: delivery_inv_def)
  show ?thesis
  proof (intro conjI ballI)
    fix x assume "x \<in> set (messages (store (mw_redis (sv_world (nd_server s)))))"
    with pub show "case x of (channel, data) \<Rightarrow> \<exists>m. ne_unmarshal env data = (None, m) \<and>
      channel = guild_channel (w_GuildId m) \<and> (TokenOf (w_UserId m) \<in> set os \<or> GrpcFor (w_UserId m) \<in> set os) \<and>
      member_of (view (mw_db (sv_world (nd_server s)))) (w_GuildId m) (w_UserId m) \<and> 0 < length (w_Content m) \<and> length (w_Content m) \<le> 2000"
      unfolding published_ok_def genuine_def by (cases x) fastforce
  next
    fix c data assume "c \<in> set (gw_heap (sv_gateway (nd_server s)))" "data \<in> set (cn_Send c)"
    with queued show "\<exists>m. ne_unmarshal env data = (None, m) \<and>
      (w_Type m = MessageType_SYSTEM \<and> w_UserId m = [] \<or>
       w_Type m = MessageType_TEXT \<and> w_GuildId m = cn_GuildID c \<and> (TokenOf (w_UserId m) \<in> set os \<or> GrpcFor (w_UserId m) \<in> set os) \<and>
       member_of (view (mw_db (sv_world (nd_server s)))) (cn_GuildID c) (w_UserId m) \<and> 0 < length (w_Content m) \<and> length (w_Content m) \<le> 2000)"
      unfolding queues_ok_def genuine_def notice_def by blast
  qed
qed

section \<open>Example\<close>

text \<open>A gRPC caller sends a message for a user, the user opens a websocket for the guild, and the gateway takes the published message.\<close>

definition demo_ws :: "string \<Rightarrow> gin_context" where
  "demo_ws tok = (demo_get ''GET'' ''/ws'' [] [])\<lparr>rq_query := [(''token'', tok), (''guild_id'', ''g-1'')]\<rparr>"

lemma demo_ws_opens:
  "\<exists>tok. (\<forall>sv :: (tables, rstate) server. sv_gateway sv = NewConnectionManager r \<longrightarrow>
     main_engine demo_app demo_draws (ne_upgrade demo_env) (ne_serveFile demo_env) id (ne_manager demo_env) (demo_ws tok) sv =
       Done (demo_ws tok) (HandleConnection 0 (put_gateway (snd (AddConnection (ne_manager demo_env) 7 1 ''id-1'' ''g-1'' (gateway_of sv))) sv)))"
proof -
  obtain tok where tok: "GenerateToken demo_sign demo_tm 0 ''id-1'' ''ann'' ''a@x'' = Inr tok" "tok \<noteq> []"
    by (simp add: GenerateToken_def demo_sign_def demo_tm_def)
  have parsed: "ParseToken demo_parse demo_tm 1 tok = Inr (token_claims demo_tm 0 ''id-1'' ''ann'' ''a@x'')"
    using demo_jwt.ParseToken_generated [OF tok(1), of 1] by (simp add: valid_utf8_ascii NewNumericDate_def demo_tm_def)
  show ?thesis
  proof (intro exI [of _ tok] allI impI)
    fix sv :: "(tables, rstate) server" assume "sv_gateway sv = NewConnectionManager r"
    then obtain g where "AddConnection (ne_manager demo_env) 7 1 ''id-1'' ''g-1'' (gateway_of sv) = (0, g)"
      by (simp add: AddConnection_def Let_def gateway_of_def NewConnectionManager_def)
    then show "main_engine demo_app demo_draws (ne_upgrade demo_env) (ne_serveFile demo_env) id (ne_manager demo_env) (demo_ws tok) sv =
        Done (demo_ws tok) (HandleConnection 0 (put_gateway (snd (AddConnection (ne_manager demo_env) 7 1 ''id-1'' ''g-1'' (gateway_of sv))) sv))"
      using tok(2) parsed by (simp add: main_engine_def demo_ws_def demo_get_def ws_route_def lookup_str_def Let_def demo_draws_def demo_app_def
          token_claims_def demo_env_def)
  qed
qed

lemma demo_rpc_send:
  "\<exists>w1 data m un. node_step demo_env (new_node demo_world (0, [])) [GrpcFor ''id-1''] (set_world w1 (new_node demo_world (0, []))) \<and>
     messages (mw_redis w1) = [(''guild:g-1'', data)] \<and> demo_marshal (pb_message m 8 un) = Inr data \<and> m_GuildID m = ''g-1''"
proof -
  obtain m0 w1 data where send: "SendMessage sql_step redis_run demo_marshal demo_clock 7 9 8 ''id-1'' ''g-1'' ''hi'' demo_world = Some (Inr m0, w1)"
    and msgs: "messages (mw_redis w1) = [(''guild:g-1'', data)]" using demo_SendMessage_publishes by blast
  obtain m un where data: "demo_marshal (pb_message m 8 un) = Inr data" "m_GuildID m = ''g-1''"
    using ref_store.SendMessage_publishes [OF send] demo_world_inv msgs by (auto simp: demo_world_def empty_redis_def)
  have "node_step demo_env (new_node demo_world (0, [])) [GrpcFor ''id-1''] (set_world w1 (new_node demo_world (0, [])))"
    by (rule node_rpc_send [where t = 7 and created = 9 and stamp = 8 and g = "''g-1''" and content = "''hi''"])
      (simp add: rpc_SendMessage_def demo_env_def demo_app_def send new_node_def)
  then show ?thesis using msgs data by blast
qed

lemma demo_env_simps:
  "ne_app demo_env = demo_app" "ne_unmarshal demo_env = demo_unmarshal" "ne_published demo_env = messages" "ne_no_route demo_env = id"
  "a_marshal demo_app = demo_marshal"
  by (simp_all add: demo_env_def demo_app_def)

lemma demo_delivery:
  "\<exists>os s c data m un. node_reach demo_env (new_node demo_world (0, [])) os s \<and> gw_heap (sv_gateway (nd_server s)) = [c] \<and> cn_UserID c = ''id-1'' \<and>
     cn_GuildID c = ''g-1'' \<and> cn_Send c = [data] \<and> demo_unmarshal data = (None, pb_message m 8 un) \<and> m_GuildID m = ''g-1''"
proof -
  define s0 where "s0 = new_node demo_world (0 :: nat, [] :: producer_message list)"
  obtain w1 data m un where first: "node_step demo_env s0 [GrpcFor ''id-1''] (set_world w1 s0)" and msgs: "messages (mw_redis w1) = [(''guild:g-1'', data)]"
    and data: "demo_marshal (pb_message m 8 un) = Inr data" "m_GuildID m = ''g-1''" using demo_rpc_send unfolding s0_def by blast
  define s1 where "s1 = set_world w1 s0"
  note r1 = node_more [OF node_start first, folded s1_def]
  have dec: "demo_unmarshal data = (None, pb_message m 8 un)" by (rule demo_codec.unmarshal_marshal [OF data(1)])
  obtain tok where open_ws: "\<And>sv :: (tables, rstate) server. sv_gateway sv = NewConnectionManager empty_redis \<Longrightarrow>
     main_engine demo_app demo_draws (ne_upgrade demo_env) (ne_serveFile demo_env) id (ne_manager demo_env) (demo_ws tok) sv =
       Done (demo_ws tok) (HandleConnection 0 (put_gateway (snd (AddConnection (ne_manager demo_env) 7 1 ''id-1'' ''g-1'' (gateway_of sv))) sv))"
    using demo_ws_opens [of empty_redis] by metis
  have g0: "sv_gateway (nd_server s1) = NewConnectionManager empty_redis" by (simp add: s1_def set_world_def s0_def new_node_def demo_world_def)
  define g1 where "g1 = snd (AddConnection (ne_manager demo_env) 7 1 ''id-1'' ''g-1'' (gateway_of (nd_server s1)))"
  define s2 where "s2 = s1\<lparr>nd_server := HandleConnection 0 (put_gateway g1 (nd_server s1))\<rparr>"
  have "node_step demo_env s1 (presented demo_app demo_draws (demo_ws tok)) s2"
    using node_request [of demo_env demo_draws "demo_ws tok" s1] open_ws [OF g0] by (simp add: demo_env_simps s2_def g1_def)
  note r2 = node_more [OF r1 this]
  have heap1: "gw_heap g1 = [NewConnection 1 ''id-1'' ''g-1'']" "gw_conns g1 = [(''id-1'', 0)]"
    by (simp_all add: g1_def AddConnection_heap AddConnection_conns gateway_of_def g0 NewConnectionManager_def)
  have "keeps_counters (mw_redis w1) (gw_redis g1)"
    using demo_node.AddConnection_frame(2) [of "ne_manager demo_env" 7 1 "''id-1''" "''g-1''" "gateway_of (nd_server s1)" 0 g1]
    by (simp add: g1_def demo_node.one_redis demo_env_simps AddConnection_def Let_def gateway_of_def g0 s1_def set_world_def s0_def new_node_def
        NewConnectionManager_def demo_world_def)
  then have pub: "messages (gw_redis g1) = [(''guild:g-1'', data)]" using msgs by (simp add: keeps_counters_def)
  have inv: "gw_inv g1" unfolding g1_def by (rule gw_inv_AddConnection) (simp add: gateway_of_def g0)
  obtain g2 where down: "handleDownstreamMessage demo_unmarshal demo_marshal data g1 = Returns (None, g2)"
    and heap2: "gw_heap g2 = [(NewConnection 1 ''id-1'' ''g-1'')\<lparr>cn_Send := [data]\<rparr>]"
    using handleDownstreamMessage_delivers [of g1 demo_unmarshal data "pb_message m 8 un" demo_marshal data, OF inv dec data(1)] data(2) heap1
    by (auto simp: GetConnection_def NewConnection_def delivered_def send_capacity_def pb_message_def length_Suc_conv)
  have "node_step demo_env s2 [] (set_gateway g2 s2)"
    by (rule node_downstream [where channel = "''guild:g-1''" and payload = data])
      (simp_all add: demo_env_simps down s2_def HandleConnection_def put_gateway_def gateway_of_def pub)
  from node_more [OF r2 this] show ?thesis unfolding s0_def using heap2 dec data(2)
    by (intro exI conjI) (assumption | simp add: set_gateway_def put_gateway_def NewConnection_def)+
qed

theorem node_delivery_witness:
  "\<exists>os s c data m. node_reach demo_env (new_node demo_world (0, [])) os s \<and> gw_heap (sv_gateway (nd_server s)) = [c] \<and> cn_UserID c = ''id-1'' \<and>
     cn_Send c = [data] \<and> demo_unmarshal data = (None, m) \<and> w_Type m = MessageType_TEXT \<and> w_GuildId m = ''g-1'' \<and>
     (TokenOf (w_UserId m) \<in> set os \<or> GrpcFor (w_UserId m) \<in> set os) \<and> member_of (mw_db (sv_world (nd_server s))) ''g-1'' (w_UserId m)"
proof -
  obtain os s c data m1 un where r: "node_reach demo_env (new_node demo_world (0, [])) os s" "gw_heap (sv_gateway (nd_server s)) = [c]"
      "cn_UserID c = ''id-1''" "cn_GuildID c = ''g-1''" "cn_Send c = [data]" "demo_unmarshal data = (None, pb_message m1 8 un)" "m_GuildID m1 = ''g-1''"
    using demo_delivery by blast
  have init: "t_messages (id (mw_db demo_world)) = []" "seq_inv (id (mw_redis demo_world))" "messages (id (mw_redis demo_world)) = []"
      "ne_log demo_env (0, []) = []" by (simp_all add: demo_world_def demo_tables_def empty_redis_def seq_inv_def live_def demo_env_def)
  from node_delivery [OF demo_node.node_environment_axioms init r(1)] r
  have "(TokenOf (w_UserId (pb_message m1 8 un)) \<in> set os \<or> GrpcFor (w_UserId (pb_message m1 8 un)) \<in> set os) \<and>
      member_of (mw_db (sv_world (nd_server s))) ''g-1'' (w_UserId (pb_message m1 8 un))"
    by (simp add: demo_env_simps) (auto simp: pb_message_def MessageType_TEXT_def MessageType_SYSTEM_def)
  then show ?thesis using r
    by (intro exI [of _ os] exI [of _ s] exI [of _ c] exI [of _ data] exI [of _ "pb_message m1 8 un"]) (simp add: pb_message_def)
qed

end
