(* ===== verification/Examples.thy ===== *)
theory Examples
  imports Snowflake ConsistentHash Kafka Logging
begin

text \<open>
  The example programs of the packages: \<^verbatim>\<open>utils/consistenthash/example\<close>, \<^verbatim>\<open>utils/snowflake/example\<close>, \<^verbatim>\<open>internal/pkg/kafka/example\<close> and
  \<^verbatim>\<open>middleware/log/example\<close>.  Each is a function to the lines it prints (or the log entries it writes), over the models of the packages;
  SHA-256, the clock, sarama and zap's presets are arguments as there.  \<^verbatim>\<open>log.Fatal\<close> ends an example without its deferred calls.
\<close>

section \<open>Consistent hashing\<close>

definition Example_basic :: "(string \<Rightarrow> 8 word list) \<Rightarrow> string list" where
  "Example_basic sha256 =
     (let ring = Add (New sha256 3 None) [''node1'', ''node2'', ''node3''];
          node = Get ring ''user:1001'';
          node2 = Get ring ''user:1001''
      in [''user:1001 -> '' @ node, ''user:1001 -> '' @ node2 @ '' (consistent)''])"

definition Example_addRemoveNodes :: "(string \<Rightarrow> 8 word list) \<Rightarrow> string list" where
  "Example_addRemoveNodes sha256 =
     (let r1 = Add (New sha256 10 None) [''node1'', ''node2'', ''node3''];
          r2 = Add r1 [''node4''];
          r3 = Remove r2 [''node2'']
      in [''Initial nodes: '' @ dec (Size r1), ''After adding node4: '' @ dec (Size r2), ''After removing node2: '' @ dec (Size r3)])"

definition replica_lines :: "string list \<Rightarrow> string list" where
  "replica_lines ns = map (\<lambda>(i, node). ''Replica '' @ dec (i + 1) @ '': '' @ node) (enumerate 0 ns)"

definition Example_getMultipleNodes :: "(string \<Rightarrow> 8 word list) \<Rightarrow> string list outcome" where
  "Example_getMultipleNodes sha256 =
     (let ring = Add (New sha256 10 None) [''node1'', ''node2'', ''node3'', ''node4'', ''node5'']
      in case GetN ring ''important-data'' 3 of
           Panics \<Rightarrow> Panics
         | Returns nodes \<Rightarrow> Returns ((''Replicate to '' @ dec (length nodes) @ '' nodes'') # replica_lines nodes))"

definition Example_loadBalancing :: "(string \<Rightarrow> 8 word list) \<Rightarrow> string list" where
  "Example_loadBalancing sha256 =
     (let ring = Add (New sha256 150 None) [''gateway1:8080'', ''gateway2:8080'', ''gateway3:8080'']
      in (''User user123 connects to '' @ Get ring ''user123'') #
         map (\<lambda>i. let uid = ''user'' @ dec i in ''User '' @ uid @ '' -> '' @ Get ring uid) [1..<6])"

definition Example_nodeFailover :: "(string \<Rightarrow> 8 word list) \<Rightarrow> string list" where
  "Example_nodeFailover sha256 =
     (let ring = Add (New sha256 50 None) [''server1'', ''server2'', ''server3''];
          server = Get ring ''user456'';
          ring' = Remove ring [''server2''];
          newServer = Get ring' ''user456''
      in [''User user456 initially on '' @ server, ''After server2 failure, user user456 on '' @ newServer] @
         (if server \<noteq> ''server2'' \<and> server = newServer then [''User not affected by server2 failure''] else []))"

definition simpleHash :: "string \<Rightarrow> 32 word" where
  "simpleHash data = foldl (\<lambda>hash b. hash * 31 + of_nat (of_char b)) 0 data"

definition Example_customHashFunction :: "(string \<Rightarrow> 8 word list) \<Rightarrow> string list" where
  "Example_customHashFunction sha256 =
     (let ring = Add (New sha256 10 (Some simpleHash)) [''node1'', ''node2'', ''node3'']
      in [''Using custom hash: test-key -> '' @ Get ring ''test-key''])"

section \<open>Snowflake IDs\<close>

text \<open>What an example ends with: its lines, or the text of \<^verbatim>\<open>log.Fatal\<close>.  No value stands for an example that waits for ever.\<close>

datatype example_end = Printed "string list" | Died string

definition with_generator :: "(nat \<Rightarrow> int) \<Rightarrow> sf_config \<Rightarrow> (generator \<Rightarrow> int \<Rightarrow> string list) \<Rightarrow> example_end option" where
  "with_generator clock cfg report =
     (case NewGenerator cfg of
        Inl err \<Rightarrow> Some (Died (sf_message err))
      | Inr gen \<Rightarrow>
          (case NextID clock 0 gen of
             None \<Rightarrow> None
           | Some (Inl err, _) \<Rightarrow> Some (Died (sf_message err))
           | Some (Inr i, gen', _) \<Rightarrow> Some (Printed (report gen' i))))"

definition ExampleGenerator_NextID :: "(nat \<Rightarrow> int) \<Rightarrow> example_end option" where
  "ExampleGenerator_NextID clock =
     with_generator clock \<lparr>cfg_Epoch = 0, cfg_DatacenterID = 1, cfg_WorkerID = 1, cfg_WorkerIDBits = 0, cfg_SequenceBits = 0, cfg_DatacenterBits = 0\<rparr>
       (\<lambda>gen i. [''Generated ID: '' @ FormatInt i])"

definition ExampleGenerator_Parse :: "(nat \<Rightarrow> int) \<Rightarrow> example_end option" where
  "ExampleGenerator_Parse clock =
     with_generator clock \<lparr>cfg_Epoch = 0, cfg_DatacenterID = 2, cfg_WorkerID = 5, cfg_WorkerIDBits = 5, cfg_SequenceBits = 12, cfg_DatacenterBits = 5\<rparr>
       (\<lambda>gen i. let (timestamp, datacenterID, workerID, sequence) = Parse gen i
          in [''Timestamp: '' @ FormatInt timestamp, ''Datacenter ID: '' @ FormatInt datacenterID, ''Worker ID: '' @ FormatInt workerID,
              ''Sequence: '' @ FormatInt sequence])"

definition ExampleNewGenerator_customBitAllocation :: "(nat \<Rightarrow> int) \<Rightarrow> example_end option" where
  "ExampleNewGenerator_customBitAllocation clock =
     with_generator clock \<lparr>cfg_Epoch = 0, cfg_DatacenterID = 0, cfg_WorkerID = 100, cfg_WorkerIDBits = 8, cfg_SequenceBits = 14, cfg_DatacenterBits = 0\<rparr>
       (\<lambda>gen i. [''Generated ID with custom bit allocation: '' @ FormatInt i])"

section \<open>Kafka\<close>

text \<open>The world of the Kafka examples: the lines on standard output, those of the example itself apart from those of the goroutine that consumes
  the claim, since the two interleave in any way, and the brokers with sarama, time and the consumer's context.  An example's value is the text of \<^verbatim>\<open>log.Fatal\<close> or
  nothing when it returns; a \<^verbatim>\<open>log.Fatal\<close> skips the deferred \<^verbatim>\<open>Close\<close> and \<^verbatim>\<open>Stop\<close>.\<close>

record 's example_world =
  ex_out :: "string list"
  ex_claim_out :: "string list"
  ex_kafka :: 's

definition Println :: "string \<Rightarrow> 's example_world \<Rightarrow> 's example_world" where
  "Println l w = w\<lparr>ex_out := ex_out w @ [l]\<rparr>"

definition claim_Println :: "string \<Rightarrow> 's example_world \<Rightarrow> 's example_world" where
  "claim_Println l w = w\<lparr>ex_claim_out := ex_claim_out w @ [l]\<rparr>"

definition on_kafka :: "('s \<Rightarrow> 'a \<times> 's) \<Rightarrow> 's example_world \<Rightarrow> 'a \<times> 's example_world" where
  "on_kafka f w = (let (a, s) = f (ex_kafka w) in (a, w\<lparr>ex_kafka := s\<rparr>))"

definition producer_example_config :: kafka_config where
  "producer_example_config =
     \<lparr>kf_Brokers = [''127.0.0.1:9092''], kf_Topics = \<lparr>tp_Message = ''chat.messages'', tp_DLQ = ''''\<rparr>, kf_ConsumerGroup = '''',
      kf_Producer = \<lparr>pr_MaxRetries = 3, pr_RetryBackoffMs = 100\<rparr>, kf_Consumer = \<lparr>co_MaxRetries = 0, co_RetryBackoffMs = 0\<rparr>\<rparr>"

definition producer_example ::
  "(string list \<Rightarrow> sarama_config \<Rightarrow> ('p, 's) action) \<Rightarrow> ('p \<Rightarrow> 's \<Rightarrow> go_error option \<times> 's) \<Rightarrow> ('p \<Rightarrow> (int \<times> int, 's) action)
    \<Rightarrow> 's example_world \<Rightarrow> string option \<times> 's example_world" where
  "producer_example newSyncProducer closeProducer produce w =
     (case on_kafka (NewProducer newSyncProducer producer_example_config) w of
        (Inl err, w1) \<Rightarrow> (Some (error_text err), w1)
      | (Inr (producer, _), w1) \<Rightarrow>
          (case on_kafka (produce producer) w1 of
             (Inl err, w2) \<Rightarrow> (Some (error_text err), w2)
           | (Inr (part, off), w2) \<Rightarrow>
               (None, snd (on_kafka (producer_Close closeProducer (Some producer))
                  (Println (''Message sent to partition '' @ FormatInt part @ '' at offset '' @ FormatInt off) w2)))))"

definition ExampleProducer ::
  "(string list \<Rightarrow> sarama_config \<Rightarrow> ('p, 's) action) \<Rightarrow> ('p \<Rightarrow> 's \<Rightarrow> go_error option \<times> 's) \<Rightarrow> ('p \<Rightarrow> producer_message \<Rightarrow> (int \<times> int, 's) action)
    \<Rightarrow> 's example_world \<Rightarrow> string option \<times> 's example_world" where
  \<open>ExampleProducer newSyncProducer closeProducer send =
     producer_example newSyncProducer closeProducer
       (\<lambda>p. Produce (send p) (tp_Message (kf_Topics producer_example_config)) (Some ''user-123'')
         ''{"user_id":"user-123","guild_id":"guild-456","content":"Hello, World!"}'')\<close>

definition ExampleProducer_withRetry ::
  "(string list \<Rightarrow> sarama_config \<Rightarrow> ('p, 's) action) \<Rightarrow> ('p \<Rightarrow> 's \<Rightarrow> go_error option \<times> 's) \<Rightarrow> ('p \<Rightarrow> producer_message \<Rightarrow> (int \<times> int, 's) action)
    \<Rightarrow> (int \<Rightarrow> 's \<Rightarrow> 's) \<Rightarrow> 's example_world \<Rightarrow> string option \<times> 's example_world" where
  \<open>ExampleProducer_withRetry newSyncProducer closeProducer send sleep =
     producer_example newSyncProducer closeProducer
       (\<lambda>p. ProduceWithRetry (send p) (\<lambda>_. None) sleep producer_example_config (tp_Message (kf_Topics producer_example_config))
         (Some ''user-123'') ''{"content":"Important message"}'' 5)\<close>

definition consumer_example_config :: "string \<Rightarrow> kafka_config" where
  "consumer_example_config consumerGroup =
     \<lparr>kf_Brokers = [''127.0.0.1:9092''], kf_Topics = \<lparr>tp_Message = ''chat.messages'', tp_DLQ = ''chat.messages.dlq''\<rparr>,
      kf_ConsumerGroup = consumerGroup, kf_Producer = \<lparr>pr_MaxRetries = 3, pr_RetryBackoffMs = 100\<rparr>,
      kf_Consumer = \<lparr>co_MaxRetries = 3, co_RetryBackoffMs = 1000\<rparr>\<rparr>"

definition receive_handler :: "'s example_world handler" where
  "receive_handler message w = (None, claim_Println (''Received message: '' @ cm_Value message) w)"

definition failing_handler :: "'s example_world handler" where
  "failing_handler message w =
     (let w' = claim_Println (''Processing message: '' @ cm_Value message) w
      in if cm_Value message = ''bad-message'' then (Some (Err ''failed to process message''), w') else (None, w'))"

text \<open>What sarama and the brokers are for a consumer, as the package's model takes them.\<close>

record ('g, 'p, 's) sarama =
  newConsumerGroup :: "string list \<Rightarrow> string \<Rightarrow> group_settings \<Rightarrow> ('g, 's) action"
  newSyncProducer :: "string list \<Rightarrow> sarama_config \<Rightarrow> ('p, 's) action"
  sendMessage :: "'p \<Rightarrow> producer_message \<Rightarrow> (int \<times> int, 's) action"
  closeGroup :: "'g \<Rightarrow> 's \<Rightarrow> go_error option \<times> 's"
  closeProducer :: "'p \<Rightarrow> 's \<Rightarrow> go_error option \<times> 's"
  stopLoop :: "'s \<Rightarrow> 's"
  timeSleep :: "int \<Rightarrow> 's \<Rightarrow> 's"
  ctxErr :: "'s \<Rightarrow> go_error option"

text \<open>\<^verbatim>\<open>Start\<close> and the receive from \<^verbatim>\<open>Ready()\<close> are over when the goroutine of \<^verbatim>\<open>Start\<close> is in a state \<open>g\<close> like this.  What the
  claim of the session (one partition) takes in its whole life is \<open>evs\<close>: the example announces that it is ready, sleeps for ten seconds and calls
  \<^verbatim>\<open>Stop\<close>, which cancels the context \<^verbatim>\<open>Start\<close> derived and waits for the consuming goroutine.  The state of the brokers tells when
  that happens (\<open>ctxErr\<close>): any message, and any attempt at one, can find the context done.\<close>

definition ready_seen :: "group_state \<Rightarrow> bool" where
  "ready_seen g \<longleftrightarrow> gs_start g = StartReturned \<and> gs_ready g \<in> gs_closed g"

definition consume_example ::
  "('g, 'p, 's) sarama \<Rightarrow> 'p \<Rightarrow> kafka_config \<Rightarrow> 's example_world handler \<Rightarrow> claim_event list \<Rightarrow> 's example_world \<Rightarrow> 's example_world" where
  "consume_example k p cfg h evs w =
     fst (ConsumeClaim claim_Println (\<lambda>m. on_kafka (sendMessage k p m)) (\<lambda>w. ctxErr k (ex_kafka w))
       (\<lambda>d w. w\<lparr>ex_kafka := timeSleep k d (ex_kafka w)\<rparr>) cfg h evs w)"

definition consumer_example ::
  "('g, 'p, 's) sarama \<Rightarrow> kafka_config \<Rightarrow> 's example_world handler \<Rightarrow> string \<Rightarrow> group_state \<Rightarrow> claim_event list
    \<Rightarrow> 's example_world \<Rightarrow> (string option \<times> 's example_world) option" where
  "consumer_example k cfg h announce g evs w =
     (case on_kafka (NewConsumer (newConsumerGroup k) (newSyncProducer k) (closeGroup k) cfg) w of
        (Inl err, w1) \<Rightarrow> Some (Some (error_text err), w1)
      | (Inr (cg, p, _), w1) \<Rightarrow>
          if \<not> ready_seen g then None
          else
            let w2 = consume_example k p cfg h evs (Println announce w1)
            in Some (None, snd (on_kafka (consumer_Stop (stopLoop k) (closeGroup k cg) (closeProducer k) (Some p)) w2)))"

definition ExampleConsumer ::
  "('g, 'p, 's) sarama \<Rightarrow> group_state \<Rightarrow> claim_event list \<Rightarrow> 's example_world \<Rightarrow> (string option \<times> 's example_world) option" where
  "ExampleConsumer k =
     consumer_example k (consumer_example_config ''chat-consumer'') receive_handler ''Consumer is ready and processing messages''"

definition ExampleConsumer_withErrorHandling ::
  "('g, 'p, 's) sarama \<Rightarrow> group_state \<Rightarrow> claim_event list \<Rightarrow> 's example_world \<Rightarrow> (string option \<times> 's example_world) option" where
  "ExampleConsumer_withErrorHandling k =
     consumer_example k (consumer_example_config ''chat-consumer-with-dlq'') failing_handler ''Consumer is ready with error handling''"

section \<open>Logging\<close>

text \<open>Each example as the entries it adds to the sink.  A logger that cannot be created is a nil pointer in all but the first example, whose
  \<^verbatim>\<open>defer log.Sync()\<close> then panics, as the first one does itself.\<close>

definition with_logger :: "logger result \<Rightarrow> (logger \<Rightarrow> log_entry list \<Rightarrow> log_entry list) \<Rightarrow> log_entry list \<Rightarrow> log_entry list outcome" where
  "with_logger made body sink = (case made of Inl err \<Rightarrow> Panics | Inr log \<Rightarrow> Returns (body log sink))"

definition Example_basicUsage :: "(string \<Rightarrow> go_error option) \<Rightarrow> log_entry list \<Rightarrow> log_entry list outcome" where
  "Example_basicUsage openFile =
     with_logger (NewLogger openFile \<lparr>lg_Level = ''info'', lg_Format = ''json'', lg_Output = ''stdout'', lg_FilePath = ''''\<rparr>)
       (\<lambda>log. zap_write ErrorLevel ''An error occurred'' [(''error'', ErrorValue (Err ''example error''))] log \<circ>
              zap_write WarnLevel ''This is a warning'' [] log \<circ>
              zap_write InfoLevel ''Application started'' [] log \<circ>
              zap_write DebugLevel ''This is a debug message'' [] log)"

definition Example_withTraceID :: "(log_level \<times> bool) result \<Rightarrow> string \<Rightarrow> log_entry list \<Rightarrow> log_entry list outcome" where
  "Example_withTraceID preset uuid =
     with_logger (NewDevelopmentLogger preset)
       (\<lambda>log. let logWithTrace = logger_WithTraceID (NewTraceID uuid) log
          in zap_write InfoLevel ''Request completed'' [] logWithTrace \<circ> zap_write InfoLevel ''Processing request'' [] logWithTrace)"

definition Example_contextAware :: "(log_level \<times> bool) result \<Rightarrow> string \<Rightarrow> log_entry list \<Rightarrow> log_entry list outcome" where
  "Example_contextAware preset uuid =
     with_logger (NewDevelopmentLogger preset)
       (\<lambda>log. let ctx = context_WithTraceID uuid [] ''trace-123''
          in InfoContext ctx ''User action performed'' [(''action'', StringValue ''create_guild'')] log \<circ>
             InfoContext ctx ''User logged in'' [(''user_id'', StringValue ''user123''), (''ip'', StringValue ''192.168.1.1'')] log)"

definition Example_structuredFields :: "(log_level \<times> bool) result \<Rightarrow> log_entry list \<Rightarrow> log_entry list outcome" where
  "Example_structuredFields preset =
     with_logger (NewDevelopmentLogger preset)
       (zap_write InfoLevel ''Message sent''
         [(''message_id'', StringValue ''msg123''), (''user_id'', StringValue ''user456''), (''guild_id'', StringValue ''guild789''),
          (''seq_id'', IntValue 12345), (''latency'', DurationValue 50)])"

definition Example_persistentFields :: "(log_level \<times> bool) result \<Rightarrow> log_entry list \<Rightarrow> log_entry list outcome" where
  "Example_persistentFields preset =
     with_logger (NewDevelopmentLogger preset)
       (\<lambda>log. let userLog = WithFields [(''user_id'', StringValue ''user123''), (''session_id'', StringValue ''session456'')] log
          in zap_write InfoLevel ''User action: send message'' [] userLog \<circ>
             zap_write InfoLevel ''User action: create guild'' [] userLog \<circ>
             zap_write InfoLevel ''User action: login'' [] userLog)"

definition Example_httpMiddleware :: "(log_level \<times> bool) result \<Rightarrow> string \<Rightarrow> string \<Rightarrow> log_entry list \<Rightarrow> log_entry list outcome" where
  "Example_httpMiddleware preset uuid uuid' =
     with_logger (NewDevelopmentLogger preset)
       (\<lambda>log. let traceID = NewTraceID uuid; ctx = context_WithTraceID uuid' [] traceID
          in InfoContext ctx ''Request completed'' [(''status'', IntValue 200), (''latency'', DurationValue 45)] log \<circ>
             InfoContext ctx ''Request received'' [(''method'', StringValue ''POST''), (''path'', StringValue ''/api/v1/messages'')] log)"

definition Example_errorHandling :: "(log_level \<times> bool) result \<Rightarrow> string \<Rightarrow> log_entry list \<Rightarrow> log_entry list outcome" where
  "Example_errorHandling preset uuid =
     with_logger (NewDevelopmentLogger preset)
       (\<lambda>log. let ctx = context_WithTraceID uuid [] ''trace-456''; err = Err ''database connection failed''
          in ErrorContext ctx ''Failed to save message''
               [(''error'', ErrorValue err), (''user_id'', StringValue ''user123''), (''guild_id'', StringValue ''guild456''),
                (''operation'', StringValue ''insert'')] log)"

definition Example_serviceLayer :: "(log_level \<times> bool) result \<Rightarrow> string \<Rightarrow> log_entry list \<Rightarrow> log_entry list outcome" where
  "Example_serviceLayer preset uuid =
     with_logger (NewDevelopmentLogger preset)
       (\<lambda>log. let authLog = WithFields [(''service'', StringValue ''auth'')] log; ctx = context_WithTraceID uuid [] ''trace-789''
          in InfoContext ctx ''User registered successfully'' [(''user_id'', StringValue ''user123'')] authLog \<circ>
             DebugContext ctx ''Validating user input'' [] authLog \<circ>
             InfoContext ctx ''User registration started'' [(''username'', StringValue ''newuser'')] authLog)"

section \<open>What the ring examples print\<close>

lemma ring_nodes_foldl_add: "ring_nodes (foldl (add_virtual node) r is) = ring_nodes r"
  by (induction "is" arbitrary: r) (simp_all add: add_virtual_def Let_def)

lemma ring_nodes_foldl_remove: "ring_nodes (foldl (remove_virtual node) r is) = ring_nodes r"
  by (induction "is" arbitrary: r) (simp_all add: remove_virtual_def)

lemma ring_nodes_simps [simp]:
  "ring_nodes (New sha256 reps fn) = []"
  "ring_nodes (add_one r node) = (if node = '''' \<or> map_get False (ring_nodes r) node then ring_nodes r else AList.update node True (ring_nodes r))"
  "ring_nodes (remove_one r node) = (if node = '''' \<or> \<not> map_get False (ring_nodes r) node then ring_nodes r else AList.delete node (ring_nodes r))"
  "ring_nodes (rebuildKeys r) = ring_nodes r"
  by (simp_all add: New_def add_one_def remove_one_def rebuildKeys_def ring_nodes_foldl_add ring_nodes_foldl_remove)

lemma addRemoveNodes_output:
  "Example_addRemoveNodes sha256 = [''Initial nodes: 3'', ''After adding node4: 4'', ''After removing node2: 3'']"
proof -
  have "dec 3 = ''3''" "dec 4 = ''4''" by (simp_all add: dec.simps digit_char_def char_of_def bit_simps)
  then have "dec (Suc (Suc (Suc 0))) = ''3''" "dec (Suc (Suc (Suc (Suc 0)))) = ''4''" by (simp_all add: numeral_eq_Suc)
  then show ?thesis
    by (simp add: Example_addRemoveNodes_def Let_def Size_def Add_def Remove_def map_get_def)
qed

lemma example_ring:
  assumes "collision_free (defaultHash sha256) reps (set ns)" and "'''' \<notin> set ns" and "0 < reps"
  shows "represents (Add (New sha256 reps None) ns) (set ns)"
    and "collision_free (r_hash (Add (New sha256 reps None) ns)) (replicas (Add (New sha256 reps None) ns)) (set ns)"
proof -
  have f: "r_hash (New sha256 reps None) = defaultHash sha256" "replicas (New sha256 reps None) = reps"
    using assms(3) by (simp_all add: New_def)
  have N: "{} \<union> (set ns - {''''}) = set ns" using assms(2) by auto
  note A = Add_represents [OF New_represents [of sha256 reps None], of ns, unfolded N f, OF assms(1)]
  show "represents (Add (New sha256 reps None) ns) (set ns)"
    "collision_free (r_hash (Add (New sha256 reps None) ns)) (replicas (Add (New sha256 reps None) ns)) (set ns)"
    using A f assms(1) by simp_all
qed

text \<open>After a failure a key is on a remaining node, and where it was if that node remains.\<close>

lemma failover:
  assumes "represents r N" and "collision_free (r_hash r) (replicas r) N" and "N - set ns \<noteq> {}"
  shows "Get r key \<in> N" and "Get (Remove r ns) key \<in> N - set ns"
    and "Get r key \<notin> set ns \<Longrightarrow> Get (Remove r ns) key = Get r key"
proof -
  have ne: "N \<noteq> {}" using assms(3) by blast
  note R = Remove_represents [OF assms(1,2), of ns]
  show own: "Get r key \<in> N" using Get_at [OF assms(1) ne, of key] by (auto simp: points_def)
  show "Get (Remove r ns) key \<in> N - set ns" using Get_at [OF R(1) assms(3), of key] by (auto simp: points_def)
  show "Get (Remove r ns) key = Get r key" if "Get r key \<notin> set ns"
    using Get_stable [OF R(1) assms(1), of key] R assms(2,3) own that by auto
qed

lemma nodeFailover_output:
  assumes "collision_free (defaultHash sha256) 50 {''server1'', ''server2'', ''server3''}"
  shows "\<exists>a \<in> {''server1'', ''server2'', ''server3''}. \<exists>b \<in> {''server1'', ''server3''}. (a \<noteq> ''server2'' \<longrightarrow> b = a) \<and>
    Example_nodeFailover sha256 = [''User user456 initially on '' @ a, ''After server2 failure, user user456 on '' @ b] @
      (if a = ''server2'' then [] else [''User not affected by server2 failure''])"
proof -
  define ring where "ring = Add (New sha256 50 None) [''server1'', ''server2'', ''server3'']"
  have R: "represents ring {''server1'', ''server2'', ''server3''}"
    "collision_free (r_hash ring) (replicas ring) {''server1'', ''server2'', ''server3''}"
    using example_ring [of sha256 50 "[''server1'', ''server2'', ''server3'']"] assms by (simp_all add: ring_def)
  have left: "{''server1'', ''server2'', ''server3''} - set [''server2''] = {''server1'', ''server3''}" by auto
  note F = failover [OF R, of "[''server2'']" "''user456''", unfolded left]
  have run: "Example_nodeFailover sha256 = [''User user456 initially on '' @ Get ring ''user456'',
      ''After server2 failure, user user456 on '' @ Get (Remove ring [''server2'']) ''user456''] @
      (if Get ring ''user456'' = ''server2'' then [] else [''User not affected by server2 failure''])"
    using F(3) by (simp add: Example_nodeFailover_def Let_def ring_def [symmetric])
  show ?thesis
    by (rule bexI [of _ "Get ring ''user456''"], rule bexI [of _ "Get (Remove ring [''server2'']) ''user456''"])
      (use run F in auto)
qed

lemma getMultipleNodes_output:
  assumes "collision_free (defaultHash sha256) 10 {''node1'', ''node2'', ''node3'', ''node4'', ''node5''}"
  shows "\<exists>a b c. distinct [a, b, c] \<and> {a, b, c} \<subseteq> {''node1'', ''node2'', ''node3'', ''node4'', ''node5''} \<and>
    Example_getMultipleNodes sha256 =
      Returns [''Replicate to 3 nodes'', ''Replica 1: '' @ a, ''Replica 2: '' @ b, ''Replica 3: '' @ c]"
proof -
  define ring where "ring = Add (New sha256 10 None) [''node1'', ''node2'', ''node3'', ''node4'', ''node5'']"
  have R: "represents ring {''node1'', ''node2'', ''node3'', ''node4'', ''node5''}"
    using example_ring [of sha256 10 "[''node1'', ''node2'', ''node3'', ''node4'', ''node5'']"] assms by (simp add: ring_def)
  obtain res where res: "GetN ring ''important-data'' 3 = Returns res" "distinct res"
      "set res \<subseteq> {''node1'', ''node2'', ''node3'', ''node4'', ''node5''}" "length res = 3"
    using GetN_returns [OF R, of 3 "''important-data''"] by auto
  then obtain a b c where abc: "res = [a, b, c]" by (auto simp: length_Suc_conv numeral_eq_Suc)
  have "dec 1 = ''1''" "dec 2 = ''2''" "dec 3 = ''3''" by (simp_all add: dec.simps digit_char_def char_of_def bit_simps)
  then have d: "dec (Suc 0) = ''1''" "dec (Suc (Suc 0)) = ''2''" "dec (Suc (Suc (Suc 0))) = ''3''" by (simp_all add: numeral_eq_Suc)
  show ?thesis
    using res by (intro exI [of _ a] exI [of _ b] exI [of _ c])
      (simp add: Example_getMultipleNodes_def Let_def ring_def [symmetric] replica_lines_def abc d)
qed

section \<open>What the generator examples print\<close>

text \<open>The first ID of a new generator, at a clock reading the layout can represent.\<close>

lemma with_generator_first:
  assumes "NewGenerator cfg = Inr gen" and "sf_inv gen" and "lastTimestamp gen = 0" and "sequence gen = 0"
    and "ts_range gen ts" and "0 < ts" and "currentTimestamp clock 0 = ts"
  shows "with_generator clock cfg report = Some (Printed (report (gen\<lparr>lastTimestamp := ts\<rparr>) (pack gen ts)))"
    and "Parse (gen\<lparr>lastTimestamp := ts\<rparr>) (pack gen ts) = (ts, datacenterID gen, workerID gen, 0)"
proof -
  have gen: "sequence_update (\<lambda>_. 0) gen = gen" using assms(4) by simp
  have inv: "sf_inv (gen\<lparr>lastTimestamp := ts\<rparr>)" "ts_range (gen\<lparr>lastTimestamp := ts\<rparr>) ts"
    and pk: "pack (gen\<lparr>lastTimestamp := ts\<rparr>) ts = pack gen ts"
    using assms(2,5) by (simp_all add: sf_inv_def ts_range_def pack_def)
  then show "with_generator clock cfg report = Some (Printed (report (gen\<lparr>lastTimestamp := ts\<rparr>) (pack gen ts)))"
    using assms makeID_eq_pack [OF inv] by (simp add: with_generator_def NextID_def issue_def Let_def gen)
  show "Parse (gen\<lparr>lastTimestamp := ts\<rparr>) (pack gen ts) = (ts, datacenterID gen, workerID gen, 0)"
    using Parse_pack [OF inv] assms(4) by (simp add: pk)
qed

definition example_gen :: "int \<Rightarrow> int \<Rightarrow> int \<Rightarrow> int \<Rightarrow> int \<Rightarrow> generator" where
  "example_gen dc w db wb sb =
     \<lparr>epoch = Epoch, datacenterID = dc, workerID = w, workerIDBits = wb, sequenceBits = sb, datacenterBits = db, workerIDShift = sb,
      datacenterIDShift = sb + wb, timestampShift = sb + wb + db, sequenceMask = 2 ^ nat sb - 1, workerIDMask = 2 ^ nat wb - 1,
      datacenterIDMask = 2 ^ nat db - 1, sequence = 0, lastTimestamp = 0\<rparr>"

text \<open>The three generators give 22 bits to their fields, so an ID has the milliseconds since the epoch in the upper 41 bits.\<close>

lemma generator_examples_output:
  assumes "currentTimestamp clock 0 = ts" and "Epoch < ts" and "ts < Epoch + 2 ^ 41"
  shows "ExampleGenerator_Parse clock =
      Some (Printed [''Timestamp: '' @ FormatInt ts, ''Datacenter ID: '' @ FormatInt 2, ''Worker ID: '' @ FormatInt 5, ''Sequence: '' @ FormatInt 0])"
    and "ExampleGenerator_NextID clock = Some (Printed [''Generated ID: '' @ FormatInt ((ts - Epoch) * 2 ^ 22 + 2 ^ 12)])"
    and "ExampleNewGenerator_customBitAllocation clock =
      Some (Printed [''Generated ID with custom bit allocation: '' @ FormatInt ((ts - Epoch) * 2 ^ 22 + 100 * 2 ^ 14)])"
proof -
  have new:
    "NewGenerator \<lparr>cfg_Epoch = 0, cfg_DatacenterID = 2, cfg_WorkerID = 5, cfg_WorkerIDBits = 5, cfg_SequenceBits = 12, cfg_DatacenterBits = 5\<rparr> =
      Inr (example_gen 2 5 5 5 12)"
    "NewGenerator \<lparr>cfg_Epoch = 0, cfg_DatacenterID = 1, cfg_WorkerID = 1, cfg_WorkerIDBits = 0, cfg_SequenceBits = 0, cfg_DatacenterBits = 0\<rparr> =
      Inr (example_gen 0 1 0 10 12)"
    "NewGenerator \<lparr>cfg_Epoch = 0, cfg_DatacenterID = 0, cfg_WorkerID = 100, cfg_WorkerIDBits = 8, cfg_SequenceBits = 14, cfg_DatacenterBits = 0\<rparr> =
      Inr (example_gen 0 100 0 8 14)"
    by code_simp+
  have ts: "0 < ts" using assms(2) by (simp add: Epoch_def)
  have inv: "sf_inv (example_gen 2 5 5 5 12)" "sf_inv (example_gen 0 1 0 10 12)" "sf_inv (example_gen 0 100 0 8 14)"
    by (simp_all add: sf_inv_def example_gen_def)
  have rng: "ts_range (example_gen 2 5 5 5 12) ts" "ts_range (example_gen 0 1 0 10 12) ts" "ts_range (example_gen 0 100 0 8 14) ts"
    using assms(2,3) by (simp_all add: ts_range_def int64_range_def example_gen_def Epoch_def)
  have zero: "lastTimestamp (example_gen dc w db wb sb) = 0" "sequence (example_gen dc w db wb sb) = 0" for dc w db wb sb
    by (simp_all add: example_gen_def)
  note run = with_generator_first [OF new(1) inv(1) zero rng(1) ts assms(1)] with_generator_first [OF new(2) inv(2) zero rng(2) ts assms(1)]
    with_generator_first [OF new(3) inv(3) zero rng(3) ts assms(1)]
  show "ExampleGenerator_Parse clock =
      Some (Printed [''Timestamp: '' @ FormatInt ts, ''Datacenter ID: '' @ FormatInt 2, ''Worker ID: '' @ FormatInt 5, ''Sequence: '' @ FormatInt 0])"
    unfolding ExampleGenerator_Parse_def run by (simp add: example_gen_def)
  show "ExampleGenerator_NextID clock = Some (Printed [''Generated ID: '' @ FormatInt ((ts - Epoch) * 2 ^ 22 + 2 ^ 12)])"
    unfolding ExampleGenerator_NextID_def run by (simp add: example_gen_def pack_def)
  show "ExampleNewGenerator_customBitAllocation clock =
      Some (Printed [''Generated ID with custom bit allocation: '' @ FormatInt ((ts - Epoch) * 2 ^ 22 + 100 * 2 ^ 14)])"
    unfolding ExampleNewGenerator_customBitAllocation_def run by (simp add: example_gen_def pack_def)
qed

section \<open>What the consumer examples do\<close>

text \<open>What became of a message: the number of attempts to handle it, and the error with which it went to the dead letter topic, if it did.
  \<open>account\<close> describes a handler that reports the same outcome \<open>err\<close> at every attempt, with three retries: the message is handled at the first attempt, or the
  fourth one has failed, or the context was done before that.\<close>

definition account :: "('g, 'p, 's) sarama \<Rightarrow> go_error option \<Rightarrow> nat \<Rightarrow> go_error option \<Rightarrow> bool" where
  "account k err n dead \<longleftrightarrow>
     (case dead of
        None \<Rightarrow> err = None \<and> n = 1
      | Some e \<Rightarrow> (\<exists>e0. err = Some e0 \<and> n = 4 \<and> e = Wrap ''failed after 3 retries'' e0) \<or>
          (\<exists>s. ctxErr k s = Some e) \<and> n < 4 \<and> (err = None \<longrightarrow> n = 0))"

definition claim_lines :: "string \<Rightarrow> consumer_message \<Rightarrow> nat \<times> go_error option \<Rightarrow> string list" where
  "claim_lines line m a = replicate (fst a) line @ (case snd a of None \<Rightarrow> [] | Some e \<Rightarrow> [dlq_notice m e])"

text \<open>Sarama and brokers on which every call succeeds, as seen through the list \<open>log\<close> of stored messages: a send appends its message, nothing
  else changes the list.\<close>

locale healthy_kafka =
  fixes k :: "('g, 'p, 's) sarama" and log :: "'s \<Rightarrow> producer_message list"
  assumes group_made: "\<exists>g s'. newConsumerGroup k bs name st s = (Inr g, s') \<and> log s' = log s"
    and producer_made: "\<exists>p s'. newSyncProducer k bs sc s = (Inr p, s') \<and> log s' = log s"
    and stored: "\<exists>po s'. sendMessage k p m s = (Inr po, s') \<and> log s' = log s @ [m]"
    and group_closed: "log (snd (closeGroup k g s)) = log s" and producer_closed: "log (snd (closeProducer k p s)) = log s"
    and loop_stopped: "log (stopLoop k s) = log s" and slept: "log (timeSleep k d s) = log s"
begin

lemma stop_keeps: "log (snd (consumer_Stop (stopLoop k) (closeGroup k g) (closeProducer k) (Some p) s)) = log s"
  using group_closed [of g "stopLoop k s"] producer_closed [of p "snd (closeGroup k g (stopLoop k s))"] loop_stopped [of s]
  by (auto simp: consumer_Stop_def producer_Close_def split: prod.splits option.splits)

lemma consumer_made:
  "\<exists>g p s'. NewConsumer (newConsumerGroup k) (newSyncProducer k) (closeGroup k) cfg s = (Inr (g, p, cfg), s') \<and> log s' = log s"
proof -
  obtain g s1 where 1: "newConsumerGroup k (kf_Brokers cfg) (kf_ConsumerGroup cfg) consumer_settings s = (Inr g, s1)" "log s1 = log s"
    using group_made by metis
  obtain p s2 where "newSyncProducer k (kf_Brokers cfg) (producer_settings cfg) s1 = (Inr p, s2)" "log s2 = log s1"
    using producer_made by metis
  with 1 show ?thesis by (simp add: NewConsumer_def NewProducer_def)
qed

lemma retry_account:
  assumes "\<And>w. op w = (Inl e0, claim_Println line w)"
  shows "int a + int r = 4 \<Longrightarrow> (r = 0 \<Longrightarrow> lastErr = Some e0) \<Longrightarrow>
    \<exists>n e w1. retry_loop (\<lambda>w. ctxErr k (ex_kafka w)) (\<lambda>d w. w\<lparr>ex_kafka := timeSleep k d (ex_kafka w)\<rparr>) op msg 3 (int a) b lastErr w =
        (Inl e :: unit result, w1) \<and> (n = r \<and> e = Wrap msg e0 \<or> n < r \<and> (\<exists>s. ctxErr k s = Some e)) \<and>
      ex_out w1 = ex_out w \<and> ex_claim_out w1 = ex_claim_out w @ replicate n line \<and> log (ex_kafka w1) = log (ex_kafka w)"
proof (induction r arbitrary: a b lastErr w)
  case 0
  then show ?case by (auto simp: retry_loop.simps wrap_last_def)
next
  case (Suc r)
  show ?case
  proof (cases "ctxErr k (ex_kafka w)")
    case (Some e)
    then show ?thesis using Suc.prems by (intro exI [of _ 0] exI [of _ e] exI [of _ w]) (auto simp: retry_loop.simps)
  next
    case None
    define w' where "w' = (if int a < 3 then (claim_Println line w)\<lparr>ex_kafka := timeSleep k b (ex_kafka w)\<rparr> else claim_Println line w)"
    have w': "ex_out w' = ex_out w" "ex_claim_out w' = ex_claim_out w @ [line]" "log (ex_kafka w') = log (ex_kafka w)"
      by (simp_all add: w'_def claim_Println_def slept)
    have "retry_loop (\<lambda>w. ctxErr k (ex_kafka w)) (\<lambda>d w. w\<lparr>ex_kafka := timeSleep k d (ex_kafka w)\<rparr>) op msg 3 (int a) b lastErr w =
        retry_loop (\<lambda>w. ctxErr k (ex_kafka w)) (\<lambda>d w. w\<lparr>ex_kafka := timeSleep k d (ex_kafka w)\<rparr>) op msg 3 (int (Suc a))
          (if int a < 3 then wrap64 (b * 2) else b) (Some e0) w'"
      using Suc.prems None assms by (subst retry_loop.simps) (simp add: w'_def claim_Println_def add.commute)
    with Suc.IH [of "Suc a" "Some e0" "if int a < 3 then wrap64 (b * 2) else b" w'] Suc.prems(1) w'
    obtain n e w1 where "retry_loop (\<lambda>w. ctxErr k (ex_kafka w)) (\<lambda>d w. w\<lparr>ex_kafka := timeSleep k d (ex_kafka w)\<rparr>) op msg 3 (int a) b lastErr w =
        (Inl e, w1)" "n = r \<and> e = Wrap msg e0 \<or> n < r \<and> (\<exists>s. ctxErr k s = Some e)"
      "ex_out w1 = ex_out w" "ex_claim_out w1 = (ex_claim_out w @ [line]) @ replicate n line" "log (ex_kafka w1) = log (ex_kafka w)" by auto
    then show ?thesis by (intro exI [of _ "Suc n"] exI [of _ e] exI [of _ w1]) auto
  qed
qed

lemma process_account:
  assumes "\<And>w. h m w = (err, claim_Println line w)" and "co_MaxRetries (kf_Consumer cfg) = 3"
  shows "\<exists>n dead w1. processMessageWithRetry (\<lambda>w. ctxErr k (ex_kafka w)) (\<lambda>d w. w\<lparr>ex_kafka := timeSleep k d (ex_kafka w)\<rparr>) cfg h m w =
      ((case dead of None \<Rightarrow> Inr () | Some e \<Rightarrow> Inl e), w1) \<and> account k err n dead \<and>
    ex_out w1 = ex_out w \<and> ex_claim_out w1 = ex_claim_out w @ replicate n line \<and> log (ex_kafka w1) = log (ex_kafka w)"
proof (cases err)
  case None
  show ?thesis
  proof (cases "ctxErr k (ex_kafka w)")
    case no: None
    show ?thesis using assms None no
      by (intro exI [of _ 1] exI [of _ None] exI [of _ "claim_Println line w"])
        (auto simp: processMessageWithRetry_def retry_loop.simps handler_action_def account_def claim_Println_def)
  next
    case (Some e)
    then show ?thesis using assms None
      by (intro exI [of _ 0] exI [of _ "Some e"] exI [of _ w]) (auto simp: processMessageWithRetry_def retry_loop.simps account_def)
  qed
next
  case (Some e0)
  have three: "''failed after '' @ FormatInt 3 @ '' retries'' = ''failed after 3 retries''"
    by (simp add: FormatInt_def dec.simps digit_char_def char_of_def bit_simps)
  have "handler_action h m w = (Inl e0, claim_Println line w)" for w using assms(1) Some by (simp add: handler_action_def)
  from retry_account [where op = "handler_action h m" and a = 0 and r = 4 and msg = "''failed after 3 retries''" and lastErr = None, OF this]
  obtain n e w1 where "retry_loop (\<lambda>w. ctxErr k (ex_kafka w)) (\<lambda>d w. w\<lparr>ex_kafka := timeSleep k d (ex_kafka w)\<rparr>) (handler_action h m)
        ''failed after 3 retries'' 3 0 (wrap64 (co_RetryBackoffMs (kf_Consumer cfg) * Millisecond)) None w = (Inl e, w1)"
      "n = 4 \<and> e = Wrap ''failed after 3 retries'' e0 \<or> n < 4 \<and> (\<exists>s. ctxErr k s = Some e)"
      "ex_out w1 = ex_out w" "ex_claim_out w1 = ex_claim_out w @ replicate n line" "log (ex_kafka w1) = log (ex_kafka w)"
    by (simp; blast)
  then show ?thesis using Some unfolding processMessageWithRetry_def assms(2) three
    by (intro exI [of _ n] exI [of _ "Some e"] exI [of _ w1]) (auto simp: account_def)
qed

text \<open>So a message leaves its lines, and a copy in the dead letter topic exactly if it was not handled.\<close>

lemma consume_one_account:
  assumes "\<And>w. h m w = (err, claim_Println line w)" and "co_MaxRetries (kf_Consumer cfg) = 3"
    and "w' = consume_one claim_Println (\<lambda>m. on_kafka (sendMessage k p m)) (\<lambda>w. ctxErr k (ex_kafka w))
      (\<lambda>d w. w\<lparr>ex_kafka := timeSleep k d (ex_kafka w)\<rparr>) cfg h m w"
  shows "\<exists>n dead. account k err n dead \<and> ex_out w' = ex_out w \<and> ex_claim_out w' = ex_claim_out w @ claim_lines line m (n, dead) \<and>
    log (ex_kafka w') = log (ex_kafka w) @ (if dead = None then [] else [dlq_copy cfg m])"
proof -
  obtain n dead w1 where p: "processMessageWithRetry (\<lambda>w. ctxErr k (ex_kafka w)) (\<lambda>d w. w\<lparr>ex_kafka := timeSleep k d (ex_kafka w)\<rparr>) cfg h m w =
      ((case dead of None \<Rightarrow> Inr () | Some e \<Rightarrow> Inl e), w1)" and acc: "account k err n dead"
      and w1: "ex_out w1 = ex_out w" "ex_claim_out w1 = ex_claim_out w @ replicate n line" "log (ex_kafka w1) = log (ex_kafka w)"
    using process_account [where h = h and m = m and err = err and line = line, OF assms(1,2)] by blast
  obtain po s' where "sendMessage k p (dlq_copy cfg m) (ex_kafka w1) = (Inr po, s')" "log s' = log (ex_kafka w1) @ [dlq_copy cfg m]"
    using stored by metis
  then show ?thesis unfolding assms(3) using p w1
    by (intro exI [of _ n] exI [of _ dead] conjI acc; cases dead)
      (simp_all add: consume_one_def sendToDLQ_def Produce_def dlq_copy_def on_kafka_def claim_lines_def claim_Println_def)
qed

lemma consume_example_account:
  assumes "\<And>m w. h m w = (err m, claim_Println (line m) w)" and "co_MaxRetries (kf_Consumer cfg) = 3"
  shows "\<exists>acc. list_all2 (\<lambda>m (n, dead). account k (err m) n dead) (claimed evs) acc \<and>
    ex_out (consume_example k p cfg h evs w) = ex_out w \<and>
    ex_claim_out (consume_example k p cfg h evs w) = ex_claim_out w @ concat (map2 (\<lambda>m. claim_lines (line m) m) (claimed evs) acc) \<and>
    log (ex_kafka (consume_example k p cfg h evs w)) =
      log (ex_kafka w) @ map (dlq_copy cfg \<circ> fst) (filter (\<lambda>(m, n, dead). dead \<noteq> None) (zip (claimed evs) acc))"
proof -
  define c where "c = consume_one claim_Println (\<lambda>m. on_kafka (sendMessage k p m)) (\<lambda>w. ctxErr k (ex_kafka w))
    (\<lambda>d w. w\<lparr>ex_kafka := timeSleep k d (ex_kafka w)\<rparr>) cfg h"
  have "\<exists>acc. list_all2 (\<lambda>m (n, dead). account k (err m) n dead) ms acc \<and> ex_out (fold c ms w) = ex_out w \<and>
    ex_claim_out (fold c ms w) = ex_claim_out w @ concat (map2 (\<lambda>m. claim_lines (line m) m) ms acc) \<and>
    log (ex_kafka (fold c ms w)) = log (ex_kafka w) @ map (dlq_copy cfg \<circ> fst) (filter (\<lambda>(m, n, dead). dead \<noteq> None) (zip ms acc))" for ms
  proof (induction ms arbitrary: w)
    case (Cons m ms)
    obtain n dead where m: "account k (err m) n dead" "ex_out (c m w) = ex_out w"
        "ex_claim_out (c m w) = ex_claim_out w @ claim_lines (line m) m (n, dead)"
        "log (ex_kafka (c m w)) = log (ex_kafka w) @ (if dead = None then [] else [dlq_copy cfg m])"
      using consume_one_account [where h = h and m = m and err = "err m" and line = "line m", OF assms, where w = w and p = p, OF refl] unfolding c_def by blast
    from Cons [of "c m w"] obtain acc where "list_all2 (\<lambda>m (n, dead). account k (err m) n dead) ms acc"
        "ex_out (fold c ms (c m w)) = ex_out (c m w)"
        "ex_claim_out (fold c ms (c m w)) = ex_claim_out (c m w) @ concat (map2 (\<lambda>m. claim_lines (line m) m) ms acc)"
        "log (ex_kafka (fold c ms (c m w))) = log (ex_kafka (c m w)) @
          map (dlq_copy cfg \<circ> fst) (filter (\<lambda>(m, n, dead). dead \<noteq> None) (zip ms acc))" by blast
    with m show ?case by (intro exI [of _ "(n, dead) # acc"]) auto
  qed simp
  then show ?thesis by (simp add: consume_example_def ConsumeClaim_state c_def)
qed

lemma consumer_example_account:
  assumes "\<And>m w. h m w = (err m, claim_Println (line m) w)" and "co_MaxRetries (kf_Consumer cfg) = 3" and "ready_seen g"
  shows "\<exists>w' acc. consumer_example k cfg h announce g evs w = Some (None, w') \<and> ex_out w' = ex_out w @ [announce] \<and>
    list_all2 (\<lambda>m (n, dead). account k (err m) n dead) (claimed evs) acc \<and>
    ex_claim_out w' = ex_claim_out w @ concat (map2 (\<lambda>m. claim_lines (line m) m) (claimed evs) acc) \<and>
    log (ex_kafka w') = log (ex_kafka w) @ map (dlq_copy cfg \<circ> fst) (filter (\<lambda>(m, n, dead). dead \<noteq> None) (zip (claimed evs) acc))"
proof -
  obtain cg p s1 where c: "NewConsumer (newConsumerGroup k) (newSyncProducer k) (closeGroup k) cfg (ex_kafka w) = (Inr (cg, p, cfg), s1)"
      "log s1 = log (ex_kafka w)" using consumer_made by metis
  define w2 where "w2 = consume_example k p cfg h evs (Println announce (w\<lparr>ex_kafka := s1\<rparr>))"
  define w3 where "w3 = snd (on_kafka (consumer_Stop (stopLoop k) (closeGroup k cg) (closeProducer k) (Some p)) w2)"
  have run: "consumer_example k cfg h announce g evs w = Some (None, w3)"
    using c(1) assms(3) by (simp add: consumer_example_def on_kafka_def [of "NewConsumer _ _ _ _"] w3_def w2_def Let_def)
  have w3: "ex_out w3 = ex_out w2" "ex_claim_out w3 = ex_claim_out w2" "log (ex_kafka w3) = log (ex_kafka w2)"
    using stop_keeps [of cg p "ex_kafka w2"] by (simp_all add: w3_def on_kafka_def case_prod_beta)
  from consume_example_account [where h = h and err = err and line = line, OF assms(1,2), where p = p and evs = evs and w = "Println announce (w\<lparr>ex_kafka := s1\<rparr>)", folded w2_def] c(2)
  show ?thesis unfolding run by (simp add: w3 Println_def) blast
qed

end

text \<open>A cluster that stores every message, and a session that has been set up.\<close>

definition demo_sarama :: "(unit, unit, producer_message list) sarama" where
  "demo_sarama = \<lparr>newConsumerGroup = \<lambda>_ _ _ l. (Inr (), l), newSyncProducer = \<lambda>_ _ l. (Inr (), l),
     sendMessage = \<lambda>_ m l. (Inr (0, int (length l)), l @ [m]), closeGroup = \<lambda>_ l. (None, l), closeProducer = \<lambda>_ l. (None, l),
     stopLoop = \<lambda>l. l, timeSleep = \<lambda>_ l. l, ctxErr = \<lambda>_. None\<rparr>"

interpretation demo_cluster: healthy_kafka demo_sarama "\<lambda>l. l"
  by unfold_locales (simp_all add: demo_sarama_def)

definition demo_session :: group_state where
  "demo_session = group_init\<lparr>gs_closed := {0}, gs_phase := InConsume True, gs_start := StartReturned\<rparr>"

lemma demo_session_reached: "group_reach group_init demo_session"
proof -
  define g1 where "g1 = group_init\<lparr>gs_start := StartWaiting 0\<rparr>"
  define g2 where "g2 = g1\<lparr>gs_phase := InConsume False\<rparr>"
  define g3 where "g3 = g2\<lparr>gs_closed := {0}, gs_phase := InConsume True\<rparr>"
  have "group_step group_init g1" using start_waits [of group_init] by (simp add: g1_def group_init_def)
  moreover have "group_step g1 g2" unfolding g2_def by (rule loop_consume) (simp_all add: g1_def group_init_def)
  moreover have "group_step g2 g3"
    using session_setup [of g2 "g2\<lparr>gs_closed := {0}\<rparr>"] by (simp add: g3_def g2_def g1_def group_init_def Setup_def)
  moreover have "group_step g3 demo_session"
    using start_returns [of g3 0] by (simp add: demo_session_def g3_def g2_def g1_def group_init_def)
  ultimately show ?thesis by (meson converse_rtranclp_into_rtranclp r_into_rtranclp)
qed

section \<open>What the logging examples write\<close>

text \<open>At level \<^verbatim>\<open>info\<close> the debug entry is dropped, the other three are written in order.\<close>

lemma basicUsage_output:
  "Example_basicUsage openFile sink =
     Returns (sink @ [\<lparr>le_level = InfoLevel, le_message = ''Application started'', le_fields = []\<rparr>,
       \<lparr>le_level = WarnLevel, le_message = ''This is a warning'', le_fields = []\<rparr>,
       \<lparr>le_level = ErrorLevel, le_message = ''An error occurred'', le_fields = [(''error'', ErrorValue (Err ''example error''))]\<rparr>])"
  by (simp add: Example_basicUsage_def with_logger_def NewLogger_def parseLogLevel_def zap_write_def less_eq_log_level_def)

text \<open>With a development logger that writes debug entries, the entries of a service carry its name, then the trace ID, then their own fields.\<close>

lemma serviceLayer_output:
  "Example_serviceLayer (Inr (DebugLevel, js)) uuid sink =
     Returns (sink @ map (\<lambda>(lv, msg, fs). \<lparr>le_level = lv, le_message = msg,
         le_fields = (''service'', StringValue ''auth'') # (''trace_id'', StringValue ''trace-789'') # fs\<rparr>)
       [(InfoLevel, ''User registration started'', [(''username'', StringValue ''newuser'')]),
        (DebugLevel, ''Validating user input'', []),
        (InfoLevel, ''User registered successfully'', [(''user_id'', StringValue ''user123'')])])"
  by (simp add: Example_serviceLayer_def with_logger_def NewDevelopmentLogger_def WithFields_def InfoContext_def DebugContext_def WithContext_def
      context_WithTraceID_def logger_WithTraceID_def zap_write_def less_eq_log_level_def)

text \<open>Both entries of a request carry the trace ID made for it.\<close>

lemma httpMiddleware_output:
  assumes "lv \<le> InfoLevel" and "uuid \<noteq> []"
  shows "Example_httpMiddleware (Inr (lv, js)) uuid uuid' sink =
     Returns (sink @ [\<lparr>le_level = InfoLevel, le_message = ''Request received'',
         le_fields = [(''trace_id'', StringValue uuid), (''method'', StringValue ''POST''), (''path'', StringValue ''/api/v1/messages'')]\<rparr>,
       \<lparr>le_level = InfoLevel, le_message = ''Request completed'',
         le_fields = [(''trace_id'', StringValue uuid), (''status'', IntValue 200), (''latency'', DurationValue 45)]\<rparr>])"
  using assms by (simp add: Example_httpMiddleware_def with_logger_def NewDevelopmentLogger_def InfoContext_def WithContext_def
      context_WithTraceID_def logger_WithTraceID_def zap_write_def NewTraceID_def)

section \<open>Properties\<close>

section \<open>Property\<close>

lemma account_cases:
  assumes "account k (if bad then Some e0 else None) n dead"
  shows "let cut_off = (\<exists>s e. ctxErr k s = Some e \<and> dead = Some e)
    in if bad then n = 4 \<and> dead = Some (Wrap ''failed after 3 retries'' e0) \<or> n < 4 \<and> cut_off else n = 1 \<and> dead = None \<or> n = 0 \<and> cut_off"
  using assms unfolding Let_def by (cases dead; cases bad) (auto simp: account_def)

text \<open>C38. The consumer example with error handling, on brokers that accept every call, once \<^verbatim>\<open>Start\<close> and \<^verbatim>\<open>Ready\<close> have returned: it
  announces that it is ready and ends without an error.  For each message of its claim, in order, the consuming goroutine prints one line per attempt to process
  it, and one more, with the error, if the message is sent to the dead letter topic \<^verbatim>\<open>chat.messages.dlq\<close>; nothing else is stored there.
  A \<^verbatim>\<open>bad-message\<close> is always sent there, after four attempts unless the context was done before; any other message is processed at the first attempt unless the
  context was done already, and then it is sent there unprocessed.\<close>

theorem consumer_example_dlq:
  fixes k :: "('g, 'p, 's) sarama"
  assumes "healthy_kafka k log" and "ready_seen g"
  shows "\<exists>w' acc. ExampleConsumer_withErrorHandling k g evs w = Some (None, w') \<and>
    ex_out w' = ex_out w @ [''Consumer is ready with error handling''] \<and> length acc = length (claimed evs) \<and>
    ex_claim_out w' = ex_claim_out w @ concat (map2 (\<lambda>m (n, dead). replicate n (''Processing message: '' @ cm_Value m) @
      (case dead of None \<Rightarrow> []
       | Some e \<Rightarrow> [''Message sent to DLQ. Topic: '' @ cm_Topic m @ '', Partition: '' @ FormatInt (cm_Partition m) @
            '', Offset: '' @ FormatInt (cm_Offset m) @ '', Error: '' @ error_text e])) (claimed evs) acc) \<and>
    log (ex_kafka w') = log (ex_kafka w) @ concat (map2 (\<lambda>m (n, dead). if dead = None then [] else
      [\<lparr>pm_Topic = ''chat.messages.dlq'', pm_Key = cm_Key m, pm_Value = cm_Value m\<rparr>]) (claimed evs) acc) \<and>
    (\<forall>i < length acc. case acc ! i of (n, dead) \<Rightarrow>
      let cut_off = (\<exists>s e. ctxErr k s = Some e \<and> dead = Some e)
      in if cm_Value (claimed evs ! i) = ''bad-message''
         then n = 4 \<and> dead = Some (Wrap ''failed after 3 retries'' (Err ''failed to process message'')) \<or> n < 4 \<and> cut_off
         else n = 1 \<and> dead = None \<or> n = 0 \<and> cut_off)"
proof -
  define err where "err = (\<lambda>m :: consumer_message. if cm_Value m = ''bad-message'' then Some (Err ''failed to process message'') else None)"
  have h: "failing_handler m w = (err m, claim_Println (''Processing message: '' @ cm_Value m) w)" for m and w :: "'s example_world"
    by (simp add: failing_handler_def err_def Let_def)
  define cfg where "cfg = consumer_example_config ''chat-consumer-with-dlq''"
  have cfg: "co_MaxRetries (kf_Consumer cfg) = 3" "dlq_copy cfg m = \<lparr>pm_Topic = ''chat.messages.dlq'', pm_Key = cm_Key m, pm_Value = cm_Value m\<rparr>" for m
    by (simp_all add: cfg_def consumer_example_config_def dlq_copy_def)
  obtain w' acc where run: "consumer_example k cfg failing_handler ''Consumer is ready with error handling'' g evs w = Some (None, w')"
      "ex_out w' = ex_out w @ [''Consumer is ready with error handling'']"
      and acc: "list_all2 (\<lambda>m (n, dead). account k (err m) n dead) (claimed evs) acc"
      and out: "ex_claim_out w' = ex_claim_out w @ concat (map2 (\<lambda>m. claim_lines (''Processing message: '' @ cm_Value m) m) (claimed evs) acc)"
      and log: "log (ex_kafka w') = log (ex_kafka w) @ map (dlq_copy cfg \<circ> fst) (filter (\<lambda>(m, n, dead). dead \<noteq> None) (zip (claimed evs) acc))"
    using healthy_kafka.consumer_example_account [where h = failing_handler and err = err and line = "\<lambda>m. ''Processing message: '' @ cm_Value m",
        OF assms(1) h cfg(1) assms(2)] by blast
  have copies: "map (dlq_copy cfg \<circ> fst) (filter (\<lambda>(m, n, dead). dead \<noteq> None) ps) =
      concat (map (\<lambda>(m, n, dead). if dead = None then [] else [dlq_copy cfg m]) ps)" for ps :: "(consumer_message \<times> nat \<times> go_error option) list"
    by (induction ps) auto
  have account: "case acc ! i of (n, dead) \<Rightarrow> account k (err (claimed evs ! i)) n dead" if "i < length acc" for i
    using acc that by (simp add: list_all2_conv_all_nth)
  have "case acc ! i of (n, dead) \<Rightarrow>
      let cut_off = (\<exists>s e. ctxErr k s = Some e \<and> dead = Some e)
      in if cm_Value (claimed evs ! i) = ''bad-message''
         then n = 4 \<and> dead = Some (Wrap ''failed after 3 retries'' (Err ''failed to process message'')) \<or> n < 4 \<and> cut_off
         else n = 1 \<and> dead = None \<or> n = 0 \<and> cut_off" if "i < length acc" for i
    using account [OF that] account_cases unfolding err_def case_prod_beta by blast
  then show ?thesis
    using run list_all2_lengthD [OF acc] out log
    unfolding copies cfg(2) ExampleConsumer_withErrorHandling_def cfg_def [symmetric] claim_lines_def dlq_notice_def case_prod_beta
    by (intro exI [of _ w'] exI [of _ acc]) simp
qed

theorem consumer_example_dlq_witness:
  "\<exists>w'. ExampleConsumer_withErrorHandling demo_sarama demo_session
      [ClaimMessage demo_message, ClaimMessage (demo_message\<lparr>cm_Value := ''bad-message''\<rparr>), ContextDone]
      \<lparr>ex_out = [], ex_claim_out = [], ex_kafka = []\<rparr> = Some (None, w') \<and>
    length (ex_claim_out w') = 6 \<and>
    ex_kafka w' = [\<lparr>pm_Topic = ''chat.messages.dlq'', pm_Key = None, pm_Value = ''bad-message''\<rparr>]"
proof -
  have ready: "ready_seen demo_session" by (simp add: ready_seen_def demo_session_def group_init_def)
  let ?bad = "demo_message\<lparr>cm_Value := ''bad-message''\<rparr>"
  let ?evs = "[ClaimMessage demo_message, ClaimMessage ?bad, ContextDone]" and ?w = "\<lparr>ex_out = [], ex_claim_out = [], ex_kafka = []\<rparr>"
  have never: "ctxErr demo_sarama s = None" for s by (simp add: demo_sarama_def)
  show ?thesis
    using consumer_example_dlq [OF demo_cluster.healthy_kafka_axioms ready, of ?evs ?w]
    by (auto simp: never demo_message_def Let_def length_Suc_conv All_less_Suc2)
qed

end
