(* ===== verification/Spec2Isabelle.thy ===== *)
theory Spec2Isabelle
  imports Prelude Snowflake ConsistentHash LoadBalancer Redis RateLimit Config Kafka Proto Gateway GatewayHandler Model Storage Jwt
    AuthService GuildService MessageService Http Handlers Grpc Utils WorkerPool Logging Server
    Programs Concurrency Pipeline Node Delivery Examples
begin

text \<open>
  A verification development of the ChatRoom server (Go sources under \<^verbatim>\<open>src/\<close>).

  \<^bold>\<open>The program.\<close>  ChatRoom is a chat server.  Users register and log in over HTTP and get a JWT; with it they create
  and join guilds, send messages and read pages of a guild's history.  A message can also arrive over a websocket:
  the gateway stamps it with the user of the connection and produces it to Kafka, a consumer takes it from there and calls the
  same message service.  The message service draws a snowflake ID and a sequence number (a Redis counter per guild), stores the
  message in PostgreSQL and publishes it on a Redis channel of the guild; every gateway node subscribes to these channels and
  pushes the message to its connections of that guild.  A gRPC interface serves users, guilds, messages and gateway
  nodes to each other.  A rate limiter, a consistent-hash ring, a load balancer, a Bloom filter, a worker pool, a
  validator and a logger are packages beside it.

  \<^bold>\<open>External systems.\<close>  What is not in the repository is a parameter of the definitions, with its documented behaviour as a locale
  that the properties assume and that is interpreted on a concrete instance for the witnesses: Redis and its driver
  (\<open>redis_server\<close>, \<open>healthy_redis\<close> in \<open>Redis\<close>), PostgreSQL with GORM (\<open>sql_database\<close>, \<open>healthy_database\<close> in
  \<open>Storage\<close>), Kafka (\<open>kafka_broker\<close>, \<open>consumer_world\<close>), the protobuf codec (\<open>ws_codec\<close>), golang-jwt
  (\<open>jwt_library\<close>) and bcrypt (\<open>bcrypt_library\<close>).  The contracts of the two databases are stated by reference
  servers, \<open>redis_step\<close> and \<open>sql_step\<close>; the general contracts allow any call to fail, also after its effect.  Clocks, random bytes
  and UUIDs are arguments.  A Go error is a value of \<open>go_error\<close>, a fallible result a sum; a Go panic is the value
  \<open>Panics\<close>; a wait that may not end is the value \<open>None\<close>.  Locks make an operation one atomic step; where the
  code leaves a lock between two parts, the parts are separate definitions or steps.  The operations of the services hold no lock: they are
  modelled twice, as functions and as programs of single statements that interleave, and the two are proved equal.

  \<^bold>\<open>Theories.\<close>
  \<^item> \<open>Prelude\<close>: 64-, 32- and 8-bit wrap-around, decimal formatting, errors, \<^verbatim>\<open>sort.Search\<close> and the lemmas shared by all.
  \<^item> \<open>Snowflake\<close> (\<^verbatim>\<open>utils/snowflake/snowflake.go\<close>): the generator at int64 width, \<^verbatim>\<open>NextID\<close> with its busy wait as a
    \<^verbatim>\<open>partial_function\<close>, parsing.  IDs increase and are unique, also across workers; they parse back; \<^verbatim>\<open>NextID\<close> returns.
  \<^item> \<open>ConsistentHash\<close> (\<^verbatim>\<open>utils/consistenthash\<close>): the ring refines a set of nodes, lookups go clockwise, adding and removing nodes
    moves only the keys it must, as long as no two nodes share a position; what happens when two do is shown.
  \<^item> \<open>LoadBalancer\<close> (\<^verbatim>\<open>internal/pkg/nginx\<close>): availability, fairness of round robin, balance of least connections.
  \<^item> \<open>Redis\<close> (\<^verbatim>\<open>internal/pkg/redis\<close>): every client method; sequence numbers increase, presence refines a map with expiry.
  \<^item> \<open>RateLimit\<close> (\<^verbatim>\<open>middleware/ratelimit\<close>): the limit holds under any failures when failing closed, and is exact while Redis answers.
  \<^item> \<open>Config\<close> (\<^verbatim>\<open>config\<close>): the configuration records.
  \<^item> \<open>Kafka\<close> (\<^verbatim>\<open>internal/pkg/kafka\<close>): retry loops, dead letters with the lines printed about them, and the consumer group as a state machine of sessions: when \<^verbatim>\<open>Setup\<close>
    and \<^verbatim>\<open>Start\<close> are safe, and when \<^verbatim>\<open>Start\<close> never returns.
  \<^item> \<open>Proto\<close> (\<^verbatim>\<open>internal/pkg/proto\<close>): the records of the chat messages and the codec contract.
  \<^item> \<open>Gateway\<close>, \<open>GatewayHandler\<close> (\<^verbatim>\<open>internal/pkg/gateway\<close>): a heap of connections, the manager and the message handler; \<open>gateway_step\<close>
    interleaves connects, disconnects, heartbeats, pushes, writes and shutdown.  The invariant holds in every reachable
    state; delivery downstream and authorship upstream are exact.  \<open>receiver_step\<close> is the life of the subscriber up to its end after \<^verbatim>\<open>Shutdown\<close>.
  \<^item> \<open>Model\<close>, \<open>Storage\<close> (\<^verbatim>\<open>internal/model\<close>, \<^verbatim>\<open>internal/repository\<close>): the tables and every repository method as the statement it
    builds; the keys of the tables are kept.
  \<^item> \<open>Jwt\<close> (\<^verbatim>\<open>middleware/jwt\<close>): the life of a token.  The contract of the library is about text that is valid UTF-8, since claims travel as JSON.
  \<^item> \<open>AuthService\<close>, \<open>GuildService\<close>, \<open>MessageService\<close> (\<^verbatim>\<open>internal/service\<close>): every operation on every branch; the account round trip, the
    membership invariant over request sequences, unique sequence numbers, complete pages.
  \<^item> \<open>Http\<close>, \<open>Handlers\<close> (\<^verbatim>\<open>internal/api\<close>, \<^verbatim>\<open>middleware/auth\<close>, \<^verbatim>\<open>internal/handler\<close>): gin contexts, middlewares as functions
    on handlers, handlers with their status codes, the route table.
  \<^item> \<open>Grpc\<close> (\<^verbatim>\<open>internal/pkg/grpc\<close>): the four services, the gateway client, the interceptors.
  \<^item> \<open>Utils\<close>, \<open>WorkerPool\<close>, \<open>Logging\<close> (\<^verbatim>\<open>utils\<close>, \<^verbatim>\<open>middleware/validator\<close>, \<^verbatim>\<open>middleware/log\<close>): integer helpers at any type,
    Bloom filter, validation, the pool as a state machine, log entries with trace IDs.
  \<^item> \<open>Server\<close> (\<^verbatim>\<open>cmd/main.go\<close>): initialisation, the Kafka handler, the websocket route, the HTTP engine, the end of \<^verbatim>\<open>main\<close>.
    What the engine serves without a valid token is spelled out route by route (\<open>api_route\<close>, \<open>web_page\<close>).
  \<^item> \<open>Programs\<close>, \<open>Concurrency\<close> (\<^verbatim>\<open>internal/repository\<close>, \<^verbatim>\<open>internal/service\<close>): the operations of the services as programs of SQL statements, ID draws and
    Redis commands, each equal to the operation when it runs alone (the lemmas \<open>run_Register\<close> to \<open>run_SendMessage\<close>); \<open>sched_step\<close> interleaves any number of them.  Keys, references, authorship and
    sequence numbers survive every interleaving, answers stay true, and every request responds after a bounded number of effects of its own.  Two anomalies are shown: concurrent
    joins leave two memberships, and a reader can miss a message that is stored late.
  \<^item> \<open>Pipeline\<close>: a message from the Kafka record through the retries of the consumer to the database, and from \<^verbatim>\<open>SendMessage\<close> through Redis to the send
    queues of the gateway.  Stored at most once per attempt and exactly once when database errors have no effect; delivered unchanged
    and once.  A lost commit reply makes a retry store it twice.
  \<^item> \<open>Node\<close>: a whole node; \<open>node_step\<close> interleaves HTTP requests, websocket frames, steps of the gateway and its subscription, Kafka deliveries, dead letters and gRPC calls over
    one database, Redis and Kafka.  Every stored message has an author whose token was presented, or for whom a gRPC caller spoke.
  \<^item> \<open>Delivery\<close>: what clients of that node are sent.  Everything published on Redis and everything queued on a websocket is a message of a known member, for the
    guild of the channel or connection, or an error notice of the gateway; also when the insert of the message failed.
  \<^item> \<open>Examples\<close> (the \<^verbatim>\<open>example\<close> directories of \<^verbatim>\<open>utils/consistenthash\<close>, \<^verbatim>\<open>utils/snowflake\<close>, \<^verbatim>\<open>internal/pkg/kafka\<close> and \<^verbatim>\<open>middleware/log\<close>): the example
    programs as functions to what they print, log and store, and what that is.  The consumer examples are cut off by \<^verbatim>\<open>Stop\<close> at any moment.
  \<^item> This theory holds the properties that span components: the authorship of messages that arrive over HTTP and over the websocket, request by request and frame by
    frame.

  \<^bold>\<open>Interfaces.\<close>  Besides the contracts above, \<open>user_registry\<close> is what the gateway's message handler relies on of the connection
  manager, \<open>message_store\<close> joins the database and Redis contracts for the message service, \<open>message_consumer\<close> adds
  what the retry loop relies on of its handler, \<open>node_environment\<close> joins the contracts of everything a node is built from, and
  \<open>healthy_kafka\<close> is a Kafka cluster on which every call of a consumer succeeds.
  The example handler of \<open>message_consumer\<close> maps a handler that never returns to a value; with its running clock that case does not occur, which the
  interpretation proves.

  \<^bold>\<open>Bounds and fuel.\<close>  No function runs on fuel.  Event lists (\<open>ConsumeClaim\<close>, \<open>readPump\<close>, \<open>writePump\<close>, \<open>monitorHeartbeats\<close>) are the
  events the loop takes; every loop over data terminates by structural recursion or a measure.  Numeric hypotheses
  are stated where a machine integer could wrap: the timestamp range of snowflake IDs, \<open>2^31\<close> connections in a broadcast.

  \<^bold>\<open>Not modelled.\<close>  Generated protobuf and gRPC code (its messages are records, its encoding a contract); what net, grpc, gin, zap and the websocket library do inside the operations that are arguments here; Go interface types and constructors that only
  store their arguments; the encoding of log lines by zap; the lines the gateway and the loop of \<^verbatim>\<open>Start\<close> print; the web page, the nginx configuration and
  deployment files; the floating-point parameters of the Bloom filter; the order in which the parts of one request of a node interleave with the gateway's
  goroutines (a request is one step of \<open>node_step\<close>; requests interleave with each other in \<open>Concurrency\<close>).  Timing is modelled only through the clock
  arguments.
\<close>

section \<open>Requests end to end\<close>

text \<open>C5. Authorship of stored messages, for every HTTP request whatsoever: a request stores at most one message, and if it
  stores one, the request carried a valid token, the message's author is the user of the token (not a user
  named in the request), that user is a member of the message's guild, and the content has 1 to 2000 bytes.
  Sequence numbers stay unique per guild.\<close>

theorem message_authorship:
  assumes "sql_database (a_db app) view" and "redis_server (a_exec app) store"
    and "message_inv (view (mw_db w)) (store (mw_redis w))" and "RegisterRoutes app dr (\<lambda>c w. Done (f c) w) c w = Done c' w'"
  shows "message_inv (view (mw_db w')) (store (mw_redis w')) \<and> (t_messages (view (mw_db w')) = t_messages (view (mw_db w)) \<or>
    (\<exists>cl m. ParseToken (a_parse app) (a_tm app) (dr_now dr) (request_token c) = Inr cl \<and>
      t_messages (view (mw_db w')) = t_messages (view (mw_db w)) @ [m] \<and> m_UserID m = c_UserID cl \<and>
      member_of (view (mw_db w)) (m_GuildID m) (c_UserID cl) \<and> 0 < length (m_Content m) \<and> length (m_Content m) \<le> 2000))"
  using message_store.RegisterRoutes_messages [OF message_store.intro [OF assms(1,2)] assms(4) refl refl assms(3)] .

theorem message_authorship_witness:
  "\<exists>tok c' w'. RegisterRoutes demo_app demo_draws (\<lambda>c w. Done (id c) w) (demo_get ''POST'' ''/api/v1/messages'' tok ''hi'') demo_world =
      Done c' w' \<and> message_inv (mw_db w') (mw_redis w') \<and>
     (\<exists>m. t_messages (mw_db w') = [m] \<and> m_UserID m = ''id-1'')"
proof -
  obtain tok c' w' where run: "RegisterRoutes demo_app demo_draws (\<lambda>c w. Done (id c) w)
      (demo_get ''POST'' ''/api/v1/messages'' tok ''hi'') demo_world = Done c' w'"
    and stored: "mw_db w' = log_append demo_tables (MessageService.demo_message 1)"
    and parsed: "ParseToken demo_parse demo_tm 1 (request_token (demo_get ''POST'' ''/api/v1/messages'' tok ''hi'')) =
      Inr (token_claims demo_tm 0 ''id-1'' ''ann'' ''a@x'')" using demo_post by blast
  have libs: "sql_database (a_db demo_app) id" "redis_server (a_exec demo_app) id"
    using ref_db.sql_database_axioms ref_redis.redis_server_axioms by (simp_all add: demo_app_def)
  have inv: "message_inv (id (mw_db demo_world)) (id (mw_redis demo_world))" using demo_world_inv by simp
  have claims: "ParseToken (a_parse demo_app) (a_tm demo_app) (dr_now demo_draws) (request_token (demo_get ''POST'' ''/api/v1/messages'' tok ''hi'')) =
      Inr (token_claims demo_tm 0 ''id-1'' ''ann'' ''a@x'')"
    using parsed by (simp add: demo_app_def demo_draws_def)
  have "c_UserID (token_claims demo_tm 0 ''id-1'' ''ann'' ''a@x'') = ''id-1''" "t_messages (mw_db demo_world) = []"
    by (simp_all add: token_claims_def demo_world_def demo_tables_def)
  moreover have "t_messages (mw_db w') \<noteq> []" using stored by (simp add: log_append_def)
  ultimately show ?thesis using message_authorship [OF libs inv run, unfolded claims] run
    by (intro exI [of _ tok] exI [of _ c'] exI [of _ w']) auto
qed

text \<open>C6. From the websocket to the database: when the gateway accepted a frame and reported no error, and the consumer handled the Kafka
  message this produced without error, then exactly one message was stored: it has the content of the frame, unchanged; its author is the user the
  connection was opened for, its guild the connection's guild, or the one the frame names if the connection has none, and the author is a
  member of that guild.\<close>

theorem websocket_to_database:
  assumes "kafka_broker send log" and "ws_codec marshal unmarshal" and "sql_database db view" and "redis_server exec store"
    and "message_inv (view (mw_db w)) (store (mw_redis w))"
    and "handleUpstreamMessage unmarshal jsonUnmarshal marshal send kcfg now conn data k = (None, k')"
    and "cm_Value msg = pm_Value (last (log k'))"
    and "consumerHandler unmarshal db exec marshal clock t created stamp msg w = Some (None, w')"
  shows "\<exists>f m. (unmarshal data = (None, f) \<or> (\<exists>e f0. unmarshal data = (Some e, f0) \<and> jsonUnmarshal data f0 = (None, f))) \<and>
    view (mw_db w') = log_append (view (mw_db w)) m \<and> m_UserID m = cn_UserID conn \<and> m_Content m = w_Content f \<and>
    m_GuildID m = (if cn_GuildID conn = [] then w_GuildId f else cn_GuildID conn) \<and> member_of (view (mw_db w)) (m_GuildID m) (cn_UserID conn) \<and>
    0 < length (m_Content m) \<and> length (m_Content m) \<le> 2000 \<and> message_inv (view (mw_db w')) (store (mw_redis w'))"
proof -
  obtain f m d where f: "read_frame unmarshal jsonUnmarshal data f"
    and log: "log k' = log k @ [\<lparr>pm_Topic = tp_Message (kf_Topics kcfg), pm_Key = Some (w_GuildId m), pm_Value = d\<rparr>]"
    and m: "unmarshal d = (None, m)" "w_UserId m = cn_UserID conn" "w_GuildId m = (if cn_GuildID conn = [] then w_GuildId f else cn_GuildID conn)"
      "w_Content m = w_Content f"
    using handleUpstreamMessage_ok [OF assms(1,2,6)] by blast
  obtain m' where run: "SendMessage db exec marshal clock t created stamp (w_UserId m) (w_GuildId m) (w_Content m) w = Some (Inr m', w')"
    using assms(7,8) log m(1) by (auto simp: consumerHandler_def split: option.splits sum.splits)
  from message_store.SendMessage_cases [OF message_store.intro [OF assms(3,4)] run assms(5)] m(2-4) f [unfolded read_frame_def]
  show ?thesis by (intro exI [of _ f] exI [of _ m']) auto
qed

definition demo_frame :: ws_message where
  "demo_frame = empty_ws\<lparr>w_UserId := ''eve'', w_GuildId := ''g-1'', w_Content := ''hi''\<rparr>"

theorem websocket_to_database_witness:
  "\<exists>d k' msg w'. handleUpstreamMessage demo_unmarshal (\<lambda>_ m. (None, m)) demo_marshal demo_send demo_kafka 0
       (NewConnection 0 ''id-1'' ''g-1'') d (0, []) = (None, k') \<and> cm_Value msg = pm_Value (last (snd k')) \<and>
     consumerHandler demo_unmarshal sql_step redis_run demo_marshal demo_clock 7 9 8 msg demo_world = Some (None, w') \<and>
     (\<exists>m. mw_db w' = log_append demo_tables m \<and> m_UserID m = ''id-1'' \<and> m_GuildID m = ''g-1'' \<and> m_Content m = ''hi'')"
proof -
  let ?conn = "NewConnection 0 ''id-1'' ''g-1''"
  obtain d where d: "demo_marshal demo_frame = Inr d" by (simp add: demo_marshal_def)
  obtain v where v: "demo_marshal (stamp_upstream 0 ?conn demo_frame) = Inr v" by (simp add: demo_marshal_def)
  define k' where "k' = snd (handleUpstreamMessage demo_unmarshal (\<lambda>_ m. (None, m)) demo_marshal demo_send demo_kafka 0 ?conn d (0, []))"
  have valid: "validateMessage demo_frame ?conn = None"
    by (simp add: validateMessage_def demo_frame_def empty_ws_def NewConnection_def)
  have up: "handleUpstreamMessage demo_unmarshal (\<lambda>_ m. (None, m)) demo_marshal demo_send demo_kafka 0 ?conn d (0, []) = (None, k')"
    "pm_Value (last (snd k')) = v"
    unfolding k'_def using v valid
    by (simp_all add: handleUpstreamMessage_def parse_upstream_def demo_codec.unmarshal_marshal [OF d] Produce_def Let_def)
  define msg where "msg = \<lparr>cm_Topic = [], cm_Partition = 0, cm_Offset = 0, cm_Key = None, cm_Value = v\<rparr>"
  obtain w' where send: "SendMessage sql_step redis_run demo_marshal demo_clock 7 9 8 ''id-1'' ''g-1'' ''hi'' demo_world =
      Some (Inr (MessageService.demo_message 1), w')" using demo_SendMessage by blast
  have fields: "w_UserId (stamp_upstream 0 ?conn demo_frame) = ''id-1''" "w_GuildId (stamp_upstream 0 ?conn demo_frame) = ''g-1''"
    "w_Content (stamp_upstream 0 ?conn demo_frame) = ''hi''"
    by (simp_all add: stamp_upstream_def demo_frame_def empty_ws_def NewConnection_def)
  have run: "consumerHandler demo_unmarshal sql_step redis_run demo_marshal demo_clock 7 9 8 msg demo_world = Some (None, w')"
    using send by (simp add: consumerHandler_def msg_def demo_codec.unmarshal_marshal [OF v] fields)
  have inv: "message_inv (id (mw_db demo_world)) (id (mw_redis demo_world))" using demo_world_inv by simp
  have val: "cm_Value msg = pm_Value (last (snd k'))" using up(2) by (simp add: msg_def)
  from websocket_to_database [OF demo_broker.kafka_broker_axioms demo_codec.ws_codec_axioms ref_db.sql_database_axioms
      ref_redis.redis_server_axioms inv up(1) val run]
  have "\<exists>m. mw_db w' = log_append demo_tables m \<and> m_UserID m = ''id-1'' \<and> m_GuildID m = ''g-1'' \<and> m_Content m = ''hi''"
    using demo_codec.unmarshal_marshal [OF d] by (auto simp: demo_world_def NewConnection_def demo_frame_def)
  then show ?thesis using up(1) val run by blast
qed

end
